(* ===== verification/Prelude.thy ===== *)
theory Prelude
  imports Main "HOL-Library.Word" "HOL-Library.Multiset"
begin

text \<open>
  What every component of the development shares: the Go machine integers and byte
  slices, the outcome of running a piece of Go code (it returns, it panics, or its
  goroutine blocks for ever), the state-passing programs built from these outcomes,
  and the facts about lists and maps that the component proofs use.
\<close>

section \<open>Machine integers, slices and maps\<close>

type_synonym u8 = "8 word"
type_synonym u16 = "16 word"
type_synonym u32 = "32 word"
type_synonym u64 = "64 word"
type_synonym bytes = "u8 list"

text \<open>
  A \<open>[]byte\<close> that the code compares with \<open>nil\<close> is an optional byte list: \<open>None\<close> is the
  nil slice, \<open>Some []\<close> the empty but allocated one. \<open>len\<close>, \<open>copy\<close>, \<open>bytes.Compare\<close> and
  the hash writers do not tell them apart, so they read a slice through \<open>slice_bytes\<close>.
\<close>

type_synonym slice = "bytes option"

definition slice_bytes :: "slice \<Rightarrow> bytes" where
  "slice_bytes s = (case s of None \<Rightarrow> [] | Some bs \<Rightarrow> bs)"

lemma slice_bytes_simps [simp]:
  "slice_bytes None = []" "slice_bytes (Some bs) = bs"
  by (simp_all add: slice_bytes_def)

text \<open>\<open>make([]byte, len(s))\<close> followed by \<open>copy\<close>: the same bytes, never nil.\<close>

definition fresh_copy :: "slice \<Rightarrow> slice" where
  "fresh_copy s = Some (slice_bytes s)"

lemma slice_bytes_fresh_copy [simp]: "slice_bytes (fresh_copy s) = slice_bytes s"
  by (simp add: fresh_copy_def)

lemma fresh_copy_idem [simp]: "fresh_copy (fresh_copy s) = fresh_copy s"
  by (simp add: fresh_copy_def)

lemma fresh_copy_not_nil [simp]: "fresh_copy s \<noteq> None"
  by (simp add: fresh_copy_def)

text \<open>Go's \<open>copy(dst, src)\<close> overwrites the first \<open>min (len dst) (len src)\<close> places of \<open>dst\<close>.\<close>

definition go_copy :: "'a list \<Rightarrow> 'a list \<Rightarrow> 'a list" where
  "go_copy dst src = take (length dst) src @ drop (length src) dst"

lemma length_go_copy [simp]: "length (go_copy dst src) = length dst"
  by (simp add: go_copy_def)

lemma go_copy_same_length: "length src = length dst \<Longrightarrow> go_copy dst src = src"
  by (simp add: go_copy_def)

lemma go_copy_Nil [simp]: "go_copy [] src = []" "go_copy dst [] = dst"
  by (simp_all add: go_copy_def)

text \<open>\<open>copy\<close> into a slice that may be nil: nothing is written into a nil slice.\<close>

definition slice_copy :: "slice \<Rightarrow> slice \<Rightarrow> slice" where
  "slice_copy dst src = map_option (\<lambda>d. go_copy d (slice_bytes src)) dst"

text \<open>
  A Go map is a partial function; a loop over it visits its keys once each, in an order
  the language leaves open. Such a loop takes the order as an argument, and what is
  proved about it holds for every order that enumerates the map.
\<close>

definition enumerates :: "'k list \<Rightarrow> ('k \<rightharpoonup> 'v) \<Rightarrow> bool" where
  "enumerates ks m \<longleftrightarrow> distinct ks \<and> set ks = dom m"

lemma enumerates_permutation:
  "enumerates ks m \<Longrightarrow> enumerates ks' m \<Longrightarrow> mset ks = mset ks'"
  by (metis enumerates_def set_eq_iff_mset_eq_distinct)

lemma enumerates_empty [simp]: "enumerates ks Map.empty \<longleftrightarrow> ks = []"
  by (auto simp: enumerates_def)

lemma enumerates_length: "enumerates ks m \<Longrightarrow> length ks = card (dom m)"
  by (metis enumerates_def distinct_card)

text \<open>The values of a map in the order of its keys.\<close>

definition map_values :: "'k list \<Rightarrow> ('k \<rightharpoonup> 'v) \<Rightarrow> 'v list" where
  "map_values ks m = List.map_filter m ks"

lemma set_map_values: "set (map_values ks m) = {v. \<exists>k\<in>set ks. m k = Some v}"
  by (force simp: map_values_def List.map_filter_def)

lemma map_values_enumerates: "enumerates ks m \<Longrightarrow> set (map_values ks m) = ran m"
  by (auto simp: set_map_values enumerates_def ran_def dom_def)

section \<open>Errors and outcomes\<close>

text \<open>An error value is its message. A function with results \<open>(a, error)\<close> yields a sum.\<close>

type_synonym go_error = string
type_synonym 'a result = "go_error + 'a"

datatype panic =
    NilDereference
  | IndexOutOfRange
  | SliceBounds
  | DivideByZero
  | CloseOfClosedChannel
  | TypeAssertion

text \<open>
  Running Go code from a state returns a value in a new state, panics, or blocks: the
  goroutine waits for a mutex it holds itself, so it never continues. The last two keep
  the state reached, since what was written before stays visible to other goroutines.
\<close>

datatype ('a, 's) outcome = Returns 'a 's | Panics panic 's | Blocks 's

type_synonym ('s, 'a) prog = "'s \<Rightarrow> ('a, 's) outcome"

primrec final_state :: "('a, 's) outcome \<Rightarrow> 's" where
  "final_state (Returns a s) = s"
| "final_state (Panics p s) = s"
| "final_state (Blocks s) = s"

definition ret :: "'a \<Rightarrow> ('s, 'a) prog" where
  "ret a = (\<lambda>s. Returns a s)"

definition bnd :: "('s, 'a) prog \<Rightarrow> ('a \<Rightarrow> ('s, 'b) prog) \<Rightarrow> ('s, 'b) prog" where
  "bnd m f = (\<lambda>s. case m s of Returns a s' \<Rightarrow> f a s' | Panics p s' \<Rightarrow> Panics p s' | Blocks s' \<Rightarrow> Blocks s')"

definition seqp :: "('s, 'a) prog \<Rightarrow> ('s, 'b) prog \<Rightarrow> ('s, 'b) prog" where
  "seqp m n = bnd m (\<lambda>_. n)"

definition gets :: "('s \<Rightarrow> 'a) \<Rightarrow> ('s, 'a) prog" where
  "gets f = (\<lambda>s. Returns (f s) s)"

definition modifies :: "('s \<Rightarrow> 's) \<Rightarrow> ('s, unit) prog" where
  "modifies f = (\<lambda>s. Returns () (f s))"

definition panics :: "panic \<Rightarrow> ('s, 'a) prog" where
  "panics p = (\<lambda>s. Panics p s)"

definition hangs :: "('s, 'a) prog" where
  "hangs = (\<lambda>s. Blocks s)"

definition whenp :: "bool \<Rightarrow> ('s, unit) prog \<Rightarrow> ('s, unit) prog" where
  "whenp c m = (if c then m else ret ())"

text \<open>Dereferencing a pointer that may be nil.\<close>

definition deref :: "'a option \<Rightarrow> ('s, 'a) prog" where
  "deref p = (case p of None \<Rightarrow> panics NilDereference | Some x \<Rightarrow> ret x)"

text \<open>A loop over a slice (or over a map in a given order) whose body may change the state.\<close>

primrec each :: "('x \<Rightarrow> ('s, unit) prog) \<Rightarrow> 'x list \<Rightarrow> ('s, unit) prog" where
  "each f [] = ret ()"
| "each f (x # xs) = seqp (f x) (each f xs)"

text \<open>A program on one component of the state, run inside the whole state.\<close>

definition zoom :: "('s \<Rightarrow> 't) \<Rightarrow> ('t \<Rightarrow> 's \<Rightarrow> 's) \<Rightarrow> ('t, 'a) prog \<Rightarrow> ('s, 'a) prog" where
  "zoom sel upd m = (\<lambda>s. case m (sel s) of
       Returns a t \<Rightarrow> Returns a (upd t s)
     | Panics p t \<Rightarrow> Panics p (upd t s)
     | Blocks t \<Rightarrow> Blocks (upd t s))"

text \<open>
  A \<open>sync.Mutex\<close> is a flag of the state. Locking a mutex that is held blocks: in a program
  that runs alone the holder can only be the same goroutine. \<open>deferring\<close> is a \<open>defer\<close>: the
  cleanup runs when the body returns and when it panics, not when it blocks.
\<close>

definition acquire :: "('s \<Rightarrow> bool) \<Rightarrow> (bool \<Rightarrow> 's \<Rightarrow> 's) \<Rightarrow> ('s, unit) prog" where
  "acquire held put_held = (\<lambda>s. if held s then Blocks s else Returns () (put_held True s))"

definition release :: "(bool \<Rightarrow> 's \<Rightarrow> 's) \<Rightarrow> ('s, unit) prog" where
  "release put_held = modifies (put_held False)"

definition deferring :: "('s \<Rightarrow> 's) \<Rightarrow> ('s, 'a) prog \<Rightarrow> ('s, 'a) prog" where
  "deferring cleanup m = (\<lambda>s. case m s of
       Returns a s' \<Rightarrow> Returns a (cleanup s') | Panics p s' \<Rightarrow> Panics p (cleanup s') | Blocks s' \<Rightarrow> Blocks s')"

definition with_lock :: "('s \<Rightarrow> bool) \<Rightarrow> (bool \<Rightarrow> 's \<Rightarrow> 's) \<Rightarrow> ('s, 'a) prog \<Rightarrow> ('s, 'a) prog" where
  "with_lock held put_held m = seqp (acquire held put_held) (deferring (put_held False) m)"

named_theorems prog_simps "evaluation of state-passing programs"

lemma prog_eval [prog_simps]:
  "ret a s = Returns a s"
  "bnd m f s = (case m s of Returns a s' \<Rightarrow> f a s' | Panics p s' \<Rightarrow> Panics p s' | Blocks s' \<Rightarrow> Blocks s')"
  "seqp m n s = (case m s of Returns a s' \<Rightarrow> n s' | Panics p s' \<Rightarrow> Panics p s' | Blocks s' \<Rightarrow> Blocks s')"
  "gets g s = Returns (g s) s"
  "modifies h s = Returns () (h s)"
  "panics p s = Panics p s"
  "hangs s = Blocks s"
  "deref (Some x) s = Returns x s"
  "deref None s = Panics NilDereference s"
  by (simp_all add: ret_def bnd_def seqp_def gets_def modifies_def panics_def hangs_def deref_def)

lemma whenp_eval [prog_simps]:
  "whenp c m s = (if c then m s else Returns () s)"
  by (simp add: whenp_def ret_def)

lemma lock_eval [prog_simps]:
  "acquire held put_held s = (if held s then Blocks s else Returns () (put_held True s))"
  "release put_held s = Returns () (put_held False s)"
  "deferring cleanup m s = (case m s of
       Returns a s' \<Rightarrow> Returns a (cleanup s') | Panics p s' \<Rightarrow> Panics p (cleanup s') | Blocks s' \<Rightarrow> Blocks s')"
  "with_lock held put_held m s = (if held s then Blocks s else
     case m (put_held True s) of
       Returns a s' \<Rightarrow> Returns a (put_held False s')
     | Panics p s' \<Rightarrow> Panics p (put_held False s')
     | Blocks s' \<Rightarrow> Blocks s')"
  by (simp_all add: acquire_def release_def deferring_def with_lock_def seqp_def bnd_def modifies_def)

lemma zoom_eval [prog_simps]:
  "zoom sel upd m s = (case m (sel s) of
       Returns a t \<Rightarrow> Returns a (upd t s)
     | Panics p t \<Rightarrow> Panics p (upd t s)
     | Blocks t \<Rightarrow> Blocks (upd t s))"
  by (simp add: zoom_def)

section \<open>Invariants of programs\<close>

text \<open>
  \<open>keeps I m\<close>: from a state where \<open>I\<close> holds, \<open>m\<close> ends in one, also when it panics or
  blocks. The rules are collected in \<open>keeps_intros\<close>, so that the invariant of a handler
  is proved by following its text.
\<close>

definition keeps :: "('s \<Rightarrow> bool) \<Rightarrow> ('s, 'a) prog \<Rightarrow> bool" where
  "keeps I m \<longleftrightarrow> (\<forall>s. I s \<longrightarrow> I (final_state (m s)))"

named_theorems keeps_intros "introduction rules for program invariants"

lemma keepsI: "(\<And>s. I s \<Longrightarrow> I (final_state (m s))) \<Longrightarrow> keeps I m"
  by (simp add: keeps_def)

lemma keepsD: "keeps I m \<Longrightarrow> I s \<Longrightarrow> I (final_state (m s))"
  by (simp add: keeps_def)

lemma keeps_ret [keeps_intros]: "keeps I (ret a)"
  by (simp add: keeps_def prog_simps)

lemma keeps_panics [keeps_intros]: "keeps I (panics p)"
  by (simp add: keeps_def prog_simps)

lemma keeps_hangs [keeps_intros]: "keeps I hangs"
  by (simp add: keeps_def prog_simps)

lemma keeps_gets [keeps_intros]: "keeps I (gets f)"
  by (simp add: keeps_def prog_simps)

lemma keeps_deref [keeps_intros]: "keeps I (deref p)"
  by (cases p) (simp_all add: keeps_def prog_simps)

lemma keeps_bnd [keeps_intros]:
  assumes "keeps I m" and "\<And>a. keeps I (f a)"
  shows "keeps I (bnd m f)"
proof (rule keepsI)
  fix s assume "I s"
  with assms(1) have "I (final_state (m s))" by (rule keepsD)
  with assms(2) show "I (final_state (bnd m f s))"
    by (cases "m s") (simp_all add: prog_simps keeps_def)
qed

lemma keeps_seqp [keeps_intros]: "keeps I m \<Longrightarrow> keeps I n \<Longrightarrow> keeps I (seqp m n)"
  unfolding seqp_def by (rule keeps_bnd)

lemma keeps_whenp [keeps_intros]: "(c \<Longrightarrow> keeps I m) \<Longrightarrow> keeps I (whenp c m)"
  by (auto simp: whenp_def intro: keeps_ret)

lemma keeps_if [keeps_intros]:
  "(c \<Longrightarrow> keeps I m) \<Longrightarrow> (\<not> c \<Longrightarrow> keeps I n) \<Longrightarrow> keeps I (if c then m else n)"
  by simp

lemma keeps_each [keeps_intros]:
  "(\<And>x. x \<in> set xs \<Longrightarrow> keeps I (f x)) \<Longrightarrow> keeps I (each f xs)"
  by (induction xs) (auto intro: keeps_intros)

lemma keeps_modifies [keeps_intros]: "(\<And>s. I s \<Longrightarrow> I (f s)) \<Longrightarrow> keeps I (modifies f)"
  by (simp add: keeps_def prog_simps)

lemma keeps_deferring [keeps_intros]:
  assumes "keeps I m" and "\<And>s. I s \<Longrightarrow> I (cleanup s)"
  shows "keeps I (deferring cleanup m)"
proof (rule keepsI)
  fix s assume "I s"
  with assms(1) have "I (final_state (m s))" by (rule keepsD)
  with assms(2) show "I (final_state (deferring cleanup m s))"
    by (cases "m s") (simp_all add: deferring_def)
qed

lemma keeps_lock [keeps_intros]:
  assumes "\<And>s b. I s \<Longrightarrow> I (put_held b s)"
  shows "keeps I (acquire held put_held)" and "keeps I (release put_held)"
    and "keeps I m \<Longrightarrow> keeps I (with_lock held put_held m)"
proof -
  show acq: "keeps I (acquire held put_held)"
    using assms by (auto simp: keeps_def prog_simps)
  show "keeps I (release put_held)"
    using assms by (simp add: keeps_def prog_simps)
  show "keeps I m \<Longrightarrow> keeps I (with_lock held put_held m)"
    unfolding with_lock_def using acq assms by (blast intro: keeps_seqp keeps_deferring)
qed

lemma keeps_zoom:
  assumes "keeps J m" and "\<And>s. I s \<Longrightarrow> J (sel s)"
    and "\<And>s t. I s \<Longrightarrow> J t \<Longrightarrow> I (upd t s)"
  shows "keeps I (zoom sel upd m)"
proof (rule keepsI)
  fix s assume "I s"
  with assms have "J (final_state (m (sel s)))" by (simp add: keeps_def)
  with assms(3) \<open>I s\<close> show "I (final_state (zoom sel upd m s))"
    by (cases "m (sel s)") (simp_all add: prog_simps)
qed

end
