(* ===== verification/Words.thy ===== *)
theory Words
  imports Prelude
begin

unbundle bit_operations_syntax

text \<open>
  The byte orders of Go's \<open>encoding/binary\<close> on words of any width, with the round trip
  that the readers and writers of the chain encoding rest on, and the reading of a byte
  list as a big-endian natural number (\<open>big.Int.SetBytes\<close>).
\<close>

section \<open>Little and big endian words\<close>

definition le_bytes :: "nat \<Rightarrow> 'a::len word \<Rightarrow> bytes" where
  "le_bytes n w = map (\<lambda>i. ucast (drop_bit (8 * i) w)) [0..<n]"

primrec of_le_bytes :: "bytes \<Rightarrow> 'a::len word" where
  "of_le_bytes [] = 0"
| "of_le_bytes (b # bs) = ucast b OR push_bit 8 (of_le_bytes bs)"

datatype byteOrder = LittleEndian | BigEndian

text \<open>The bytes of a word in the given order, and the word that a list of bytes stands for.\<close>

primrec put_order :: "byteOrder \<Rightarrow> nat \<Rightarrow> 'a::len word \<Rightarrow> bytes" where
  "put_order LittleEndian n w = le_bytes n w"
| "put_order BigEndian n w = rev (le_bytes n w)"

primrec get_order :: "byteOrder \<Rightarrow> bytes \<Rightarrow> 'a::len word" where
  "get_order LittleEndian bs = of_le_bytes bs"
| "get_order BigEndian bs = of_le_bytes (rev bs)"

lemma length_le_bytes [simp]: "length (le_bytes n w) = n"
  by (simp add: le_bytes_def)

lemma length_put_order [simp]: "length (put_order ord n w) = n"
  by (cases ord) simp_all

lemma le_bytes_4: "le_bytes 4 w = [ucast w, ucast (drop_bit 8 w), ucast (drop_bit 16 w), ucast (drop_bit 24 w)]"
  by (simp add: le_bytes_def upt_conv_Cons)

lemma bit_of_le_bytes:
  "bit (of_le_bytes bs :: 'a::len word) i \<longleftrightarrow>
     i < LENGTH('a) \<and> i < 8 * length bs \<and> bit (bs ! (i div 8)) (i mod 8)"
proof (induction bs arbitrary: i)
  case Nil
  then show ?case by simp
next
  case (Cons b bs)
  show ?case
  proof (cases "i < 8")
    case True
    then show ?thesis by (auto simp: bit_or_iff bit_push_bit_iff bit_ucast_iff)
  next
    case False
    then obtain j where i: "i = 8 + j" by (metis le_Suc_ex linorder_not_less)
    have "\<not> bit b i"
      using False bit_imp_le_length [of b i] by auto
    moreover have "(8 + j) div 8 = Suc (j div 8)" by simp
    ultimately show ?thesis
      by (auto simp: i bit_or_iff bit_push_bit_iff bit_ucast_iff Cons.IH)
  qed
qed

lemma of_le_bytes_le_bytes [simp]:
  assumes "LENGTH('a::len) = 8 * n"
  shows "of_le_bytes (le_bytes n w) = (w :: 'a word)"
proof (rule bit_word_eqI)
  fix i assume "i < LENGTH('a)"
  then have i: "i < 8 * n" and d: "i div 8 < n" using assms by auto
  have "8 * (i div 8) + i mod 8 = i" by simp
  then show "bit (of_le_bytes (le_bytes n w) :: 'a word) i \<longleftrightarrow> bit w i"
    using i d \<open>i < LENGTH('a)\<close>
    by (simp add: bit_of_le_bytes le_bytes_def bit_ucast_iff bit_drop_bit_eq)
qed

lemma get_order_put_order:
  assumes "LENGTH('a::len) = 8 * n"
  shows "get_order ord (put_order ord n w) = (w :: 'a word)"
  by (cases ord) (simp_all add: assms)

lemma put_order_inject:
  assumes "LENGTH('a::len) = 8 * n"
  shows "put_order ord n v = put_order ord n (w :: 'a word) \<longleftrightarrow> v = w"
  by (metis assms get_order_put_order)

lemmas le_bytes_inject =
  put_order_inject [where ord = LittleEndian, simplified]

section \<open>Byte lists as natural numbers\<close>

text \<open>\<open>big.Int.SetBytes\<close> reads big-endian; \<open>big.Int.Bytes\<close> has no leading zero byte.\<close>

definition big_of_bytes :: "bytes \<Rightarrow> nat" where
  "big_of_bytes bs = foldl (\<lambda>n b. 256 * n + unat b) 0 bs"

definition little_of_bytes :: "bytes \<Rightarrow> nat" where
  "little_of_bytes bs = big_of_bytes (rev bs)"

lemma little_of_bytes_simps [simp]:
  "little_of_bytes [] = 0"
  "little_of_bytes (b # bs) = unat b + 256 * little_of_bytes bs"
  by (simp_all add: little_of_bytes_def big_of_bytes_def)

lemma unat_byte_less: "unat (b :: u8) < 256"
proof -
  have "unat b < 2 ^ LENGTH(8)" by (rule unsigned_less)
  then show ?thesis by simp
qed

lemma little_of_bytes_less: "little_of_bytes bs < 256 ^ length bs"
proof (induction bs)
  case Nil
  then show ?case by simp
next
  case (Cons b bs)
  then have "Suc (little_of_bytes bs) \<le> 256 ^ length bs" by simp
  then have "256 * Suc (little_of_bytes bs) \<le> 256 * 256 ^ length bs" by (rule mult_le_mono2)
  then show ?case using unat_byte_less [of b] by simp
qed

lemma big_of_bytes_less: "big_of_bytes bs < 256 ^ length bs"
  using little_of_bytes_less [of "rev bs"] by (simp add: little_of_bytes_def)

end
