(* ===== verification/Difficulty.thy ===== *)
theory Difficulty
  imports Words
begin

text \<open>
  blockchain/difficulty.go: the hash as a number, and the compact \<open>uint32\<close> form of a
  difficulty target. \<open>big.Int\<close> is \<open>int\<close>; \<open>Rsh\<close> is an arithmetic shift, as
  \<open>math/big\<close> documents; \<open>Bits()[0]\<close> is the least significant 64-bit word of the absolute
  value, of which the code keeps 32 bits; \<open>len(Bytes())\<close> is the number of base-256
  digits of the absolute value.
\<close>

section \<open>Translation of the code\<close>

text \<open>
  The code reverses the hash with swaps in the array that the caller's slice shares, so
  the caller sees the reversed bytes: the result is the number and that array.
\<close>

definition swap_ends :: "'a list \<Rightarrow> nat \<Rightarrow> 'a list" where
  "swap_ends buf i =
     buf[i := buf ! (length buf - 1 - i), length buf - 1 - i := buf ! i]"

definition HashToBig :: "bytes \<Rightarrow> int \<times> bytes" where
  "HashToBig hash =
     (let buf = foldl swap_ends hash [0..<length hash div 2]
      in (int (big_of_bytes buf), buf))"

definition CompactToBig :: "u32 \<Rightarrow> int" where
  "CompactToBig compact =
     (let mantissa = compact AND 0x007fffff;
          isNegative = compact AND 0x00800000 \<noteq> 0;
          exponent = unat (drop_bit 24 compact);
          bn = (if exponent \<le> 3 then uint (drop_bit (8 * (3 - exponent)) mantissa)
                else push_bit (8 * (exponent - 3)) (uint mantissa))
      in if isNegative then - bn else bn)"

fun num_bytes :: "nat \<Rightarrow> nat" where
  "num_bytes n = (if n = 0 then 0 else Suc (num_bytes (n div 256)))"

declare num_bytes.simps [simp del]

definition BigToCompact :: "int \<Rightarrow> u32" where
  "BigToCompact n =
     (if n = 0 then 0
      else let
        exponent = num_bytes (nat \<bar>n\<bar>);
        mantissa = (if exponent \<le> 3
                    then push_bit (8 * (3 - exponent)) (word_of_int \<bar>n\<bar>)
                    else word_of_int \<bar>drop_bit (8 * (exponent - 3)) n\<bar>) :: u32;
        overflow = mantissa AND 0x00800000 \<noteq> 0;
        mantissa = (if overflow then drop_bit 8 mantissa else mantissa);
        exponent = (if overflow then exponent + 1 else exponent);
        compact = push_bit 24 (of_nat exponent) OR mantissa
      in if n < 0 then compact OR 0x00800000 else compact)"

definition DEFAULT_BITS :: u32 where
  "DEFAULT_BITS = 0x1e016800"

section \<open>Reversal of the hash\<close>

lemma length_swap_ends [simp]: "length (swap_ends buf i) = length buf"
  by (simp add: swap_ends_def)

lemma swap_ends_nth:
  assumes "2 * i < length buf" and "k < length buf"
  shows "swap_ends buf i ! k =
    (if k = i then buf ! (length buf - 1 - i) else if k = length buf - 1 - i then buf ! i else buf ! k)"
  using assms by (auto simp: swap_ends_def nth_list_update)

lemma length_fold_swap_ends [simp]: "length (foldl swap_ends buf is) = length buf"
  by (induction "is" arbitrary: buf) simp_all

lemma fold_swap_ends_nth:
  assumes "n \<le> length buf div 2" and "k < length buf"
  shows "foldl swap_ends buf [0..<n] ! k =
    (if k < n \<or> length buf - 1 - k < n then buf ! (length buf - 1 - k) else buf ! k)"
  using assms
proof (induction n arbitrary: k)
  case 0
  then show ?case by simp
next
  case (Suc n)
  let ?b = "foldl swap_ends buf [0..<n]"
  have "swap_ends ?b n ! k =
    (if k = n then ?b ! (length buf - 1 - n) else if k = length buf - 1 - n then ?b ! n else ?b ! k)"
    using Suc.prems swap_ends_nth [of n ?b k] by auto
  then show ?case
    using Suc.prems Suc.IH [of k] Suc.IH [of n] Suc.IH [of "length buf - 1 - n"] by auto
qed

lemma swap_loop_rev: "foldl swap_ends buf [0..<length buf div 2] = rev buf"
proof (rule nth_equalityI)
  show "length (foldl swap_ends buf [0..<length buf div 2]) = length (rev buf)" by simp
  fix k assume "k < length (foldl swap_ends buf [0..<length buf div 2])"
  then have k: "k < length buf" by simp
  have "\<not> (k < length buf div 2 \<or> length buf - 1 - k < length buf div 2) \<Longrightarrow> length buf - 1 - k = k"
    using k by presburger
  then show "foldl swap_ends buf [0..<length buf div 2] ! k = rev buf ! k"
    using k fold_swap_ends_nth [of "length buf div 2" buf k] by (auto simp: rev_nth)
qed

lemma HashToBig_eq: "HashToBig hash = (int (little_of_bytes hash), rev hash)"
  by (simp add: HashToBig_def Let_def swap_loop_rev little_of_bytes_def)

section \<open>The fields of the compact form\<close>

text \<open>
  The documented layout: 8 bits of exponent, the sign bit, 23 bits of mantissa, standing
  for \<open>(-1) ^ sign * mantissa * 256 ^ (exponent - 3)\<close>, here rounded towards zero where
  the exponent is below 3.
\<close>

definition exponent_of :: "u32 \<Rightarrow> nat" where "exponent_of c = unat c div 2 ^ 24"
definition negative_of :: "u32 \<Rightarrow> bool" where "negative_of c = odd (unat c div 2 ^ 23)"
definition mantissa_of :: "u32 \<Rightarrow> nat" where "mantissa_of c = unat c mod 2 ^ 23"

definition compact_value :: "nat \<Rightarrow> bool \<Rightarrow> nat \<Rightarrow> int" where
  "compact_value e neg m =
     (let v = int (m * 256 ^ e div 2 ^ 24) in if neg then - v else v)"

lemma mantissa_of_less: "mantissa_of c < 2 ^ 23"
  by (simp add: mantissa_of_def)

lemma exponent_of_less: "exponent_of c < 256"
proof -
  have "unat c < 2 ^ LENGTH(32)" by (rule unsigned_less)
  then show ?thesis by (simp add: exponent_of_def div_less_iff_less_mult)
qed

lemma compact_fields: "unat c = exponent_of c * 2 ^ 24 + of_bool (negative_of c) * 2 ^ 23 + mantissa_of c"
proof -
  define q where "q = unat c div 2 ^ 23"
  define h where "h = unat c div 2 ^ 24"
  have "h = q div 2" unfolding q_def h_def by (simp flip: div_mult2_eq)
  then have "q = 2 * h + (if odd q then 1 else 0)" by presburger
  then have "q * 2 ^ 23 = h * 2 ^ 24 + of_bool (odd q) * 2 ^ 23"
    by (cases "odd q") auto
  moreover have "unat c = q * 2 ^ 23 + mantissa_of c"
    unfolding q_def mantissa_of_def by (simp only: div_mult_mod_eq)
  moreover have "exponent_of c = h" "negative_of c = odd q"
    by (simp_all only: exponent_of_def negative_of_def h_def q_def)
  ultimately show ?thesis by simp
qed

lemma unat_low_bits: "unat (c AND 0x007fffff :: u32) = mantissa_of c"
proof -
  have "(0x007fffff :: u32) = mask 23" by (simp add: mask_eq_exp_minus_1)
  then have "unat (c AND 0x007fffff) = unat (take_bit 23 c)" by (simp only: take_bit_eq_mask)
  also have "\<dots> = take_bit 23 (unat c)" by (rule unsigned_take_bit_eq)
  finally show ?thesis by (simp only: mantissa_of_def take_bit_eq_mod)
qed

lemma sign_bit: "(c AND 0x00800000 :: u32) \<noteq> 0 \<longleftrightarrow> negative_of c"
proof -
  have "(0x00800000 :: u32) = 2 ^ 23" by simp
  then have "(c AND 0x00800000 :: u32) \<noteq> 0 \<longleftrightarrow> bit c 23"
    by (simp only: and_exp_eq_0_iff_not_bit) simp
  also have "\<dots> \<longleftrightarrow> bit (unat c) 23" by (simp add: bit_unsigned_iff)
  finally show ?thesis by (simp only: negative_of_def bit_iff_odd)
qed

lemma unat_drop_bit: "unat (drop_bit n (w :: 'a::len word)) = unat w div 2 ^ n"
proof -
  have "unat (drop_bit n w) = drop_bit n (take_bit LENGTH('a) (unat w))"
    by (rule unsigned_drop_bit_eq)
  also have "take_bit LENGTH('a) (unat w) = unat w"
    by (simp add: take_bit_nat_eq_self)
  finally show ?thesis by (simp only: drop_bit_eq_div)
qed

lemma unat_push_bit: "unat (push_bit n (w :: 'a::len word)) = unat w * 2 ^ n mod 2 ^ LENGTH('a)"
proof -
  have "unat (push_bit n w) = take_bit LENGTH('a) (push_bit n (unat w))"
    by (rule unsigned_push_bit_eq)
  then show ?thesis by (simp only: push_bit_eq_mult take_bit_eq_mod)
qed

lemma unat_high_bits: "unat (drop_bit 24 c :: u32) = exponent_of c"
  by (simp only: exponent_of_def unat_drop_bit)

lemma CompactToBig_fields:
  "CompactToBig c = compact_value (exponent_of c) (negative_of c) (mantissa_of c)"
proof -
  let ?e = "exponent_of c" and ?m = "mantissa_of c"
  have up: "int ?m * 2 ^ (8 * (?e - 3)) = int (?m * 256 ^ ?e div 2 ^ 24)" if "3 < ?e"
  proof -
    define k where "k = ?e - 3"
    with that have k: "?e = 3 + k" by simp
    have "?m * 256 ^ ?e = ?m * 256 ^ k * 2 ^ 24" by (simp add: k power_add)
    then have "?m * 256 ^ ?e div 2 ^ 24 = ?m * 256 ^ k" by (simp only: nonzero_mult_div_cancel_right) simp
    then show ?thesis by (simp add: k power_mult)
  qed
  have down: "?m div 2 ^ (8 * (3 - ?e)) = ?m * 256 ^ ?e div 2 ^ 24" if "?e \<le> 3"
  proof -
    define k where "k = 3 - ?e"
    with that have k: "?e + k = 3" by simp
    have "(256::nat) ^ (?e + k) = 2 ^ 24" by (simp add: k)
    then have "(2::nat) ^ 24 = 256 ^ k * 256 ^ ?e" by (simp only: power_add mult.commute)
    moreover have "?m * 256 ^ ?e div (256 ^ k * 256 ^ ?e) = ?m div 256 ^ k" by simp
    moreover have "(2::nat) ^ (8 * (3 - ?e)) = 256 ^ k" by (simp add: power_mult k_def)
    ultimately show ?thesis by (simp only:)
  qed
  have "uint (drop_bit (8 * (3 - ?e)) (c AND 0x007fffff :: u32)) = int (?m div 2 ^ (8 * (3 - ?e)))"
    by (simp only: uint_nat unat_drop_bit unat_low_bits)
  moreover have "uint (c AND 0x007fffff :: u32) = int ?m"
    by (simp only: unat_low_bits uint_nat)
  ultimately show ?thesis
    using up down
    by (simp add: CompactToBig_def Let_def unat_high_bits sign_bit compact_value_def push_bit_eq_mult)
qed

section \<open>Encoding a non-negative number\<close>

text \<open>
  A positive \<open>n\<close> is encoded with the one exponent \<open>e\<close> for which \<open>n * 256 ^ 3 div 256 ^ e\<close>
  fits the 23-bit mantissa and has a non-zero byte above its low 15 bits.
\<close>

definition scaled :: "nat \<Rightarrow> nat \<Rightarrow> nat" where
  "scaled n e = n * 2 ^ 24 div 256 ^ e"

lemma scaled_Suc: "scaled n (Suc e) = scaled n e div 256"
  by (simp add: scaled_def mult.commute flip: div_mult2_eq)

lemma scaled_mono: "a \<le> b \<Longrightarrow> scaled a e \<le> scaled b e"
  by (simp add: scaled_def div_le_mono)

lemma scaled_antimono: "e \<le> f \<Longrightarrow> scaled n f \<le> scaled n e"
  by (simp add: scaled_def div_le_mono2 power_increasing)

lemma num_bytes_le_iff: "num_bytes n \<le> e \<longleftrightarrow> n < 256 ^ e"
proof (induction e arbitrary: n)
  case 0
  then show ?case by (subst num_bytes.simps) simp
next
  case (Suc e)
  show ?case
    by (subst num_bytes.simps) (simp add: Suc.IH div_less_iff_less_mult mult.commute)
qed

lemma num_bytes_bounds:
  assumes "0 < n"
  shows "0 < num_bytes n" and "n < 256 ^ num_bytes n" and "256 ^ (num_bytes n - 1) \<le> n"
proof -
  show pos: "0 < num_bytes n" using assms by (subst num_bytes.simps) simp
  show "n < 256 ^ num_bytes n" by (simp flip: num_bytes_le_iff)
  show "256 ^ (num_bytes n - 1) \<le> n"
    using num_bytes_le_iff [of n "num_bytes n - 1"] pos by (auto simp: not_less [symmetric])
qed

text \<open>The exponent the code arrives at, after the step that clears the sign bit.\<close>

definition compact_exponent :: "nat \<Rightarrow> nat" where
  "compact_exponent n =
     (if 2 ^ 23 \<le> scaled n (num_bytes n) then num_bytes n + 1 else num_bytes n)"

lemma scaled_num_bytes:
  assumes "0 < n"
  shows "2 ^ 16 \<le> scaled n (num_bytes n)" and "scaled n (num_bytes n) < 2 ^ 24"
proof -
  obtain d where d: "num_bytes n = Suc d" using num_bytes_bounds(1) [OF assms] gr0_conv_Suc by blast
  show "2 ^ 16 \<le> scaled n (num_bytes n)"
    using num_bytes_bounds(3) [OF assms]
    by (simp add: scaled_def d less_eq_div_iff_mult_less_eq)
  show "scaled n (num_bytes n) < 2 ^ 24"
    using num_bytes_bounds(2) [OF assms] by (simp add: scaled_def div_less_iff_less_mult)
qed

lemma compact_exponent_bounds:
  assumes "0 < n"
  shows "2 ^ 15 \<le> scaled n (compact_exponent n)" and "scaled n (compact_exponent n) < 2 ^ 23"
  using scaled_num_bytes [OF assms]
  by (auto simp: compact_exponent_def scaled_Suc less_eq_div_iff_mult_less_eq div_less_iff_less_mult)

lemma compact_exponent_unique:
  assumes "0 < n" and "2 ^ 15 \<le> scaled n e" and "scaled n e < 2 ^ 23"
  shows "compact_exponent n = e"
proof -
  have False if ab: "a < b" and "scaled n a < 2 ^ 23" "2 ^ 15 \<le> scaled n b" for a b
  proof -
    have "scaled n b \<le> scaled n (Suc a)" using ab by (simp add: scaled_antimono)
    also have "\<dots> < 2 ^ 15" using that(2) by (simp add: scaled_Suc div_less_iff_less_mult)
    finally show False using that(3) by simp
  qed
  then show ?thesis
    using assms compact_exponent_bounds [OF assms(1)] by (metis linorder_neqE_nat)
qed

lemma or_disjoint:
  assumes "m < 2 ^ k"
  shows "push_bit k (e :: nat) OR m = e * 2 ^ k + m"
proof -
  have "m = take_bit k m" using assms by (simp add: take_bit_nat_eq_self)
  then have "push_bit k e AND m = 0"
    by (metis (no_types) bit_and_iff bit_eqI bit_push_bit_iff bit_take_bit_iff bit_0_eq bot_apply bot_bool_def not_less)
  then show ?thesis by (simp add: disjunctive_add_eq_or push_bit_eq_mult)
qed

lemma unat_push_or:
  assumes "e < 256" and "unat (m :: u32) < 2 ^ 24"
  shows "unat (push_bit 24 (of_nat e) OR m) = e * 2 ^ 24 + unat m"
proof -
  have "unat (push_bit 24 (of_nat e) :: u32) = push_bit 24 e"
    unfolding unat_push_bit using assms(1)
    by (simp add: unsigned_of_nat take_bit_nat_eq_self push_bit_eq_mult)
  then show ?thesis
    using or_disjoint [OF assms(2)] by (simp only: unsigned_or_eq)
qed

lemma unat_mantissa_small:
  assumes "0 < n" and "num_bytes n \<le> 3"
  shows "unat (push_bit (8 * (3 - num_bytes n)) (word_of_int (int n)) :: u32) = scaled n (num_bytes n)"
proof -
  define k where "k = 3 - num_bytes n"
  with assms(2) have k: "num_bytes n + k = 3" by simp
  have "n < 256 ^ 3" using assms(2) num_bytes_le_iff by blast
  then have "unat (word_of_int (int n) :: u32) = n"
    by (simp add: unsigned_of_nat take_bit_nat_eq_self)
  moreover have "n * 256 ^ k = scaled n (num_bytes n)"
  proof -
    have "(256::nat) ^ (num_bytes n + k) = 2 ^ 24" by (simp add: k)
    then have "n * 2 ^ 24 = n * 256 ^ k * 256 ^ num_bytes n"
      by (simp only: power_add mult.commute mult.left_commute)
    then show ?thesis by (simp only: scaled_def nonzero_mult_div_cancel_right) simp
  qed
  moreover have "(2::nat) ^ (8 * k) = 256 ^ k" by (simp add: power_mult)
  ultimately show ?thesis
    unfolding unat_push_bit using scaled_num_bytes(2) [OF assms(1)]
    by (simp flip: k_def)
qed

lemma unat_mantissa_large:
  assumes "0 < n" and "3 < num_bytes n"
  shows "unat (word_of_int \<bar>drop_bit (8 * (num_bytes n - 3)) (int n)\<bar> :: u32) = scaled n (num_bytes n)"
proof -
  define k where "k = num_bytes n - 3"
  with assms(2) have k: "num_bytes n = k + 3" by simp
  have "scaled n (num_bytes n) = n div 256 ^ k"
  proof -
    have "(256::nat) ^ num_bytes n = 256 ^ k * 2 ^ 24" by (simp add: k power_add)
    then have "scaled n (num_bytes n) = n * 2 ^ 24 div (256 ^ k * 2 ^ 24)" by (simp only: scaled_def)
    then show ?thesis by (simp only: div_mult_mult2) simp
  qed
  moreover have "\<bar>drop_bit (8 * k) (int n)\<bar> = int (n div 256 ^ k)"
  proof -
    have "int n div 256 ^ k = int (n div 256 ^ k)" by (simp add: zdiv_int)
    then show ?thesis by (simp add: drop_bit_eq_div power_mult)
  qed
  ultimately show ?thesis
    using scaled_num_bytes(2) [OF assms(1)]
    by (simp add: unsigned_of_nat take_bit_nat_eq_self flip: k_def)
qed

lemma sign_mantissa: "(m AND 0x00800000 :: u32) \<noteq> 0 \<longleftrightarrow> odd (unat m div 2 ^ 23)"
  by (simp only: sign_bit negative_of_def)

lemma top_bit_iff:
  assumes "x < 2 ^ 24"
  shows "odd (x div 2 ^ 23) \<longleftrightarrow> 2 ^ 23 \<le> (x :: nat)"
proof -
  have "x div 2 ^ 23 < 2" using assms by (simp add: div_less_iff_less_mult)
  then have "odd (x div 2 ^ 23) \<longleftrightarrow> 1 \<le> x div 2 ^ 23" by (auto simp: less_2_cases_iff)
  then show ?thesis using less_eq_div_iff_mult_less_eq [of "2 ^ 23" 1 x] by simp
qed

lemma unat_BigToCompact:
  assumes "0 < n" and "num_bytes n \<le> 254"
  shows "unat (BigToCompact (int n)) = compact_exponent n * 2 ^ 24 + scaled n (compact_exponent n)"
proof -
  let ?e = "num_bytes n"
  define m :: u32 where "m = (if ?e \<le> 3 then push_bit (8 * (3 - ?e)) (word_of_int \<bar>int n\<bar>)
                    else word_of_int \<bar>drop_bit (8 * (?e - 3)) (int n)\<bar>)"
  have m: "unat m = scaled n ?e"
    using unat_mantissa_small [OF assms(1)] unat_mantissa_large [OF assms(1)] by (simp add: m_def)
  have top: "(m AND 0x00800000) \<noteq> 0 \<longleftrightarrow> 2 ^ 23 \<le> scaled n ?e"
  proof -
    have "odd (scaled n ?e div 2 ^ 23) \<longleftrightarrow> 2 ^ 23 \<le> scaled n ?e"
      using scaled_num_bytes(2) [OF assms(1)] top_bit_iff by blast
    then show ?thesis by (simp only: sign_mantissa m)
  qed
  define m' where "m' = (if 2 ^ 23 \<le> scaled n ?e then drop_bit 8 m else m)"
  have m': "unat m' = scaled n (compact_exponent n)"
    by (simp add: m'_def compact_exponent_def scaled_Suc unat_drop_bit m)
  have "BigToCompact (int n) = push_bit 24 (of_nat (compact_exponent n)) OR m'"
    using assms(1) top by (simp add: BigToCompact_def Let_def m'_def compact_exponent_def flip: m_def)
  moreover have "unat m' < 2 ^ 24" using compact_exponent_bounds(2) [OF assms(1)] by (simp add: m')
  moreover have "compact_exponent n < 256" using assms(2) by (simp add: compact_exponent_def)
  ultimately show ?thesis by (simp add: unat_push_or m')
qed

section \<open>Properties of the conversions\<close>

lemma little_of_bytes_sum: "little_of_bytes bs = (\<Sum>i<length bs. unat (bs ! i) * 256 ^ i)"
  by (induction bs) (simp_all add: sum.lessThan_Suc_shift sum_distrib_left algebra_simps del: sum.lessThan_Suc)

text \<open>
  \<open>HashToBig\<close> reads the hash as a little-endian number, below \<open>256\<close> to the length of
  the hash, and leaves the caller's hash reversed: the comment speaks of a conversion only,
  but the swaps run on the slice that was passed in.
\<close>

theorem HashToBig_spec:
  "fst (HashToBig hash) = int (\<Sum>i<length hash. unat (hash ! i) * 256 ^ i) \<and>
   0 \<le> fst (HashToBig hash) \<and> fst (HashToBig hash) < 256 ^ length hash \<and>
   snd (HashToBig hash) = rev hash"
proof -
  have "int (little_of_bytes hash) < int (256 ^ length hash)"
    using little_of_bytes_less by (simp only: of_nat_less_iff)
  then show ?thesis by (simp add: HashToBig_eq flip: little_of_bytes_sum)
qed

text \<open>
  C27: Every 32-bit pattern decodes to the documented number: minus one to the sign bit,
  times the 23-bit mantissa, times \<open>256 ^ (exponent - 3)\<close>, rounded towards zero.
\<close>

theorem CompactToBig_spec:
  "CompactToBig c = (if odd (unat c div 2 ^ 23) then - 1 else 1) *
     int (unat c mod 2 ^ 23 * 256 ^ (unat c div 2 ^ 24) div 256 ^ 3)"
  unfolding CompactToBig_fields compact_value_def exponent_of_def negative_of_def mantissa_of_def
  by (simp add: Let_def)

text \<open>A compact form is canonical when it is zero or a normalised exact positive number.\<close>

definition canonical :: "u32 \<Rightarrow> bool" where
  "canonical c \<longleftrightarrow> c = 0 \<or> \<not> negative_of c \<and> 2 ^ 15 \<le> mantissa_of c \<and>
     2 ^ 24 dvd mantissa_of c * 256 ^ exponent_of c"

lemma fields_of_unat:
  assumes "unat c = e * 2 ^ 24 + m" and "m < 2 ^ 23"
  shows "exponent_of c = e" "\<not> negative_of c" "mantissa_of c = m"
proof -
  have split: "unat c = 2 * e * 2 ^ 23 + m" using assms(1) by simp
  have "unat c div 2 ^ 24 = e" using assms by simp
  moreover have "unat c mod 2 ^ 23 = m"
    using assms(2) by (simp only: split mod_mult_self3 mod_less)
  moreover have "unat c div 2 ^ 23 = 2 * e"
    using assms(2) div_mult_self3 [of "2 ^ 23" m "2 * e"] by (simp only: split) simp
  ultimately show "exponent_of c = e" "\<not> negative_of c" "mantissa_of c = m"
    by (simp_all add: exponent_of_def negative_of_def mantissa_of_def)
qed

lemma BigToCompact_0: "BigToCompact 0 = 0"
  by (simp add: BigToCompact_def)

text \<open>Up to here the exponent fits its eight bits (targets stay below \<open>256 ^ 32\<close>).\<close>

definition compact_limit :: nat where
  "compact_limit = 256 ^ 254"

lemma BigToCompact_fields:
  assumes "0 < n" and "n < compact_limit"
  shows "exponent_of (BigToCompact (int n)) = compact_exponent n"
    and "\<not> negative_of (BigToCompact (int n))"
    and "mantissa_of (BigToCompact (int n)) = scaled n (compact_exponent n)"
proof -
  have "num_bytes n \<le> 254" using assms(2) by (simp only: num_bytes_le_iff compact_limit_def)
  note fields_of_unat [OF unat_BigToCompact [OF assms(1) this] compact_exponent_bounds(2) [OF assms(1)]]
  then show "exponent_of (BigToCompact (int n)) = compact_exponent n"
    and "\<not> negative_of (BigToCompact (int n))"
    and "mantissa_of (BigToCompact (int n)) = scaled n (compact_exponent n)" .
qed

text \<open>What decoding gives back after encoding \<open>n\<close>: \<open>n\<close> cut off below the mantissa.\<close>

definition truncated :: "nat \<Rightarrow> nat" where
  "truncated n = scaled n (compact_exponent n) * 256 ^ compact_exponent n div 2 ^ 24"

lemma CompactToBig_BigToCompact:
  assumes "0 < n" and "n < compact_limit"
  shows "CompactToBig (BigToCompact (int n)) = int (truncated n)"
  using BigToCompact_fields [OF assms]
  by (simp add: CompactToBig_fields compact_value_def truncated_def Let_def)

lemma scaled_exact:
  assumes "e \<le> 3"
  shows "scaled n e * 256 ^ e = n * 2 ^ 24"
proof -
  have "(2::nat) ^ 24 = 256 ^ e * 256 ^ (3 - e)" using assms by (simp flip: power_add)
  then have "(256::nat) ^ e dvd n * 2 ^ 24" by (metis dvd_mult dvd_triv_left)
  then show ?thesis by (simp add: scaled_def)
qed

lemma pow24_dvd: "3 \<le> e \<Longrightarrow> (2::nat) ^ 24 dvd 256 ^ e"
proof -
  assume "3 \<le> e"
  then have "(256::nat) ^ 3 dvd 256 ^ e" by (rule le_imp_power_dvd)
  then show ?thesis by simp
qed

lemma truncated_dvd:
  "2 ^ 24 dvd scaled n (compact_exponent n) * 256 ^ compact_exponent n"
proof (cases "compact_exponent n \<le> 3")
  case True
  then show ?thesis by (simp only: scaled_exact) simp
next
  case False
  then show ?thesis by (intro dvd_mult pow24_dvd) simp
qed

lemma truncated_bounds:
  assumes "0 < n"
  shows "truncated n \<le> n" and "2 ^ 15 * (n - truncated n) \<le> n"
proof -
  let ?e = "compact_exponent n"
  let ?p = "scaled n ?e * 256 ^ ?e"
  have t: "truncated n * 2 ^ 24 = ?p" using truncated_dvd by (simp add: truncated_def)
  have le: "?p \<le> n * 2 ^ 24" by (simp only: scaled_def) (rule div_times_less_eq_dividend)
  with t show "truncated n \<le> n" by simp
  have "n * 2 ^ 24 - ?p < 256 ^ ?e"
    unfolding scaled_def by (simp add: minus_div_mult_eq_mod)
  moreover have "2 ^ 15 * 256 ^ ?e \<le> ?p"
    using compact_exponent_bounds(1) [OF assms] by (intro mult_le_mono1)
  ultimately have "2 ^ 15 * (n * 2 ^ 24 - ?p) \<le> n * 2 ^ 24"
    using le by (meson less_imp_le mult_le_mono2 order_trans)
  then have "2 ^ 15 * (n - truncated n) * 2 ^ 24 \<le> n * 2 ^ 24"
    by (simp add: t [symmetric] diff_mult_distrib)
  then show "2 ^ 15 * (n - truncated n) \<le> n" by simp
qed

text \<open>The exponent of the last byte that is kept, and what is cut off below it.\<close>

lemma truncated_mod:
  "truncated n = n - n mod 256 ^ (compact_exponent n - 3)"
proof (cases "compact_exponent n \<le> 3")
  case True
  then show ?thesis by (simp add: truncated_def scaled_exact)
next
  case False
  define k where "k = compact_exponent n - 3"
  with False have e: "compact_exponent n = 3 + k" by simp
  then have "(256::nat) ^ compact_exponent n = 2 ^ 24 * 256 ^ k" by (simp add: power_add)
  then have "truncated n = n div 256 ^ k * 256 ^ k"
    by (simp add: truncated_def scaled_def)
  then show ?thesis by (simp add: k_def minus_mod_eq_div_mult)
qed

lemma compact_exponent_top:
  "compact_exponent n = (if 256 ^ num_bytes n \<le> 2 * n then num_bytes n + 1 else num_bytes n)"
  by (simp add: compact_exponent_def scaled_def less_eq_div_iff_mult_less_eq)

text \<open>
  C26: Encoding a non-negative target cuts it off below its leading bytes: three of them, or two if
  the top bit of the first one is set, which would be the sign. Decoding gives back exactly the number with
  all lower bytes cleared; so it is never above the target, misses it by less than one unit of the
  last byte that is kept, hence by at most one part in \<open>2 ^ 15\<close>; the sign bit of the result is clear.
\<close>

theorem BigToCompact_precision:
  assumes "0 \<le> n" and "n < int compact_limit"
  defines "nbytes \<equiv> num_bytes (nat n)"
  defines "unit \<equiv> 256 ^ ((if 256 ^ nbytes \<le> 2 * n then nbytes + 1 else nbytes) - 3)"
  shows "CompactToBig (BigToCompact n) = n - n mod unit \<and>
    0 \<le> CompactToBig (BigToCompact n) \<and> CompactToBig (BigToCompact n) \<le> n \<and>
    n - CompactToBig (BigToCompact n) < unit \<and>
    2 ^ 15 * (n - CompactToBig (BigToCompact n)) \<le> n \<and> BigToCompact n AND 0x00800000 = 0"
proof (cases "n = 0")
  case True
  then show ?thesis by (simp add: BigToCompact_0 CompactToBig_def unit_def)
next
  case False
  define m where "m = nat n"
  with assms(1,2) False have m: "n = int m" "0 < m" "m < compact_limit" by auto
  have "(256 ^ nbytes \<le> 2 * n) = (256 ^ num_bytes m \<le> 2 * m)"
    unfolding nbytes_def m(1) by (simp flip: of_nat_le_iff [where 'a = int])
  then have unit: "unit = int (256 ^ (compact_exponent m - 3))"
    by (simp add: unit_def compact_exponent_top nbytes_def m(1))
  have "CompactToBig (BigToCompact n) = int (truncated m)"
    using CompactToBig_BigToCompact [OF m(2,3)] by (simp add: m(1))
  also have "\<dots> = n - n mod unit"
    unfolding truncated_mod unit m(1) by (simp add: of_nat_diff zmod_int)
  finally have exact: "CompactToBig (BigToCompact n) = n - n mod unit" .
  have "0 < unit" by (simp add: unit_def)
  then have "n mod unit < unit" "0 \<le> n mod unit" "n mod unit \<le> n" using assms(1) by (simp_all add: zmod_le_nonneg_dividend)
  moreover have "2 ^ 15 * (n - CompactToBig (BigToCompact n)) \<le> n"
  proof -
    have "int (2 ^ 15 * (m - truncated m)) \<le> int m"
      using truncated_bounds(2) [OF m(2)] by (simp only: of_nat_le_iff)
    then show ?thesis
      using truncated_bounds(1) [OF m(2)]
      by (simp add: m(1) CompactToBig_BigToCompact [OF m(2,3)] of_nat_diff)
  qed
  moreover have "BigToCompact n AND 0x00800000 = 0"
    using BigToCompact_fields(2) [OF m(2,3)] sign_bit by (auto simp: m(1))
  ultimately show ?thesis by (simp add: exact)
qed

lemma canonical_BigToCompact:
  assumes "n < compact_limit"
  shows "canonical (BigToCompact (int n))"
proof (cases "n = 0")
  case True
  then show ?thesis by (simp add: canonical_def BigToCompact_0)
next
  case False
  then have "0 < n" by simp
  then show ?thesis
    using BigToCompact_fields [OF _ assms] compact_exponent_bounds(1) truncated_dvd
    by (simp add: canonical_def)
qed

lemma BigToCompact_CompactToBig:
  assumes "canonical c" and "exponent_of c \<le> 254"
  shows "BigToCompact (CompactToBig c) = c"
proof (cases "c = 0")
  case True
  then show ?thesis by (simp add: CompactToBig_def BigToCompact_0)
next
  case False
  let ?e = "exponent_of c" and ?m = "mantissa_of c"
  define v where "v = ?m * 256 ^ ?e div 2 ^ 24"
  have c: "\<not> negative_of c" "2 ^ 15 \<le> ?m" "2 ^ 24 dvd ?m * 256 ^ ?e"
    using assms(1) False by (auto simp: canonical_def)
  then have v: "v * 2 ^ 24 = ?m * 256 ^ ?e" by (simp add: v_def)
  have "0 < ?m * 256 ^ ?e" using c(2) by (intro mult_pos_pos) auto
  then have pos: "0 < v" using v by (metis mult_0 not_gr_zero)
  have "scaled v ?e = ?m" by (simp only: scaled_def v) simp
  then have e: "compact_exponent v = ?e"
    using c(2) mantissa_of_less [of c] by (intro compact_exponent_unique pos) simp_all
  moreover have "num_bytes v \<le> 254" using e assms(2) by (auto simp: compact_exponent_def split: if_splits)
  ultimately have "unat (BigToCompact (int v)) = unat c"
    using unat_BigToCompact [OF pos] compact_fields [of c] c(1) \<open>scaled v ?e = ?m\<close> by simp
  moreover have "CompactToBig c = int v"
    using c(1) by (simp add: CompactToBig_fields compact_value_def v_def Let_def)
  ultimately show ?thesis by (simp add: unsigned_word_eqI)
qed

lemma compact_value_less:
  assumes "exponent_of c \<le> 254"
  shows "nat \<bar>CompactToBig c\<bar> < compact_limit"
proof -
  let ?e = "exponent_of c" and ?m = "mantissa_of c"
  have "?m * 256 ^ ?e < 2 ^ 24 * 256 ^ ?e"
    using mantissa_of_less [of c] by simp
  then have "?m * 256 ^ ?e div 2 ^ 24 < 256 ^ ?e"
    by (simp add: div_less_iff_less_mult mult.commute)
  also have "\<dots> \<le> compact_limit"
    unfolding compact_limit_def using assms by (intro power_increasing) simp_all
  finally show ?thesis
    by (simp add: CompactToBig_fields compact_value_def Let_def del: of_nat_mult of_nat_power)
qed

text \<open>
  C13: The round trip through \<open>CompactToBig\<close> and \<open>BigToCompact\<close> returns a sign-free compact
  form exactly when it is canonical: zero, or a mantissa of at least \<open>2 ^ 15\<close> of which no
  set bit lies below the binary point. What \<open>BigToCompact\<close> produces is canonical.
\<close>

theorem compact_roundtrip:
  assumes "exponent_of c \<le> 254" and "\<not> negative_of c"
  shows "BigToCompact (CompactToBig c) = c \<longleftrightarrow> canonical c"
proof
  assume eq: "BigToCompact (CompactToBig c) = c"
  obtain v where v: "CompactToBig c = int v"
    using assms(2) by (simp add: CompactToBig_fields compact_value_def Let_def)
  then have "v < compact_limit" using compact_value_less [OF assms(1)] by simp
  then show "canonical c" using canonical_BigToCompact [of v] eq by (simp add: v)
next
  assume "canonical c"
  then show "BigToCompact (CompactToBig c) = c"
    using assms(1) by (rule BigToCompact_CompactToBig)
qed

text \<open>
  Encoding is monotone on non-negative numbers, so comparing compact targets as
  unsigned words never orders two targets the wrong way round.
\<close>

theorem BigToCompact_mono:
  assumes "0 \<le> a" and "a \<le> b" and "b < int compact_limit"
  shows "BigToCompact a \<le> BigToCompact b"
proof (cases "a = 0")
  case True
  then show ?thesis by (simp add: BigToCompact_0)
next
  case False
  define m where "m = nat a"
  define n where "n = nat b"
  have mn: "a = int m" "b = int n" "0 < m" "m \<le> n" "n < compact_limit"
    using assms False by (auto simp: m_def n_def)
  then have pos: "0 < n" by simp
  have bytes: "num_bytes n \<le> 254" "num_bytes m \<le> 254"
    using mn by (simp_all only: num_bytes_le_iff compact_limit_def [symmetric])
  let ?e = compact_exponent
  note bounds = compact_exponent_bounds [OF mn(3)] compact_exponent_bounds [OF pos]
  have "?e m \<le> ?e n"
  proof (rule ccontr)
    assume "\<not> ?e m \<le> ?e n"
    then have "scaled n (?e m) \<le> scaled n (Suc (?e n))" by (intro scaled_antimono) simp
    then have "scaled n (?e m) < 2 ^ 15" using bounds(4) by (simp add: scaled_Suc div_less_iff_less_mult)
    then show False using bounds(1) scaled_mono [OF mn(4), of "?e m"] by simp
  qed
  then have "?e m * 2 ^ 24 + scaled m (?e m) \<le> ?e n * 2 ^ 24 + scaled n (?e n)"
    using bounds scaled_mono [OF mn(4), of "?e m"] by (cases "?e m = ?e n") auto
  then have "unat (BigToCompact a) \<le> unat (BigToCompact b)"
    by (simp only: mn(1,2) unat_BigToCompact [OF mn(3) bytes(2)] unat_BigToCompact [OF pos bytes(1)])
  then show ?thesis by (simp add: word_le_nat_alt)
qed

section \<open>The target of the chain, and negative numbers\<close>

text \<open>
  The chain's difficulty \<open>DEFAULT_BITS\<close> stands for the target \<open>0x168 * 256 ^ 28\<close>
  (the number the package's test prints), and encoding that target gives the same bits.
\<close>

theorem DEFAULT_BITS_target:
  "CompactToBig DEFAULT_BITS = 0x168 * 256 ^ 28 \<and> BigToCompact (0x168 * 256 ^ 28) = DEFAULT_BITS"
proof -
  have f: "exponent_of DEFAULT_BITS = 30" "\<not> negative_of DEFAULT_BITS" "mantissa_of DEFAULT_BITS = 0x016800"
    by (simp_all add: exponent_of_def negative_of_def mantissa_of_def DEFAULT_BITS_def)
  have v: "CompactToBig DEFAULT_BITS = 0x168 * 256 ^ 28"
    by (simp add: CompactToBig_fields f compact_value_def)
  have "canonical DEFAULT_BITS" by (simp add: canonical_def f)
  then have "BigToCompact (CompactToBig DEFAULT_BITS) = DEFAULT_BITS"
    by (rule BigToCompact_CompactToBig) (simp add: f)
  then show ?thesis by (simp only: v)
qed

lemma num_bytes_all_ones:
  assumes "0 < k"
  shows "num_bytes (256 ^ k - 1) = k"
proof (rule antisym)
  show "num_bytes (256 ^ k - 1) \<le> k" by (simp add: num_bytes_le_iff)
  obtain j where j: "k = Suc j" using assms gr0_conv_Suc by blast
  have "(256::nat) ^ j \<le> 256 ^ k - 1" using one_le_power [of "256::nat" j] by (simp add: j)
  then have "\<not> num_bytes (256 ^ k - 1) \<le> j" by (simp only: num_bytes_le_iff not_less)
  then show "k \<le> num_bytes (256 ^ k - 1)" by (simp add: j)
qed

lemma drop_bit_all_ones:
  assumes "3 < k"
  shows "drop_bit (8 * (k - 3)) (- int (256 ^ k - 1)) = - (2 ^ 24)"
proof -
  define j where "j = k - 4"
  with assms have k: "k = j + 4" by simp
  have "- int (256 ^ k - 1) = 1 + 256 ^ Suc j * (- (2 ^ 24))"
    by (simp add: k power_add of_nat_diff)
  moreover have "(1::int) div 256 ^ Suc j = 0"
    using one_less_power [of "256::int" "Suc j"] by (intro div_pos_pos_trivial) simp_all
  ultimately have "- int (256 ^ k - 1) div 256 ^ Suc j = - (2 ^ 24)"
    using div_mult_self2 [of "256 ^ Suc j :: int" 1 "- (2 ^ 24)"] by (simp only:) simp
  moreover have "(2::int) ^ (8 * (k - 3)) = 256 ^ Suc j" by (simp add: k power_add power_mult)
  ultimately show ?thesis by (simp only: drop_bit_eq_div)
qed

lemma BigToCompact_overflow:
  assumes "n < 0" and "num_bytes (nat \<bar>n\<bar>) = k" and "3 < k"
    and "drop_bit (8 * (k - 3)) n = - (2 ^ 24)"
  shows "BigToCompact n = push_bit 24 (of_nat k) OR 0x1000000 OR 0x00800000"
  using assms by (simp add: BigToCompact_def Let_def or.assoc)

text \<open>
  Negative numbers are shifted with rounding towards minus infinity, so a negative
  number whose bytes are all ones gets the mantissa \<open>2 ^ 24\<close>, which overflows into the
  exponent field: for every length from 4 to 254 bytes the encoding decodes to zero.
\<close>

theorem BigToCompact_negative_overflow:
  assumes "3 < k" and "k \<le> 254"
  shows "CompactToBig (BigToCompact (- int (256 ^ k - 1))) = 0"
proof -
  let ?n = "- int (256 ^ k - 1)"
  have neg: "?n < 0" using assms(1) one_less_power [of "256::int" k] by (simp add: of_nat_diff)
  have "nat \<bar>?n\<bar> = 256 ^ k - 1" by (simp only: abs_minus_cancel abs_of_nat nat_int)
  then have e: "num_bytes (nat \<bar>?n\<bar>) = k" using num_bytes_all_ones [of k] assms(1) by simp
  have "BigToCompact ?n = push_bit 24 (of_nat k) OR 0x1000000 OR 0x00800000"
    using neg e assms(1) drop_bit_all_ones [OF assms(1)] by (rule BigToCompact_overflow)
  moreover have "take_bit 23 (push_bit 24 (of_nat k) OR 0x1000000 OR 0x00800000 :: u32) = 0"
    by (simp add: take_bit_or take_bit_push_bit)
  ultimately have "mantissa_of (BigToCompact ?n) = 0"
    by (metis take_bit_eq_mod unsigned_0 unsigned_take_bit_eq mantissa_of_def)
  then show ?thesis by (simp add: CompactToBig_fields compact_value_def)
qed

section \<open>Witnesses\<close>

theorem BigToCompact_precision_witness:
  "CompactToBig (BigToCompact 0x81234567) = 0x81230000 \<and> CompactToBig (BigToCompact 0x71234567) = 0x71234500"
proof -
  have size: "num_bytes 0x81234567 = 4" "num_bytes 0x71234567 = 4" by (simp_all add: num_bytes.simps)
  have limit: "(n :: int) < int compact_limit" if "n < 2 ^ 32" for n
  proof -
    have "(2::nat) ^ 32 = 256 ^ 4" by simp
    also have "\<dots> \<le> 256 ^ 254" by (rule power_increasing) simp_all
    finally have "(2::int) ^ 32 \<le> int compact_limit" unfolding compact_limit_def by (metis of_nat_le_iff of_nat_numeral of_nat_power)
    with that show ?thesis by simp
  qed
  have "CompactToBig (BigToCompact 0x81234567) = 0x81230000"
    using BigToCompact_precision [of "0x81234567"] limit [of "0x81234567"] size by simp
  moreover have "CompactToBig (BigToCompact 0x71234567) = 0x71234500"
    using BigToCompact_precision [of "0x71234567"] limit [of "0x71234567"] size by simp
  ultimately show ?thesis by blast
qed

theorem compact_roundtrip_witness:
  "(BigToCompact (CompactToBig DEFAULT_BITS) = DEFAULT_BITS) = canonical DEFAULT_BITS"
proof -
  have "exponent_of DEFAULT_BITS \<le> 254" "\<not> negative_of DEFAULT_BITS"
    by (simp_all add: exponent_of_def negative_of_def DEFAULT_BITS_def)
  then show ?thesis by (rule compact_roundtrip)
qed

theorem BigToCompact_mono_witness: "BigToCompact 255 \<le> BigToCompact 256"
proof -
  have "(0::int) \<le> 255" "(255::int) \<le> 256" "256 < int compact_limit" by (simp_all add: compact_limit_def)
  then show ?thesis by (rule BigToCompact_mono)
qed

theorem BigToCompact_negative_overflow_witness:
  "CompactToBig (BigToCompact (- int (256 ^ 4 - 1))) = 0"
  by (rule BigToCompact_negative_overflow) simp_all

end
