(* ===== verification/Encoding.thy ===== *)
theory Encoding
  imports Words
begin

text \<open>
  blockchain/common.go: the serializer of primitive values and its free list of buffers.

  A slice of an 8-byte buffer is the record \<open>buf\<close>: the array from the slice's start to its
  capacity, and the slice's length. The free list is the buffered channel
  \<open>binarySerializer\<close>, a queue of such slices with room for \<open>binaryFreeListMaxItems\<close>. The
  writer (\<open>io.Writer\<close>) is an interface, so its \<open>Write\<close> method is an argument of the
  writers; a reader is the list of the bytes that are left to read. The state of a
  serializer call is the pair of the free list and the writer or reader.
\<close>

section \<open>Buffers and the free list\<close>

record buf =
  buf_array :: bytes
  buf_len :: nat

type_synonym binaryFreeList = "buf list"

definition binaryFreeListMaxItems :: nat where
  "binaryFreeListMaxItems = 1024"

definition make_buf :: "nat \<Rightarrow> buf" where
  "make_buf n = \<lparr>buf_array = replicate n 0, buf_len = n\<rparr>"

definition buf_bytes :: "buf \<Rightarrow> bytes" where
  "buf_bytes b = take (buf_len b) (buf_array b)"

text \<open>\<open>b[:n]\<close>: reslicing reaches up to the capacity and panics beyond it.\<close>

definition reslice :: "buf \<Rightarrow> nat \<Rightarrow> ('s, buf) prog" where
  "reslice b n = (if n \<le> length (buf_array b) then ret (b\<lparr>buf_len := n\<rparr>) else panics SliceBounds)"

text \<open>Overwriting the front of the buffer leaves the rest of the array as it was.\<close>

definition fill :: "bytes \<Rightarrow> buf \<Rightarrow> buf" where
  "fill bs b = b\<lparr>buf_array := bs @ drop (length bs) (buf_array b)\<rparr>"

definition Borrow :: "(binaryFreeList \<times> 'w, buf) prog" where
  "Borrow = (\<lambda>(l, w). case l of
       [] \<Rightarrow> reslice (make_buf 8) 8 ([], w)
     | b # l' \<Rightarrow> reslice b 8 (l', w))"

definition Return :: "buf \<Rightarrow> (binaryFreeList \<times> 'w, unit) prog" where
  "Return b = modifies (\<lambda>(l, w). if length l < binaryFreeListMaxItems then (l @ [b], w) else (l, w))"

section \<open>Reading\<close>

text \<open>
  \<open>io.ReadFull\<close> fills the slice or fails: with \<open>EOF\<close> when nothing was read, with
  \<open>ErrUnexpectedEOF\<close> when the reader ended early, having consumed what there was.
\<close>

definition readFull :: "buf \<Rightarrow> (binaryFreeList \<times> bytes, go_error option \<times> buf) prog" where
  "readFull b = (\<lambda>(l, r).
     let n = buf_len b; got = take n r in
     if length got = n then Returns (None, fill got b) (l, drop n r)
     else Returns (Some (if got = [] then ''EOF'' else ''unexpected EOF''), fill got b) (l, []))"

definition read_fixed :: "nat \<Rightarrow> (bytes \<Rightarrow> 'a) \<Rightarrow> (binaryFreeList \<times> bytes, 'a result) prog" where
  "read_fixed n decode =
     bnd Borrow (\<lambda>b0. bnd (reslice b0 n) (\<lambda>b. bnd (readFull b) (\<lambda>(err, b).
       seqp (Return b)
        (case err of Some e \<Rightarrow> ret (Inl e) | None \<Rightarrow> ret (Inr (decode (buf_bytes b)))))))"

definition Uint8 :: "(binaryFreeList \<times> bytes, u8 result) prog" where
  "Uint8 = read_fixed 1 (\<lambda>bs. bs ! 0)"

definition Uint16 :: "byteOrder \<Rightarrow> (binaryFreeList \<times> bytes, u16 result) prog" where
  "Uint16 ord = read_fixed 2 (get_order ord)"

definition Uint32 :: "byteOrder \<Rightarrow> (binaryFreeList \<times> bytes, u32 result) prog" where
  "Uint32 ord = read_fixed 4 (get_order ord)"

definition Uint64 :: "byteOrder \<Rightarrow> (binaryFreeList \<times> bytes, u64 result) prog" where
  "Uint64 ord = read_fixed 8 (get_order ord)"

section \<open>Writing\<close>

text \<open>\<open>Write\<close> of an \<open>io.Writer\<close>: the new writer and the error, if any.\<close>

type_synonym 'w writer = "'w \<Rightarrow> bytes \<Rightarrow> go_error option \<times> 'w"

definition emit :: "'w writer \<Rightarrow> bytes \<Rightarrow> (binaryFreeList \<times> 'w, go_error option) prog" where
  "emit wr bs = (\<lambda>(l, w). let (err, w') = wr w bs in Returns err (l, w'))"

definition write_fixed :: "'w writer \<Rightarrow> nat \<Rightarrow> bytes \<Rightarrow> (binaryFreeList \<times> 'w, go_error option) prog" where
  "write_fixed wr n bs =
     bnd Borrow (\<lambda>b0. bnd (reslice b0 n) (\<lambda>b.
       let b = fill bs b in
       bnd (emit wr (buf_bytes b)) (\<lambda>err. seqp (Return b) (ret err))))"

definition PutUint8 :: "'w writer \<Rightarrow> u8 \<Rightarrow> (binaryFreeList \<times> 'w, go_error option) prog" where
  "PutUint8 wr val = write_fixed wr 1 [val]"

definition PutUint16 :: "'w writer \<Rightarrow> byteOrder \<Rightarrow> u16 \<Rightarrow> (binaryFreeList \<times> 'w, go_error option) prog" where
  "PutUint16 wr ord val = write_fixed wr 2 (put_order ord 2 val)"

definition PutUint32 :: "'w writer \<Rightarrow> byteOrder \<Rightarrow> u32 \<Rightarrow> (binaryFreeList \<times> 'w, go_error option) prog" where
  "PutUint32 wr ord val = write_fixed wr 4 (put_order ord 4 val)"

definition PutUint64 :: "'w writer \<Rightarrow> byteOrder \<Rightarrow> u64 \<Rightarrow> (binaryFreeList \<times> 'w, go_error option) prog" where
  "PutUint64 wr ord val = write_fixed wr 8 (put_order ord 8 val)"

text \<open>
  The dynamic types that \<open>writeElement\<close> switches on. \<open>ElemOther\<close> stands for every other
  type, with what \<open>encoding/binary\<close> makes of it: its little-endian bytes when the type
  has a fixed size, nothing (an error) otherwise.
\<close>

datatype element =
    ElemInt32 u32
  | ElemUint32 u32
  | ElemInt64 u64
  | ElemUint64 u64
  | ElemBool bool
  | ElemBytes bytes
  | ElemHash bytes
  | ElemOther "bytes option"

fun writeElement :: "'w writer \<Rightarrow> element \<Rightarrow> (binaryFreeList \<times> 'w, go_error option) prog" where
  "writeElement wr (ElemInt32 e) = PutUint32 wr LittleEndian e"
| "writeElement wr (ElemUint32 e) = PutUint32 wr LittleEndian e"
| "writeElement wr (ElemInt64 e) = PutUint64 wr LittleEndian (ucast (ucast e :: u32))"
| "writeElement wr (ElemUint64 e) = PutUint64 wr LittleEndian e"
| "writeElement wr (ElemBool e) = (if e then PutUint8 wr 1 else PutUint8 wr 0)"
| "writeElement wr (ElemBytes e) = emit wr e"
| "writeElement wr (ElemHash e) = emit wr e"
| "writeElement wr (ElemOther None) = ret (Some ''binary.Write: invalid type'')"
| "writeElement wr (ElemOther (Some bs)) = emit wr bs"

fun writeElements :: "'w writer \<Rightarrow> element list \<Rightarrow> (binaryFreeList \<times> 'w, go_error option) prog" where
  "writeElements wr [] = ret None"
| "writeElements wr (e # es) =
     bnd (writeElement wr e) (\<lambda>err. case err of Some x \<Rightarrow> ret (Some x) | None \<Rightarrow> writeElements wr es)"

section \<open>The free list never shows\<close>

text \<open>
  The free list only ever holds whole 8-byte buffers, and no more than its channel takes.
  Under this invariant borrowing cannot panic, and what the readers and writers do to the
  stream does not depend on which stale buffer they got.
\<close>

definition freelist_ok :: "binaryFreeList \<Rightarrow> bool" where
  "freelist_ok l \<longleftrightarrow> length l \<le> binaryFreeListMaxItems \<and> (\<forall>b\<in>set l. length (buf_array b) = 8)"

lemma freelist_ok_Nil [simp]: "freelist_ok []"
  by (simp add: freelist_ok_def)

lemma length_fill [simp]:
  "length bs \<le> length (buf_array b) \<Longrightarrow> length (buf_array (fill bs b)) = length (buf_array b)"
  by (simp add: fill_def)

lemma buf_bytes_fill:
  "length bs = buf_len b \<Longrightarrow> buf_bytes (fill bs b) = bs"
  by (simp add: buf_bytes_def fill_def)

lemma Borrow_returns:
  assumes "freelist_ok l"
  shows "\<exists>b l'. Borrow (l, w) = Returns b (l', w) \<and> length (buf_array b) = 8 \<and>
           freelist_ok l' \<and> length l' < binaryFreeListMaxItems"
  using assms
  by (cases l) (auto simp: Borrow_def reslice_def make_buf_def prog_simps freelist_ok_def binaryFreeListMaxItems_def)

lemma Return_returns:
  assumes "freelist_ok l" "length (buf_array b) = 8"
  shows "\<exists>l'. Return b (l, w) = Returns () (l', w) \<and> freelist_ok l'"
  using assms by (auto simp: Return_def prog_simps freelist_ok_def)

lemma write_fixed_returns:
  assumes "freelist_ok l" and "length bs = n" and "n \<le> 8"
  shows "\<exists>l'. write_fixed wr n bs (l, w) = Returns (fst (wr w bs)) (l', snd (wr w bs)) \<and> freelist_ok l'"
proof -
  obtain b l1 where b: "Borrow (l, w) = Returns b (l1, w)" "length (buf_array b) = 8" "freelist_ok l1"
    using Borrow_returns [OF assms(1), of w] by blast
  let ?b = "fill bs (b\<lparr>buf_len := n\<rparr>)"
  have bb: "buf_bytes ?b = bs" "length (buf_array ?b) = 8"
    using assms b(2) by (simp_all add: buf_bytes_fill)
  obtain l2 where l2: "Return ?b (l1, snd (wr w bs)) = Returns () (l2, snd (wr w bs))" "freelist_ok l2"
    using Return_returns [OF b(3) bb(2), of "snd (wr w bs)"] by blast
  have "write_fixed wr n bs (l, w) = Returns (fst (wr w bs)) (l2, snd (wr w bs))"
    using assms(3) b(2) l2
    by (simp add: write_fixed_def prog_simps b(1) reslice_def bb(1) emit_def Let_def case_prod_unfold)
  with l2 show ?thesis by blast
qed

lemma read_fixed_returns:
  assumes "freelist_ok l" and "n \<le> 8"
  shows "\<exists>l'. freelist_ok l' \<and> read_fixed n decode (l, r) =
    (if n \<le> length r then Returns (Inr (decode (take n r))) (l', drop n r)
     else Returns (Inl (if r = [] then ''EOF'' else ''unexpected EOF'')) (l', []))"
proof -
  obtain b l1 where b: "Borrow (l, r) = Returns b (l1, r)" "length (buf_array b) = 8" "freelist_ok l1"
    using Borrow_returns [OF assms(1), of r] by blast
  let ?b = "fill (take n r) (b\<lparr>buf_len := n\<rparr>)" and ?r = "if n \<le> length r then drop n r else []"
  have "length (buf_array ?b) = 8" using assms(2) b(2) by simp
  then obtain l2 where l2: "Return ?b (l1, ?r) = Returns () (l2, ?r)" "freelist_ok l2"
    using Return_returns [OF b(3), of ?b ?r] by blast
  have "n \<le> length r \<Longrightarrow> buf_bytes ?b = take n r"
    using assms(2) b(2) by (simp add: buf_bytes_fill)
  moreover have "min (length r) n = n \<longleftrightarrow> n \<le> length r" by auto
  ultimately have "read_fixed n decode (l, r) =
    (if n \<le> length r then Returns (Inr (decode (take n r))) (l2, drop n r)
     else Returns (Inl (if r = [] then ''EOF'' else ''unexpected EOF'')) (l2, []))"
    using assms(2) b(2) l2
    by (auto simp: read_fixed_def prog_simps b(1) reslice_def readFull_def Let_def split: if_splits)
  with l2(2) show ?thesis by blast
qed

section \<open>What the serializer writes\<close>

text \<open>
  The reference: the bytes of an element, and the elements written one after the other
  until the writer (or an element that cannot be encoded) fails. No buffers, no free list.
\<close>

fun encode :: "element \<Rightarrow> bytes option" where
  "encode (ElemInt32 e) = Some (le_bytes 4 e)"
| "encode (ElemUint32 e) = Some (le_bytes 4 e)"
| "encode (ElemInt64 e) = Some (le_bytes 8 (ucast (ucast e :: u32) :: u64))"
| "encode (ElemUint64 e) = Some (le_bytes 8 e)"
| "encode (ElemBool e) = Some [if e then 1 else 0]"
| "encode (ElemBytes e) = Some e"
| "encode (ElemHash e) = Some e"
| "encode (ElemOther b) = b"

fun write_pure :: "'w writer \<Rightarrow> element list \<Rightarrow> 'w \<Rightarrow> go_error option \<times> 'w" where
  "write_pure wr [] w = (None, w)"
| "write_pure wr (e # es) w =
     (case encode e of
        None \<Rightarrow> (Some ''binary.Write: invalid type'', w)
      | Some bs \<Rightarrow> (case wr w bs of (Some x, w') \<Rightarrow> (Some x, w') | (None, w') \<Rightarrow> write_pure wr es w'))"

lemmas put_defs = PutUint8_def PutUint16_def PutUint32_def PutUint64_def
lemmas get_defs = Uint8_def Uint16_def Uint32_def Uint64_def

lemma emit_eval: "emit wr bs (l, w) = Returns (fst (wr w bs)) (l, snd (wr w bs))"
  by (simp add: emit_def case_prod_unfold Let_def)

lemma writeElement_encode:
  assumes "freelist_ok l" and "encode e = Some bs"
  shows "\<exists>l'. freelist_ok l' \<and>
           writeElement wr e (l, w) = Returns (fst (wr w bs)) (l', snd (wr w bs))"
proof -
  have fixed: "\<exists>l'. freelist_ok l' \<and>
      write_fixed wr n xs (l, w) = Returns (fst (wr w xs)) (l', snd (wr w xs))"
    if "length xs = n" "n \<le> 8" for n xs
    using write_fixed_returns [OF assms(1) that, of wr w] by blast
  show ?thesis
    using assms by (cases e) (auto simp: put_defs emit_eval intro!: fixed split: if_splits)
qed

lemma writeElements_write_pure:
  assumes "freelist_ok l"
  shows "\<exists>l'. freelist_ok l' \<and>
    writeElements wr es (l, w) = Returns (fst (write_pure wr es w)) (l', snd (write_pure wr es w))"
  using assms
proof (induction es arbitrary: l w)
  case Nil
  then show ?case by (auto simp: prog_simps)
next
  case (Cons e es)
  show ?case
  proof (cases "encode e")
    case None
    then obtain "e = ElemOther None" by (cases e) auto
    with Cons.prems show ?thesis by (auto simp: prog_simps)
  next
    case (Some bs)
    obtain l1 where l1: "freelist_ok l1"
      "writeElement wr e (l, w) = Returns (fst (wr w bs)) (l1, snd (wr w bs))"
      using writeElement_encode [OF Cons.prems Some, of wr w] by blast
    obtain err w1 where w1: "wr w bs = (err, w1)" by (cases "wr w bs")
    show ?thesis
    proof (cases err)
      case None
      obtain l2 where "freelist_ok l2"
        "writeElements wr es (l1, w1) = Returns (fst (write_pure wr es w1)) (l2, snd (write_pure wr es w1))"
        using Cons.IH [OF l1(1), of w1] by blast
      with l1 Some w1 None show ?thesis by (auto simp: prog_simps)
    next
      case (Some x)
      with l1 \<open>encode e = Some bs\<close> w1 show ?thesis by (auto simp: prog_simps)
    qed
  qed
qed

section \<open>Writers that accept everything\<close>

text \<open>
  \<open>bytes.Buffer\<close> and \<open>hash.Hash\<close> document that their \<open>Write\<close> never fails and appends
  to what they hold. What a client of such a writer gets is proved from this contract.
\<close>

locale byte_sink =
  fixes wr :: "'w writer" and contents :: "'w \<Rightarrow> bytes"
  assumes accepts: "fst (wr w bs) = None"
    and appends: "contents (snd (wr w bs)) = contents w @ bs"
begin

lemma write_pure_contents:
  "fst (write_pure wr es w) = None \<longleftrightarrow> (\<forall>e\<in>set es. encode e \<noteq> None)"
  "contents (snd (write_pure wr es w)) =
     contents w @ concat (map (\<lambda>e. the (encode e)) (takeWhile (\<lambda>e. encode e \<noteq> None) es))"
  by (induction es arbitrary: w)
    (auto simp: case_prod_unfold accepts appends split: option.split)

lemma writeElements_contents:
  assumes "freelist_ok l" and "\<forall>e\<in>set es. encode e \<noteq> None"
  shows "\<exists>l' w'. writeElements wr es (l, w) = Returns None (l', w') \<and> freelist_ok l' \<and>
           contents w' = contents w @ concat (map (\<lambda>e. the (encode e)) es)"
proof -
  have "takeWhile (\<lambda>e. encode e \<noteq> None) es = es"
    using assms(2) by (simp add: takeWhile_eq_all_conv)
  with write_pure_contents [of es w] writeElements_write_pure [OF assms(1), of wr es w] assms(2)
  show ?thesis by (auto simp del: not_None_eq)
qed

end

definition buffer_write :: "bytes writer" where
  "buffer_write w bs = (None, w @ bs)"

interpretation buffer: byte_sink buffer_write "\<lambda>w. w"
  by unfold_locales (simp_all add: buffer_write_def)

section \<open>Properties\<close>

text \<open>
  C25: For every writer, list of elements and free list of whole buffers, \<open>writeElements\<close>
  returns (it neither panics nor blocks) and does exactly what writing the elements'
  encodings one after the other up to the first failure does: the recycled buffers, with
  whatever stale bytes they hold, never reach the stream, and the free list stays sound.
\<close>

theorem writeElements_refines:
  assumes "freelist_ok l"
  shows "\<exists>l'. freelist_ok l' \<and>
    writeElements wr es (l, w) = Returns (fst (write_pure wr es w)) (l', snd (write_pure wr es w))"
  using assms by (rule writeElements_write_pure)

theorem writeElements_refines_witness:
  "freelist_ok [\<lparr>buf_array = replicate 8 7, buf_len = 3\<rparr>] \<and>
   (\<exists>l'. freelist_ok l' \<and>
     writeElements buffer_write [ElemUint32 0x01020304, ElemBool True] ([\<lparr>buf_array = replicate 8 7, buf_len = 3\<rparr>], [])
       = Returns None (l', [4, 3, 2, 1, 1]))"
proof -
  have ok: "freelist_ok [\<lparr>buf_array = replicate 8 7, buf_len = 3\<rparr>]"
    by (simp add: freelist_ok_def binaryFreeListMaxItems_def)
  have "write_pure buffer_write [ElemUint32 0x01020304, ElemBool True] [] = (None, [4, 3, 2, 1, 1])"
    by (simp add: buffer_write_def le_bytes_4)
  with ok writeElements_refines [OF ok, of buffer_write "[ElemUint32 0x01020304, ElemBool True]" "[]"]
  show ?thesis by simp
qed

lemma put_get_roundtrip:
  assumes "freelist_ok l" and "LENGTH('a::len) = 8 * n" and "n \<le> 8"
  shows "\<exists>l1 l2. write_fixed buffer_write n (put_order ord n (v :: 'a word)) (l, w) =
             Returns None (l1, w @ put_order ord n v) \<and>
           read_fixed n (get_order ord) (l1, put_order ord n v @ rest) = Returns (Inr v) (l2, rest) \<and>
           freelist_ok l2"
proof -
  obtain l1 where l1: "freelist_ok l1"
    "write_fixed buffer_write n (put_order ord n v) (l, w) = Returns None (l1, w @ put_order ord n v)"
    using write_fixed_returns [OF assms(1) length_put_order assms(3), of buffer_write ord v w]
    by (auto simp: buffer_write_def)
  obtain l2 where "freelist_ok l2"
    "read_fixed n (get_order ord) (l1, put_order ord n v @ rest) = Returns (Inr v) (l2, rest)"
    using read_fixed_returns [OF l1(1) assms(3), of "get_order ord :: bytes \<Rightarrow> 'a word" "put_order ord n v @ rest"]
    by (auto simp: get_order_put_order [OF assms(2)])
  with l1 show ?thesis by blast
qed

text \<open>
  Reading undoes writing. In either byte order, what \<open>PutUint16\<close>, \<open>PutUint32\<close> and
  \<open>PutUint64\<close> append to a buffer, \<open>Uint16\<close>, \<open>Uint32\<close> and \<open>Uint64\<close> read back as the
  same value, consuming exactly those bytes, whatever the free list held.
\<close>

theorem put_get_uint:
  assumes "freelist_ok l"
  shows "(\<exists>l1 bs l2. PutUint16 buffer_write ord a (l, w) = Returns None (l1, w @ bs) \<and>
            Uint16 ord (l1, bs @ rest) = Returns (Inr a) (l2, rest) \<and> freelist_ok l2) \<and>
         (\<exists>l1 bs l2. PutUint32 buffer_write ord b (l, w) = Returns None (l1, w @ bs) \<and>
            Uint32 ord (l1, bs @ rest) = Returns (Inr b) (l2, rest) \<and> freelist_ok l2) \<and>
         (\<exists>l1 bs l2. PutUint64 buffer_write ord c (l, w) = Returns None (l1, w @ bs) \<and>
            Uint64 ord (l1, bs @ rest) = Returns (Inr c) (l2, rest) \<and> freelist_ok l2)"
proof -
  note rt = put_get_roundtrip [OF assms, where w = w and ord = ord and rest = rest]
  show ?thesis
    unfolding put_defs get_defs
    using rt [where n = 2 and v = a] rt [where n = 4 and v = b] rt [where n = 8 and v = c]
    by simp blast
qed

theorem put_get_uint_witness:
  "freelist_ok [] \<and>
   (\<exists>l1 bs l2. PutUint32 buffer_write BigEndian 0xCAFE ([], [9]) = Returns None (l1, [9] @ bs) \<and>
      Uint32 BigEndian (l1, bs @ [1, 2]) = Returns (Inr 0xCAFE) (l2, [1, 2]))"
  using put_get_uint [OF freelist_ok_Nil, where ord = BigEndian and w = "[9]" and rest = "[1, 2]" and a = 0 and b = "0xCAFE" and c = 0] by auto

text \<open>
  The \<open>int64\<close> case of \<open>writeElement\<close> converts through \<open>uint32\<close>. The eight bytes it
  writes read back as the value modulo \<open>2 ^ 32\<close>, so an \<open>int64\<close> survives serialization
  exactly when it fits in 32 unsigned bits; a negative one never does.
\<close>

theorem writeElement_int64_truncates:
  assumes "freelist_ok l"
  shows "\<exists>l1 bs l2 v. writeElement buffer_write (ElemInt64 e) (l, w) = Returns None (l1, w @ bs) \<and>
    Uint64 LittleEndian (l1, bs @ rest) = Returns (Inr v) (l2, rest) \<and>
    unat v = unat e mod 2 ^ 32 \<and> (v = e \<longleftrightarrow> unat e < 2 ^ 32) \<and> (sint e < 0 \<longrightarrow> v \<noteq> e)"
proof -
  let ?v = "ucast (ucast e :: u32) :: u64"
  have mod: "unat ?v = unat e mod 2 ^ 32"
  proof -
    have "unat ?v = take_bit 32 (unat e)"
      by (simp add: unsigned_ucast_eq unsigned_take_bit_eq)
    then show ?thesis by (simp add: take_bit_eq_mod)
  qed
  then have iff: "?v = e \<longleftrightarrow> unat e < 2 ^ 32"
    by (metis mod_less mod_less_divisor unsigned_word_eqI zero_less_numeral zero_less_power)
  have neg: "?v \<noteq> e" if "sint e < 0"
  proof
    assume "?v = e"
    moreover have "bit e 63"
      using that by (simp add: sint_uint signed_take_bit_negative_iff bit_uint_iff)
    moreover have "\<not> bit ?v 63"
      using bit_imp_le_length [of "ucast e :: u32" 63] by (auto simp: bit_ucast_iff)
    ultimately show False by simp
  qed
  show ?thesis
    using put_get_roundtrip [OF assms, where w = w and ord = LittleEndian and rest = rest and n = 8 and v = ?v] mod iff neg
    by (simp add: put_defs get_defs) blast
qed

end
