(* ===== verification/Sha256.thy ===== *)
theory Sha256
  imports Words
begin

text \<open>
  The standard library's \<open>crypto/sha256\<close> (FIPS 180-4), which the code's block hashes are
  made with: \<open>hash := sha256.New()\<close>, a number of \<open>hash.Write\<close>s and \<open>hash.Sum(nil)\<close> give
  \<open>sha256\<close> of the concatenation of what was written. The contract the rest of the
  development uses, a digest of \<open>HashSize\<close> bytes, is the locale \<open>digest\<close>.
\<close>

section \<open>The interface\<close>

locale digest =
  fixes h :: "bytes \<Rightarrow> bytes" and size :: nat
  assumes digest_length: "length (h bs) = size"
begin

lemma digest_value_less: "little_of_bytes (h bs) < 256 ^ size"
  using little_of_bytes_less [of "h bs"] by (simp add: digest_length)

lemma digest_not_Nil: "0 < size \<Longrightarrow> h bs \<noteq> []"
  using digest_length [of bs] by auto

end

section \<open>The compression function\<close>

text \<open>The standard's constants, in decimal: the fractional parts of the cube roots and the square
  roots of the first primes, 32 bits of each.\<close>

definition sha_K :: "u32 list" where
  "sha_K =
    [1116352408, 1899447441, 3049323471, 3921009573, 961987163, 1508970993, 2453635748, 2870763221,
     3624381080, 310598401, 607225278, 1426881987, 1925078388, 2162078206, 2614888103, 3248222580,
     3835390401, 4022224774, 264347078, 604807628, 770255983, 1249150122, 1555081692, 1996064986,
     2554220882, 2821834349, 2952996808, 3210313671, 3336571891, 3584528711, 113926993, 338241895,
     666307205, 773529912, 1294757372, 1396182291, 1695183700, 1986661051, 2177026350, 2456956037,
     2730485921, 2820302411, 3259730800, 3345764771, 3516065817, 3600352804, 4094571909, 275423344,
     430227734, 506948616, 659060556, 883997877, 958139571, 1322822218, 1537002063, 1747873779,
     1955562222, 2024104815, 2227730452, 2361852424, 2428436474, 2756734187, 3204031479, 3329325298]"

type_synonym sha_state = "u32 \<times> u32 \<times> u32 \<times> u32 \<times> u32 \<times> u32 \<times> u32 \<times> u32"

definition sha_init :: sha_state where
  "sha_init =
    (1779033703, 3144134277, 1013904242, 2773480762, 1359893119, 2600822924, 528734635, 1541459225)"

definition sha_s0 :: "u32 \<Rightarrow> u32" where
  "sha_s0 x = word_rotr 7 x XOR word_rotr 18 x XOR drop_bit 3 x"

definition sha_s1 :: "u32 \<Rightarrow> u32" where
  "sha_s1 x = word_rotr 17 x XOR word_rotr 19 x XOR drop_bit 10 x"

definition sha_S0 :: "u32 \<Rightarrow> u32" where
  "sha_S0 x = word_rotr 2 x XOR word_rotr 13 x XOR word_rotr 22 x"

definition sha_S1 :: "u32 \<Rightarrow> u32" where
  "sha_S1 x = word_rotr 6 x XOR word_rotr 11 x XOR word_rotr 25 x"

text \<open>The message schedule: 16 words read from the block, then 48 more, newest last.\<close>

definition sha_extend :: "u32 list \<Rightarrow> u32 list" where
  "sha_extend w =
     (let n = length w in
      w @ [sha_s1 (w ! (n - 2)) + w ! (n - 7) + sha_s0 (w ! (n - 15)) + w ! (n - 16)])"

definition sha_schedule :: "bytes \<Rightarrow> u32 list" where
  "sha_schedule block =
     (sha_extend ^^ 48) (map (\<lambda>i. get_order BigEndian (take 4 (drop (4 * i) block))) [0..<16])"

fun sha_round :: "sha_state \<Rightarrow> u32 \<times> u32 \<Rightarrow> sha_state" where
  "sha_round (a, b, c, d, e, f, g, h) (k, w) =
     (let t1 = h + sha_S1 e + ((e AND f) XOR (NOT e AND g)) + k + w;
          t2 = sha_S0 a + ((a AND b) XOR (a AND c) XOR (b AND c))
      in (t1 + t2, a, b, c, d + t1, e, f, g))"

fun sha_add :: "sha_state \<Rightarrow> sha_state \<Rightarrow> sha_state" where
  "sha_add (a, b, c, d, e, f, g, h) (a', b', c', d', e', f', g', h') =
     (a + a', b + b', c + c', d + d', e + e', f + f', g + g', h + h')"

definition sha_compress :: "sha_state \<Rightarrow> bytes \<Rightarrow> sha_state" where
  "sha_compress s block = sha_add s (foldl sha_round s (zip sha_K (sha_schedule block)))"

section \<open>Padding and the digest\<close>

definition sha_pad :: "bytes \<Rightarrow> bytes" where
  "sha_pad msg =
     (let n = length msg; z = (119 - n mod 64) mod 64
      in msg @ [0x80] @ replicate z 0 @ put_order BigEndian 8 (of_nat (8 * n) :: u64))"

function sha_blocks :: "sha_state \<Rightarrow> bytes \<Rightarrow> sha_state" where
  "sha_blocks s bs = (if bs = [] then s else sha_blocks (sha_compress s (take 64 bs)) (drop 64 bs))"
  by pat_completeness auto
termination
  by (relation "measure (\<lambda>(s, bs). length bs)") auto

declare sha_blocks.simps [simp del]

fun sha_output :: "sha_state \<Rightarrow> bytes" where
  "sha_output (a, b, c, d, e, f, g, h) = concat (map (put_order BigEndian 4) [a, b, c, d, e, f, g, h])"

definition sha256 :: "bytes \<Rightarrow> bytes" where
  "sha256 msg = sha_output (sha_blocks sha_init (sha_pad msg))"

lemma length_sha_output: "length (sha_output s) = 32"
  by (cases s rule: sha_output.cases) simp

lemma length_sha256 [simp]: "length (sha256 msg) = 32"
  by (simp add: sha256_def length_sha_output)

interpretation sha: digest sha256 32
  by unfold_locales simp

text \<open>The padded message is a whole number of 64-byte blocks.\<close>

lemma sha_pad_blocks: "64 dvd length (sha_pad msg)"
proof -
  define q where "q = length msg div 64"
  define r where "r = length msg mod 64"
  have n: "length msg = q * 64 + r" and r: "r < 64" by (simp_all add: q_def r_def)
  have len: "length (sha_pad msg) = q * 64 + r + (119 - r) mod 64 + 9"
    by (simp add: sha_pad_def Let_def n r)
  show ?thesis
  proof (cases "r \<le> 55")
    case True
    then have "119 - r = 1 * 64 + (55 - r)" by simp
    then have "(119 - r) mod 64 = 55 - r" by (simp only: mod_mult_self3) simp
    then have "length (sha_pad msg) = (q + 1) * 64" using True by (simp add: len)
    then show ?thesis by simp
  next
    case False
    with r have "(119 - r) mod 64 = 119 - r" by simp
    then have "length (sha_pad msg) = (q + 2) * 64" using False r by (simp add: len)
    then show ?thesis by simp
  qed
qed

end
