(* ===== verification/Blocks.thy ===== *)
theory Blocks
  imports Encoding Sha256
begin

text \<open>
  blockchain/block.go, blockchain/transaction.go: the blocks of the chain, their hashes,
  copies and signatures.

  Pointers that may be nil are options. The tree has no declaration of
  \<open>NewLeaderHelloBlock\<close>: its fields are the ones its \<open>Copy\<close> lists, its methods are in
  block.go. \<open>Collection\<close> is the former name of \<open>SignaturePair\<close> (the constructor
  \<open>newSignaturePair\<close> returns one as the other), and the one-argument \<open>newCollection\<close> is
  missing, so it is an argument of the definitions that call it. \<open>time.Now\<close> is one too.
\<close>

section \<open>Data\<close>

record Transaction =
  tx_Version :: u32
  tx_Signature :: bytes
  tx_PubKeyIn :: string
  tx_PubKeyOut :: string
  tx_Value :: u64
  tx_Timestamp :: u64
  tx_Nonce :: u64
  tx_Data :: bytes

record Collection =
  c_PublicKey :: string
  c_Signature :: string

definition newSignaturePair :: "string \<Rightarrow> string \<Rightarrow> Collection" where
  "newSignaturePair publicKey signature = \<lparr>c_PublicKey = publicKey, c_Signature = signature\<rparr>"

record BlockHeader =
  bh_Version :: u32
  bh_Bits :: u32
  bh_Nonce :: u64
  bh_Timestamp :: u64
  bh_PrevBlock :: slice
  bh_PublicKey :: string
  bh_Data :: slice

record Block =
  b_Header :: BlockHeader
  b_Hash :: slice
  b_Collections :: "Collection option list"

record DeForkBlock =
  df_Timestamp :: u64
  df_OrderBlocks :: "Block option list"
  df_Hash :: slice

record NewLeaderHelloBlock =
  hb_Index :: u64
  hb_Version :: u32
  hb_Timestamp :: u64
  hb_PrevBlock :: slice
  hb_MerkleRoot :: slice
  hb_PublicKey :: string
  hb_Hash :: slice
  hb_Block :: "DeForkBlock option"
  hb_Addresses :: "string list"
  hb_Transactions :: "Transaction list"

text \<open>\<open>[]byte(s)\<close> of a string.\<close>

definition string_bytes :: "string \<Rightarrow> bytes" where
  "string_bytes s = map of_char s"

section \<open>Hashes\<close>

text \<open>
  The loops over \<open>binary.Write(hash, LittleEndian, val)\<close>, which return at the first error,
  into a \<open>hash.Hash\<close> (a writer that accepts everything, like \<open>buffer_write\<close>).
\<close>

fun hash_values :: "'w writer \<Rightarrow> element list \<Rightarrow> 'w \<Rightarrow> 'w result" where
  "hash_values wr [] w = Inr w"
| "hash_values wr (e # es) w =
     (case write_pure wr [e] w of
        (Some err, _) \<Rightarrow> Inl (''error writing to hash:'' @ err)
      | (None, w') \<Rightarrow> hash_values wr es w')"

definition Block_CalculateHash :: "Block \<Rightarrow> bytes result" where
  "Block_CalculateHash b =
     (let h = b_Header b in
      case hash_values buffer_write [ElemUint32 (bh_Version h), ElemUint32 (bh_Bits h)] [] of
        Inl err \<Rightarrow> Inl err
      | Inr w \<Rightarrow>
         (case hash_values buffer_write [ElemUint64 (bh_Nonce h), ElemUint64 (bh_Timestamp h)] w of
            Inl err \<Rightarrow> Inl err
          | Inr w \<Rightarrow> Inr (sha256
              (w @ slice_bytes (bh_PrevBlock h) @ string_bytes (bh_PublicKey h) @ slice_bytes (bh_Data h)))))"

definition Hello_CalculateHash :: "NewLeaderHelloBlock \<Rightarrow> bytes result" where
  "Hello_CalculateHash hb =
     (case hash_values buffer_write [ElemUint32 (hb_Version hb)] [] of
        Inl err \<Rightarrow> Inl err
      | Inr w \<Rightarrow>
         (case hash_values buffer_write [ElemUint64 (hb_Index hb), ElemUint64 (hb_Timestamp hb)] w of
            Inl err \<Rightarrow> Inl err
          | Inr w \<Rightarrow> Inr (sha256
              (w @ slice_bytes (hb_PrevBlock hb) @ slice_bytes (hb_MerkleRoot hb) @ string_bytes (hb_PublicKey hb)))))"

section \<open>Copies and signatures\<close>

definition Header_Copy :: "BlockHeader \<Rightarrow> BlockHeader" where
  "Header_Copy bh = bh\<lparr>bh_PrevBlock := fresh_copy (bh_PrevBlock bh), bh_Data := fresh_copy (bh_Data bh)\<rparr>"

definition NewBlock :: Block where
  "NewBlock =
     \<lparr>b_Header = \<lparr>bh_Version = 0, bh_Bits = 0, bh_Nonce = 0, bh_Timestamp = 0, bh_PrevBlock = None,
                  bh_PublicKey = [], bh_Data = Some []\<rparr>,
      b_Hash = Some [], b_Collections = []\<rparr>"

text \<open>The new slice starts with as many nil entries as the old one has, and is appended to.\<close>

primrec copy_collections :: "(string \<Rightarrow> Collection) \<Rightarrow> Collection option list \<Rightarrow>
    Collection option list \<Rightarrow> ('s, Collection option list) prog" where
  "copy_collections newCollection [] acc = ret acc"
| "copy_collections newCollection (c # cs) acc =
     bnd (deref c) (\<lambda>c. copy_collections newCollection cs (acc @ [Some (newCollection (c_PublicKey c))]))"

definition Block_Copy :: "(string \<Rightarrow> Collection) \<Rightarrow> Block option \<Rightarrow> ('s, Block option) prog" where
  "Block_Copy newCollection p =
     (case p of
        None \<Rightarrow> ret None
      | Some b \<Rightarrow>
          bnd (copy_collections newCollection (b_Collections b)
                (replicate (length (b_Collections b)) None)) (\<lambda>cs.
          ret (Some \<lparr>b_Header = Header_Copy (b_Header b), b_Hash = fresh_copy (b_Hash b), b_Collections = cs\<rparr>)))"

primrec find_key :: "string \<Rightarrow> Collection option list \<Rightarrow> nat \<Rightarrow> ('s, nat option) prog" where
  "find_key key [] index = ret None"
| "find_key key (c # cs) index =
     bnd (deref c) (\<lambda>c. if c_PublicKey c = key then ret (Some index) else find_key key cs (Suc index))"

definition Block_Sign :: "(string \<Rightarrow> Collection) \<Rightarrow> string \<Rightarrow> Block \<Rightarrow> ('s, Block) prog" where
  "Block_Sign newCollection key b =
     bnd (find_key key (b_Collections b) 0) (\<lambda>keyIndex.
     case keyIndex of
       Some _ \<Rightarrow> ret b
     | None \<Rightarrow> ret (b\<lparr>b_Collections := b_Collections b @ [Some (newCollection key)]\<rparr>))"

definition NewDeForkBlock :: "u64 \<Rightarrow> Block option list \<Rightarrow> DeForkBlock" where
  "NewDeForkBlock now blocks = \<lparr>df_Timestamp = now, df_OrderBlocks = blocks, df_Hash = None\<rparr>"

primrec copy_blocks :: "(string \<Rightarrow> Collection) \<Rightarrow> Block option list \<Rightarrow> ('s, Block option list) prog" where
  "copy_blocks newCollection [] = ret []"
| "copy_blocks newCollection (p # ps) =
     bnd (Block_Copy newCollection p) (\<lambda>q. bnd (copy_blocks newCollection ps) (\<lambda>qs. ret (q # qs)))"

definition DeFork_Copy :: "(string \<Rightarrow> Collection) \<Rightarrow> u64 \<Rightarrow> DeForkBlock option \<Rightarrow> ('s, DeForkBlock) prog" where
  "DeFork_Copy newCollection now p =
     bnd (deref p) (\<lambda>bh. bnd (copy_blocks newCollection (df_OrderBlocks bh)) (\<lambda>orderBlocks.
       let deForkBlock = NewDeForkBlock now orderBlocks in
       ret (deForkBlock\<lparr>df_Hash := slice_copy (df_Hash deForkBlock) (df_Hash bh)\<rparr>)))"

definition Hello_Copy :: "(string \<Rightarrow> Collection) \<Rightarrow> u64 \<Rightarrow> NewLeaderHelloBlock option \<Rightarrow>
    ('s, NewLeaderHelloBlock) prog" where
  "Hello_Copy newCollection now p =
     bnd (deref p) (\<lambda>hb. bnd (DeFork_Copy newCollection now (hb_Block hb)) (\<lambda>block.
       ret (hb\<lparr>hb_PrevBlock := fresh_copy (hb_PrevBlock hb),
               hb_MerkleRoot := fresh_copy (hb_MerkleRoot hb),
               hb_Hash := fresh_copy (hb_Hash hb),
               hb_Block := Some block\<rparr>)))"

section \<open>What a hash covers\<close>

lemma hash_values_buffer:
  assumes "\<forall>e\<in>set es. encode e \<noteq> None"
  shows "hash_values buffer_write es w = Inr (w @ concat (map (\<lambda>e. the (encode e)) es))"
  using assms by (induction es arbitrary: w) (auto simp: buffer_write_def)

definition block_preimage :: "Block \<Rightarrow> bytes" where
  "block_preimage b =
     (let h = b_Header b in
      le_bytes 4 (bh_Version h) @ le_bytes 4 (bh_Bits h) @ le_bytes 8 (bh_Nonce h) @
      le_bytes 8 (bh_Timestamp h) @
      slice_bytes (bh_PrevBlock h) @ string_bytes (bh_PublicKey h) @ slice_bytes (bh_Data h))"

definition hello_preimage :: "NewLeaderHelloBlock \<Rightarrow> bytes" where
  "hello_preimage hb =
     le_bytes 4 (hb_Version hb) @ le_bytes 8 (hb_Index hb) @ le_bytes 8 (hb_Timestamp hb) @
     slice_bytes (hb_PrevBlock hb) @ slice_bytes (hb_MerkleRoot hb) @ string_bytes (hb_PublicKey hb)"

lemma Block_CalculateHash_eq: "Block_CalculateHash b = Inr (sha256 (block_preimage b))"
  by (simp add: Block_CalculateHash_def block_preimage_def Let_def hash_values_buffer buffer_write_def)

lemma Hello_CalculateHash_eq: "Hello_CalculateHash hb = Inr (sha256 (hello_preimage hb))"
  by (simp add: Hello_CalculateHash_def hello_preimage_def hash_values_buffer buffer_write_def)

lemma block_preimage_eq_iff:
  "block_preimage a = block_preimage b \<longleftrightarrow>
     bh_Version (b_Header a) = bh_Version (b_Header b) \<and> bh_Bits (b_Header a) = bh_Bits (b_Header b) \<and>
     bh_Nonce (b_Header a) = bh_Nonce (b_Header b) \<and> bh_Timestamp (b_Header a) = bh_Timestamp (b_Header b) \<and>
     slice_bytes (bh_PrevBlock (b_Header a)) @ string_bytes (bh_PublicKey (b_Header a)) @ slice_bytes (bh_Data (b_Header a))
     = slice_bytes (bh_PrevBlock (b_Header b)) @ string_bytes (bh_PublicKey (b_Header b)) @ slice_bytes (bh_Data (b_Header b))"
  by (simp add: block_preimage_def Let_def le_bytes_inject)

lemma hello_preimage_eq_iff:
  "hello_preimage a = hello_preimage b \<longleftrightarrow>
     hb_Version a = hb_Version b \<and> hb_Index a = hb_Index b \<and> hb_Timestamp a = hb_Timestamp b \<and>
     slice_bytes (hb_PrevBlock a) @ slice_bytes (hb_MerkleRoot a) @ string_bytes (hb_PublicKey a)
     = slice_bytes (hb_PrevBlock b) @ slice_bytes (hb_MerkleRoot b) @ string_bytes (hb_PublicKey b)"
  by (simp add: hello_preimage_def le_bytes_inject)

section \<open>What a copy and a signature do\<close>

text \<open>No nil pointer among the signatures of a block.\<close>

definition signatures_ok :: "Block \<Rightarrow> bool" where
  "signatures_ok b \<longleftrightarrow> None \<notin> set (b_Collections b)"

definition signers :: "Block \<Rightarrow> string list" where
  "signers b = map (\<lambda>c. c_PublicKey (the c)) (b_Collections b)"

lemma copy_collections_eval:
  "copy_collections mk cs acc s =
     (if None \<in> set cs then Panics NilDereference s
      else Returns (acc @ map (\<lambda>c. Some (mk (c_PublicKey (the c)))) cs) s)"
  by (induction cs arbitrary: acc) (auto simp: prog_simps deref_def split: option.split)

lemma find_key_eval:
  assumes "None \<notin> set cs"
  shows "find_key key cs i s =
    Returns (if key \<in> (\<lambda>c. c_PublicKey (the c)) ` set cs
             then Some (i + length (takeWhile (\<lambda>c. c_PublicKey (the c) \<noteq> key) cs)) else None) s"
  using assms
proof (induction cs arbitrary: i)
  case Nil
  then show ?case by (simp add: prog_simps)
next
  case (Cons a cs)
  then obtain c where "a = Some c" by (cases a) auto
  with Cons show ?case by (auto simp: prog_simps)
qed

lemma Block_Copy_eval [prog_simps]:
  "Block_Copy mk None s = Returns None s"
  "Block_Copy mk (Some b) s =
     (if signatures_ok b then
        Returns (Some \<lparr>b_Header = Header_Copy (b_Header b), b_Hash = fresh_copy (b_Hash b),
          b_Collections = replicate (length (b_Collections b)) None
            @ map (\<lambda>k. Some (mk k)) (signers b)\<rparr>) s
      else Panics NilDereference s)"
  by (auto simp: Block_Copy_def prog_simps copy_collections_eval signatures_ok_def signers_def comp_def)

lemma Block_Sign_eval:
  assumes "signatures_ok b"
  shows "Block_Sign mk key b s =
    Returns (if key \<in> set (signers b) then b
             else b\<lparr>b_Collections := b_Collections b @ [Some (mk key)]\<rparr>) s"
  using assms by (auto simp: Block_Sign_def prog_simps find_key_eval signatures_ok_def signers_def)

text \<open>With nil entries, the search ends at the key or with a panic.\<close>

definition has_signer :: "string \<Rightarrow> Collection option list \<Rightarrow> bool" where
  "has_signer key cs \<longleftrightarrow> (\<exists>c. Some c \<in> set cs \<and> c_PublicKey c = key)"

lemma find_key_cases:
  obtains "find_key key cs i s = Panics NilDereference s"
  | n where "find_key key cs i s = Returns (Some n) s" "has_signer key cs"
  | "find_key key cs i s = Returns None s" "\<not> has_signer key cs"
proof (induction cs arbitrary: i thesis)
  case Nil
  then show thesis by (simp add: prog_simps has_signer_def)
next
  case (Cons p cs)
  show thesis
  proof (cases p)
    case None
    then show thesis by (intro Cons.prems(1)) (simp add: prog_simps)
  next
    case (Some c)
    show thesis
    proof (cases "c_PublicKey c = key")
      case True
      with Some show thesis by (intro Cons.prems(2)) (auto simp: prog_simps has_signer_def)
    next
      case False
      have "has_signer key (p # cs) = has_signer key cs" using Some False by (auto simp: has_signer_def)
      with Some False Cons.prems show thesis by (cases rule: Cons.IH [of "Suc i"]) (auto simp: prog_simps)
    qed
  qed
qed

lemma Block_Sign_cases:
  obtains "Block_Sign mk key b s = Panics NilDereference s"
  | "Block_Sign mk key b s = Returns b s" "has_signer key (b_Collections b)"
  | "Block_Sign mk key b s = Returns (b\<lparr>b_Collections := b_Collections b @ [Some (mk key)]\<rparr>) s"
      "\<not> has_signer key (b_Collections b)"
  by (cases rule: find_key_cases [of key "b_Collections b" 0 s]) (auto simp: Block_Sign_def prog_simps)

lemma Block_Sign_nil_first:
  "b_Collections b = None # cs \<Longrightarrow> Block_Sign mk key b s = Panics NilDereference s"
  by (simp add: Block_Sign_def prog_simps)

text \<open>What the callers rely on: \<open>newCollection(key)\<close> carries that key.\<close>

locale signer =
  fixes newCollection :: "string \<Rightarrow> Collection"
  assumes key_of_new: "c_PublicKey (newCollection key) = key"
begin

lemma signers_Sign:
  assumes "signatures_ok b"
  shows "\<exists>b'. Block_Sign newCollection key b s = Returns b' s \<and> signatures_ok b' \<and>
    set (signers b') = insert key (set (signers b)) \<and>
    b_Header b' = b_Header b \<and> b_Hash b' = b_Hash b \<and>
    length (b_Collections b') \<le> Suc (length (b_Collections b)) \<and>
    Block_Sign newCollection key b' s = Returns b' s"
proof (cases "key \<in> set (signers b)")
  case True
  then show ?thesis using assms by (auto simp: Block_Sign_eval)
next
  case False
  let ?b = "b\<lparr>b_Collections := b_Collections b @ [Some (newCollection key)]\<rparr>"
  have ok: "signatures_ok ?b" and ks: "signers ?b = signers b @ [key]"
    using assms by (simp_all add: signatures_ok_def signers_def key_of_new)
  show ?thesis
    using False ok ks by (simp add: Block_Sign_eval [OF assms] Block_Sign_eval [OF ok])
qed

end

interpretation pair: signer "\<lambda>key. newSignaturePair key signature"
  by unfold_locales (simp add: newSignaturePair_def)

section \<open>Properties\<close>

text \<open>
  C39: What a block hash commits to. Unless SHA-256 collides on the two inputs, two blocks
  have the same \<open>CalculateHash\<close> exactly when their version, bits, nonce and timestamp agree
  and the concatenation of previous hash, public key and data does: the boundaries between
  these three fields are not hashed, nor are the block's \<open>Hash\<close> and its signatures.
\<close>

theorem Block_hash_commits:
  assumes "sha256 (block_preimage a) = sha256 (block_preimage b) \<Longrightarrow> block_preimage a = block_preimage b"
  shows "Block_CalculateHash a = Block_CalculateHash b \<longleftrightarrow>
     bh_Version (b_Header a) = bh_Version (b_Header b) \<and> bh_Bits (b_Header a) = bh_Bits (b_Header b) \<and>
     bh_Nonce (b_Header a) = bh_Nonce (b_Header b) \<and> bh_Timestamp (b_Header a) = bh_Timestamp (b_Header b) \<and>
     slice_bytes (bh_PrevBlock (b_Header a)) @ string_bytes (bh_PublicKey (b_Header a)) @ slice_bytes (bh_Data (b_Header a))
     = slice_bytes (bh_PrevBlock (b_Header b)) @ string_bytes (bh_PublicKey (b_Header b)) @ slice_bytes (bh_Data (b_Header b))"
  using assms unfolding Block_CalculateHash_eq block_preimage_eq_iff [symmetric] by auto

text \<open>Here the last letter of the key has moved into the data, and the hash stays the same.\<close>

definition sample_block :: "string \<Rightarrow> bytes \<Rightarrow> Block" where
  "sample_block key data =
     NewBlock\<lparr>b_Header := (b_Header NewBlock)\<lparr>bh_PublicKey := key, bh_Data := Some data\<rparr>\<rparr>"

theorem Block_hash_commits_witness:
  "Block_CalculateHash (sample_block ''ab'' [1]) = Block_CalculateHash (sample_block ''a'' [98, 1])"
proof -
  have "block_preimage (sample_block ''ab'' [1]) = block_preimage (sample_block ''a'' [98, 1])"
    by (simp add: block_preimage_def sample_block_def NewBlock_def string_bytes_def)
  then show ?thesis
    using Block_hash_commits [of "sample_block ''ab'' [1]" "sample_block ''a'' [98, 1]"]
    by (simp add: block_preimage_eq_iff)
qed

text \<open>
  What the hash of a leader's block commits to. Unless SHA-256 collides on the two
  inputs, two \<open>NewLeaderHelloBlock\<close>s have the same \<open>CalculateHash\<close> exactly when version,
  index and timestamp agree and the concatenation of previous hash, Merkle root and public
  key does: the elected blocks, the gateway addresses and the transactions, which peers
  act on, can be changed without changing the hash.
\<close>

theorem Hello_hash_commits:
  assumes "sha256 (hello_preimage a) = sha256 (hello_preimage b) \<Longrightarrow> hello_preimage a = hello_preimage b"
  shows "Hello_CalculateHash a = Hello_CalculateHash b \<longleftrightarrow>
     hb_Version a = hb_Version b \<and> hb_Index a = hb_Index b \<and> hb_Timestamp a = hb_Timestamp b \<and>
     slice_bytes (hb_PrevBlock a) @ slice_bytes (hb_MerkleRoot a) @ string_bytes (hb_PublicKey a)
     = slice_bytes (hb_PrevBlock b) @ slice_bytes (hb_MerkleRoot b) @ string_bytes (hb_PublicKey b)"
  using assms unfolding Hello_CalculateHash_eq hello_preimage_eq_iff [symmetric] by auto

definition sample_hello :: "string list \<Rightarrow> NewLeaderHelloBlock" where
  "sample_hello addresses =
     \<lparr>hb_Index = 3, hb_Version = 1, hb_Timestamp = 7, hb_PrevBlock = Some [1], hb_MerkleRoot = Some [],
      hb_PublicKey = ''key'', hb_Hash = Some [2], hb_Block = Some (NewDeForkBlock 5 []),
      hb_Addresses = addresses, hb_Transactions = []\<rparr>"

theorem Hello_hash_commits_witness:
  "Hello_CalculateHash (sample_hello [''tls://a:1'']) = Hello_CalculateHash (sample_hello [''tls://evil:1''])"
proof -
  have "hello_preimage (sample_hello [''tls://a:1'']) = hello_preimage (sample_hello [''tls://evil:1''])"
    by (simp add: hello_preimage_def sample_hello_def)
  then show ?thesis
    using Hello_hash_commits [of "sample_hello [''tls://a:1'']" "sample_hello [''tls://evil:1'']"]
    by (simp add: hello_preimage_eq_iff)
qed

text \<open>
  \<open>Copy\<close> allocates the new signature slice with its final length and then appends, so
  the copy of a block with \<open>n\<close> signatures has \<open>2 * n\<close> entries of which the first \<open>n\<close> are
  nil. For a signed block, signing the copy or copying it again dereferences a nil pointer.
  For an unsigned block, signing the copy gives one signature.
\<close>

theorem Block_Copy_then_Sign:
  assumes "signatures_ok b"
  shows "\<exists>c. Block_Copy newCollection (Some b) s = Returns (Some c) s \<and>
    Block_CalculateHash c = Block_CalculateHash b \<and>
    length (b_Collections c) = 2 * length (b_Collections b) \<and>
    (b_Collections b \<noteq> [] \<longrightarrow>
       Block_Sign newCollection key c s = Panics NilDereference s \<and>
       Block_Copy newCollection (Some c) s = Panics NilDereference s) \<and>
    (b_Collections b = [] \<longrightarrow>
       Block_Sign newCollection key c s = Returns (c\<lparr>b_Collections := [Some (newCollection key)]\<rparr>) s)"
proof -
  define c where "c = \<lparr>b_Header = Header_Copy (b_Header b), b_Hash = fresh_copy (b_Hash b),
    b_Collections = replicate (length (b_Collections b)) None @ map (\<lambda>k. Some (newCollection k)) (signers b)\<rparr>"
  have "Block_Copy newCollection (Some b) s = Returns (Some c) s"
    using assms by (simp add: Block_Copy_eval c_def)
  moreover have "Block_CalculateHash c = Block_CalculateHash b"
    by (simp add: Block_CalculateHash_eq block_preimage_def Let_def c_def Header_Copy_def)
  moreover have "length (b_Collections c) = 2 * length (b_Collections b)"
    by (simp add: c_def signers_def)
  moreover have "Block_Sign newCollection key c s = Panics NilDereference s \<and>
      Block_Copy newCollection (Some c) s = Panics NilDereference s" if signed: "b_Collections b \<noteq> []"
  proof -
    obtain cs where "b_Collections c = None # cs"
      using signed by (cases "b_Collections b") (auto simp: c_def)
    then show ?thesis by (simp add: Block_Sign_nil_first Block_Copy_eval signatures_ok_def)
  qed
  moreover have "Block_Sign newCollection key c s = Returns (c\<lparr>b_Collections := [Some (newCollection key)]\<rparr>) s"
    if "b_Collections b = []"
    using that by (simp add: Block_Sign_eval signatures_ok_def c_def signers_def)
  ultimately show ?thesis by blast
qed

theorem Block_Copy_then_Sign_witness:
  "signatures_ok (NewBlock\<lparr>b_Collections := [Some (newSignaturePair ''k'' ''s'')]\<rparr>) \<and>
   (\<exists>c. Block_Copy (\<lambda>k. newSignaturePair k []) (Some (NewBlock\<lparr>b_Collections := [Some (newSignaturePair ''k'' ''s'')]\<rparr>)) ()
          = Returns (Some c) () \<and>
        Block_Sign (\<lambda>k. newSignaturePair k []) ''me'' c () = Panics NilDereference ())"
proof -
  have ok: "signatures_ok (NewBlock\<lparr>b_Collections := [Some (newSignaturePair ''k'' ''s'')]\<rparr>)"
    by (simp add: signatures_ok_def)
  with Block_Copy_then_Sign [OF ok, of "\<lambda>k. newSignaturePair k []" "()" "''me''"]
  show ?thesis by auto
qed

text \<open>
  On a block without nil entries \<open>Sign\<close> returns the block with the key among its
  signers, leaves header and hash alone, adds at most one entry, and is idempotent: signing
  again with the same key changes nothing.
\<close>

theorem Block_Sign_spec:
  assumes "signatures_ok b"
  shows "\<exists>b'. Block_Sign (\<lambda>k. newSignaturePair k sig) key b s = Returns b' s \<and> signatures_ok b' \<and>
    set (signers b') = insert key (set (signers b)) \<and>
    b_Header b' = b_Header b \<and> b_Hash b' = b_Hash b \<and>
    length (b_Collections b') \<le> Suc (length (b_Collections b)) \<and>
    Block_Sign (\<lambda>k. newSignaturePair k sig) key b' s = Returns b' s"
  using assms by (rule pair.signers_Sign)

theorem Block_Sign_spec_witness:
  "\<exists>b'. Block_Sign (\<lambda>k. newSignaturePair k ''sig'') ''me'' NewBlock () = Returns b' () \<and>
     set (signers b') = {''me''}"
proof -
  have "signatures_ok NewBlock" by (simp add: signatures_ok_def NewBlock_def)
  from Block_Sign_spec [OF this, of "''sig''" "''me''" "()"]
  show ?thesis by (auto simp: signers_def NewBlock_def)
qed

text \<open>
  Copying a leader's block keeps its own hash but not its de-fork block: the elected
  blocks are stamped with the time of the copy, and their \<open>Hash\<close> is always nil, because it is
  copied into a nil slice.
\<close>

theorem Hello_Copy_defork:
  assumes "hb_Block hb = Some d" and "\<forall>p\<in>set (df_OrderBlocks d). case p of None \<Rightarrow> True | Some b \<Rightarrow> signatures_ok b"
  shows "\<exists>c d'. Hello_Copy newCollection now (Some hb) s = Returns c s \<and>
    Hello_CalculateHash c = Hello_CalculateHash hb \<and> slice_bytes (hb_Hash c) = slice_bytes (hb_Hash hb) \<and>
    hb_Block c = Some d' \<and> df_Timestamp d' = now \<and> df_Hash d' = None \<and>
    length (df_OrderBlocks d') = length (df_OrderBlocks d)"
proof -
  have copy: "\<exists>qs. copy_blocks newCollection ps s = Returns qs s \<and> length qs = length ps"
    if "\<forall>p\<in>set ps. case p of None \<Rightarrow> True | Some b \<Rightarrow> signatures_ok b" for ps
    using that by (induction ps) (auto simp: prog_simps split: option.splits)
  obtain qs where "copy_blocks newCollection (df_OrderBlocks d) s = Returns qs s"
      "length qs = length (df_OrderBlocks d)"
    using copy [OF assms(2)] by blast
  then show ?thesis
    using assms(1)
    by (simp add: Hello_Copy_def DeFork_Copy_def prog_simps Let_def NewDeForkBlock_def slice_copy_def
        Hello_CalculateHash_eq hello_preimage_def)
qed

theorem Hello_Copy_defork_witness:
  "\<exists>c d'. Hello_Copy (\<lambda>k. newSignaturePair k []) 9
      (Some ((sample_hello [])\<lparr>hb_Block := Some \<lparr>df_Timestamp = 5, df_OrderBlocks = [Some NewBlock], df_Hash = Some [1, 2]\<rparr>\<rparr>)) ()
    = Returns c () \<and> hb_Block c = Some d' \<and> df_Timestamp d' = 9 \<and> df_Hash d' = None"
proof -
  let ?d = "\<lparr>df_Timestamp = 5, df_OrderBlocks = [Some NewBlock], df_Hash = Some [1, 2]\<rparr>"
  let ?hb = "(sample_hello [])\<lparr>hb_Block := Some ?d\<rparr>"
  have "hb_Block ?hb = Some ?d" by simp
  moreover have "\<forall>p\<in>set (df_OrderBlocks ?d). case p of None \<Rightarrow> True | Some b \<Rightarrow> signatures_ok b"
    by (simp add: signatures_ok_def NewBlock_def)
  ultimately show ?thesis
    using Hello_Copy_defork [of ?hb ?d "\<lambda>k. newSignaturePair k []" 9 "()"] by blast
qed

end
