(* ===== verification/Solver.thy ===== *)
theory Solver
  imports Blocks Difficulty
begin

text \<open>
  mining/miner.go, the search: \<open>solveBlock\<close> and the loop of \<open>generateBlocks\<close> around it.

  What the goroutine sees from outside is given by two functions of the number of polls
  made so far: \<open>quit k\<close>, whether the quit channel is closed at the poll with number \<open>k\<close>, and
  \<open>now k\<close>, the clock after it. Both loops may run for ever, so they are partial: \<open>None\<close>
  means that the call does not return.
\<close>

section \<open>Translation of the code\<close>

definition maxNonce :: u32 where
  "maxNonce = NOT 0"

definition with_nonce :: "u64 \<Rightarrow> u64 \<Rightarrow> Block \<Rightarrow> Block" where
  "with_nonce nonce time b = b\<lparr>b_Header := (b_Header b)\<lparr>bh_Nonce := nonce, bh_Timestamp := time\<rparr>\<rparr>"

text \<open>
  \<open>HashToBig(&hash)\<close> reverses \<open>hash\<close> in place, so the hash stored in the block is the
  reversed one.
\<close>

partial_function (option) solve_loop ::
  "(nat \<Rightarrow> bool) \<Rightarrow> (nat \<Rightarrow> u64) \<Rightarrow> int \<Rightarrow> nat \<Rightarrow> u32 \<Rightarrow> Block \<Rightarrow> (bool \<times> Block \<times> nat) option"
where
  "solve_loop quit now targetDifficulty k i b =
     (if \<not> i \<le> maxNonce then Some (False, b, k)
      else if quit k then Some (False, b, Suc k)
      else let b = with_nonce (ucast i) (now k) b in
        case Block_CalculateHash b of
          Inl err \<Rightarrow> Some (False, b, Suc k)
        | Inr hash \<Rightarrow>
            let (value, hash) = HashToBig hash in
            if value \<le> targetDifficulty then Some (True, b\<lparr>b_Hash := Some hash\<rparr>, Suc k)
            else solve_loop quit now targetDifficulty (Suc k) (i + 1) b)"

definition solveBlock :: "(nat \<Rightarrow> bool) \<Rightarrow> (nat \<Rightarrow> u64) \<Rightarrow> nat \<Rightarrow> Block \<Rightarrow> (bool \<times> Block \<times> nat) option" where
  "solveBlock quit now k b = solve_loop quit now (CompactToBig (bh_Bits (b_Header b))) k 0 b"

text \<open>The result of the worker: the block it hands to the callback, or none when it was told to quit.\<close>

partial_function (option) generateBlocks ::
  "(nat \<Rightarrow> bool) \<Rightarrow> (nat \<Rightarrow> u64) \<Rightarrow> nat \<Rightarrow> Block \<Rightarrow> Block option option"
where
  "generateBlocks quit now k b =
     (if quit k then Some None
      else Option.bind (solveBlock quit now (Suc k) b) (\<lambda>(solved, b, k).
        if solved then Some (Some b) else generateBlocks quit now k b))"

section \<open>One attempt\<close>

text \<open>
  Attempt number \<open>j\<close> of a search that started at poll \<open>k\<close>: its block, and whether the
  block's hash, read as a little-endian number, meets the target.
\<close>

definition attempt :: "(nat \<Rightarrow> u64) \<Rightarrow> nat \<Rightarrow> Block \<Rightarrow> nat \<Rightarrow> Block" where
  "attempt now k b j = with_nonce (ucast (of_nat j :: u32)) (now (k + j)) b"

definition block_target :: "Block \<Rightarrow> int" where
  "block_target b = CompactToBig (bh_Bits (b_Header b))"

definition meets :: "Block \<Rightarrow> bool" where
  "meets b \<longleftrightarrow> int (little_of_bytes (sha256 (block_preimage b))) \<le> block_target b"

definition mined :: "Block \<Rightarrow> Block" where
  "mined b = b\<lparr>b_Hash := Some (rev (sha256 (block_preimage b)))\<rparr>"

lemma maxNonce_bound: "i \<le> maxNonce"
  by (simp add: maxNonce_def word_order.extremum)

lemma with_nonce_idem [simp]: "with_nonce n t (with_nonce n' t' b) = with_nonce n t b"
  by (simp add: with_nonce_def)

lemma attempt_attempt [simp]: "attempt now k (attempt now k' b j') j = attempt now k b j"
  by (simp add: attempt_def)

lemma block_target_with_nonce [simp]: "block_target (with_nonce n t b) = block_target b"
  by (simp add: block_target_def with_nonce_def)

text \<open>The block before attempt \<open>j\<close>: the caller's block, with the last attempt's nonce and time in it.\<close>

definition before :: "(nat \<Rightarrow> u64) \<Rightarrow> nat \<Rightarrow> Block \<Rightarrow> nat \<Rightarrow> Block" where
  "before now k b j = (if j = 0 then b else attempt now k b (j - 1))"

lemma before_simps [simp]:
  "attempt now k (before now k b j) i = attempt now k b i"
  "block_target (before now k b j) = block_target b"
  "before now k b 0 = b" "before now k b (Suc j) = attempt now k b j"
  by (simp_all add: before_def) (simp add: attempt_def)

lemma solve_loop_step:
  "solve_loop quit now (block_target b) (k + j) (of_nat j) (before now k b j) =
     (if quit (k + j) then Some (False, before now k b j, Suc (k + j))
      else if meets (attempt now k b j) then Some (True, mined (attempt now k b j), Suc (k + j))
      else solve_loop quit now (block_target b) (k + Suc j) (of_nat (Suc j)) (before now k b (Suc j)))"
proof -
  have "with_nonce (ucast (of_nat j :: u32)) (now (k + j)) (before now k b j) = attempt now k b j"
    by (simp add: before_def attempt_def)
  moreover have "block_target (attempt now k b j) = block_target b" by (simp add: attempt_def)
  ultimately show ?thesis
    by (subst solve_loop.simps)
      (simp add: maxNonce_bound Let_def Block_CalculateHash_eq HashToBig_eq meets_def mined_def add.commute [of 1])
qed

text \<open>No poll before number \<open>n\<close> ends the search.\<close>

definition undecided :: "(nat \<Rightarrow> bool) \<Rightarrow> (nat \<Rightarrow> u64) \<Rightarrow> nat \<Rightarrow> Block \<Rightarrow> nat \<Rightarrow> bool" where
  "undecided quit now k b n \<longleftrightarrow> (\<forall>j<n. \<not> quit (k + j) \<and> \<not> meets (attempt now k b j))"

lemma undecided_Suc: "undecided quit now k b (Suc n) \<longleftrightarrow>
    undecided quit now k b n \<and> \<not> quit (k + n) \<and> \<not> meets (attempt now k b n)"
  by (auto simp: undecided_def less_Suc_eq)

lemma solveBlock_run:
  assumes "undecided quit now k b n"
  shows "solveBlock quit now k b =
    solve_loop quit now (block_target b) (k + n) (of_nat n) (before now k b n)"
  using assms
proof (induction n)
  case 0
  then show ?case by (simp add: solveBlock_def block_target_def)
next
  case (Suc n)
  then show ?case using solve_loop_step [of quit now b k n] by (simp add: undecided_Suc)
qed

lemma solveBlock_decided:
  assumes "undecided quit now k b n" and "quit (k + n) \<or> meets (attempt now k b n)"
  shows "solveBlock quit now k b = Some (if quit (k + n) then (False, before now k b n, Suc (k + n))
           else (True, mined (attempt now k b n), Suc (k + n)))"
  using solveBlock_run [OF assms(1)] solve_loop_step [of quit now b k n] assms(2) by auto

text \<open>A search that returns was decided at some poll: fixed-point induction on the loop.\<close>

definition decided_from :: "(nat \<Rightarrow> bool) \<Rightarrow> (nat \<Rightarrow> u64) \<Rightarrow> int \<Rightarrow> nat \<Rightarrow> u32 \<Rightarrow> Block \<Rightarrow> bool" where
  "decided_from quit now target k i b \<longleftrightarrow>
     (\<forall>k0 b0 j. target = block_target b0 \<longrightarrow> k = k0 + j \<longrightarrow> i = of_nat j \<longrightarrow> b = before now k0 b0 j \<longrightarrow>
       (\<exists>n. quit (k0 + n) \<or> meets (attempt now k0 b0 n)))"

lemma solve_loop_returns:
  assumes "solve_loop quit now target k i b = Some r"
  shows "decided_from quit now target k i b"
proof (rule solve_loop.raw_induct [where P = "\<lambda>quit now target k i b r. decided_from quit now target k i b", OF _ assms])
  fix f quit now target k i b r
  assume IH: "\<And>quit now target k i b r. f quit now target k i b = Some r \<Longrightarrow> decided_from quit now target k i b"
    and eq: "(if \<not> i \<le> maxNonce then Some (False, b, k)
      else if quit k then Some (False, b, Suc k)
      else let b = with_nonce (ucast i) (now k) b in
        case Block_CalculateHash b of
          Inl err \<Rightarrow> Some (False, b, Suc k)
        | Inr hash \<Rightarrow>
            let (value, hash) = HashToBig hash in
            if value \<le> target then Some (True, b\<lparr>b_Hash := Some hash\<rparr>, Suc k)
            else f quit now target (Suc k) (i + 1) b) = Some r"
  show "decided_from quit now target k i b"
    unfolding decided_from_def
  proof (intro allI impI)
    fix k0 b0 j
    assume st: "target = block_target b0" "k = k0 + j" "i = of_nat j" "b = before now k0 b0 j"
    let ?a = "attempt now k0 b0 j"
    have a: "with_nonce (ucast i) (now k) b = ?a" by (simp add: st before_def attempt_def)
    show "\<exists>n. quit (k0 + n) \<or> meets (attempt now k0 b0 n)"
    proof (cases "quit k \<or> meets ?a")
      case True
      with st(2) show ?thesis by blast
    next
      case False
      have "meets ?a \<longleftrightarrow> int (little_of_bytes (sha256 (block_preimage ?a))) \<le> target"
        by (simp add: meets_def st(1)) (simp add: attempt_def)
      then have "f quit now target (Suc k) (i + 1) ?a = Some r"
        using eq False by (simp add: maxNonce_bound a Let_def Block_CalculateHash_eq HashToBig_eq)
      from IH [OF this, unfolded decided_from_def, rule_format, of b0 k0 "Suc j"] show ?thesis
        by (simp add: st)
    qed
  qed
qed

lemma first_decision:
  assumes "\<exists>n. quit (k + n) \<or> meets (attempt now k b n)"
  obtains n where "undecided quit now k b n" "quit (k + n) \<or> meets (attempt now k b n)"
proof -
  let ?P = "\<lambda>n. quit (k + n) \<or> meets (attempt now k b n)"
  have "?P (Least ?P)" using assms by (rule LeastI_ex)
  moreover have "undecided quit now k b (Least ?P)"
    unfolding undecided_def using not_less_Least [where P = ?P] by blast
  ultimately show thesis using that by blast
qed

lemma solveBlock_returns:
  assumes "solveBlock quit now k b = Some r"
  shows "\<exists>n. undecided quit now k b n \<and> (quit (k + n) \<or> meets (attempt now k b n))"
proof -
  have "decided_from quit now (block_target b) k 0 b"
    using assms solve_loop_returns by (simp add: solveBlock_def block_target_def)
  then have ex: "\<exists>n. quit (k + n) \<or> meets (attempt now k b n)"
    unfolding decided_from_def by (elim allE [of _ k] allE [of _ b] allE [of _ "0 :: nat"]) simp
  then show ?thesis by (rule first_decision) blast
qed

lemma solveBlock_outcomes:
  "((\<exists>k'. solveBlock quit now k b = Some (True, b', k')) \<longleftrightarrow>
     (\<exists>n. undecided quit now k b n \<and> \<not> quit (k + n) \<and> meets (attempt now k b n) \<and>
          b' = mined (attempt now k b n))) \<and>
   ((\<exists>b' k'. solveBlock quit now k b = Some (False, b', k')) \<longleftrightarrow>
     (\<exists>n. undecided quit now k b n \<and> quit (k + n)))"
proof (intro conjI)
  have unique: "m = n" if "undecided quit now k b m" "quit (k + m) \<or> meets (attempt now k b m)"
    "undecided quit now k b n" "quit (k + n) \<or> meets (attempt now k b n)" for m n
    using that by (metis undecided_def linorder_neqE_nat)
  show "(\<exists>k'. solveBlock quit now k b = Some (True, b', k')) \<longleftrightarrow>
     (\<exists>n. undecided quit now k b n \<and> \<not> quit (k + n) \<and> meets (attempt now k b n) \<and>
          b' = mined (attempt now k b n))"
  proof
    assume "\<exists>k'. solveBlock quit now k b = Some (True, b', k')"
    then obtain k' where k': "solveBlock quit now k b = Some (True, b', k')" by blast
    from solveBlock_returns [OF this] obtain n
      where n: "undecided quit now k b n" "quit (k + n) \<or> meets (attempt now k b n)" by blast
    show "\<exists>n. undecided quit now k b n \<and> \<not> quit (k + n) \<and> meets (attempt now k b n) \<and>
          b' = mined (attempt now k b n)"
      using solveBlock_decided [OF n] n k' by (auto split: if_splits)
  qed (use solveBlock_decided in auto)
  show "(\<exists>b' k'. solveBlock quit now k b = Some (False, b', k')) \<longleftrightarrow>
     (\<exists>n. undecided quit now k b n \<and> quit (k + n))"
  proof
    assume "\<exists>b' k'. solveBlock quit now k b = Some (False, b', k')"
    then obtain b' k' where k': "solveBlock quit now k b = Some (False, b', k')" by blast
    from solveBlock_returns [OF this] obtain n
      where n: "undecided quit now k b n" "quit (k + n) \<or> meets (attempt now k b n)" by blast
    then show "\<exists>n. undecided quit now k b n \<and> quit (k + n)"
      using solveBlock_decided [OF n] k' by (auto split: if_splits)
  qed (use solveBlock_decided in auto)
qed

section \<open>Properties\<close>

text \<open>
  C12: The search, exactly. \<open>solveBlock\<close> returns true with a block if and only if some
  attempt meets the target before any poll sees the quit channel closed, and that block is
  the first such attempt; it returns false if and only if a poll sees the channel closed
  before any attempt has met the target. Nonces are taken in order, modulo \<open>2 ^ 32\<close>.
\<close>

theorem solveBlock_exact:
  "((\<exists>k'. solveBlock quit now k b = Some (True, b', k')) \<longleftrightarrow>
     (\<exists>n. undecided quit now k b n \<and> \<not> quit (k + n) \<and> meets (attempt now k b n) \<and>
          b' = mined (attempt now k b n))) \<and>
   ((\<exists>b' k'. solveBlock quit now k b = Some (False, b', k')) \<longleftrightarrow>
     (\<exists>n. undecided quit now k b n \<and> quit (k + n)))"
  by (rule solveBlock_outcomes)

text \<open>
  C28: The search does not end with the nonces. \<open>solveBlock\<close> fails to return exactly when no
  poll sees the quit channel closed and no attempt ever meets the target, however many
  times the 32-bit counter wraps round: \<open>i <= maxNonce\<close> holds for every \<open>uint32\<close>, so the
  final \<open>return false\<close> is not reached.
\<close>

theorem solveBlock_diverges:
  "solveBlock quit now k b = None \<longleftrightarrow> (\<forall>n. \<not> quit (k + n) \<and> \<not> meets (attempt now k b n))"
proof
  assume none: "solveBlock quit now k b = None"
  show "\<forall>n. \<not> quit (k + n) \<and> \<not> meets (attempt now k b n)"
  proof (rule ccontr)
    assume "\<not> (\<forall>n. \<not> quit (k + n) \<and> \<not> meets (attempt now k b n))"
    then have "\<exists>n. quit (k + n) \<or> meets (attempt now k b n)" by blast
    then obtain n where "undecided quit now k b n" "quit (k + n) \<or> meets (attempt now k b n)"
      by (rule first_decision)
    from solveBlock_decided [OF this] none show False by simp
  qed
next
  assume "\<forall>n. \<not> quit (k + n) \<and> \<not> meets (attempt now k b n)"
  then show "solveBlock quit now k b = None"
    using solveBlock_returns by (metis option.exhaust)
qed

lemma solveBlock_True:
  assumes "solveBlock quit now k b = Some (True, b', k')"
  obtains n where "undecided quit now k b n" "meets (attempt now k b n)" "b' = mined (attempt now k b n)"
  using solveBlock_outcomes [of quit now k b b'] assms by blast

text \<open>
  C29: What a found block is worth. Its stored hash, read in the big-endian order it is
  printed in, is at most the target of the caller's bits, and version, bits, previous
  block, key and data are the caller's. But the stored hash is the byte reversal of what
  \<open>CalculateHash\<close> returns for the block, and equals it only for a palindrome.
\<close>

theorem solveBlock_found:
  assumes "solveBlock quit now k b = Some (True, b', k')"
  shows "\<exists>h. b_Hash b' = Some h \<and> int (big_of_bytes h) \<le> CompactToBig (bh_Bits (b_Header b)) \<and>
    Block_CalculateHash b' = Inr (rev h) \<and>
    (Block_CalculateHash b' = Inr h \<longleftrightarrow> rev h = h) \<and>
    (\<exists>nonce time. nonce < 2 ^ 32 \<and>
       b_Header b' = (b_Header b)\<lparr>bh_Nonce := nonce, bh_Timestamp := time\<rparr>) \<and>
    b_Collections b' = b_Collections b"
proof -
  obtain n where "meets (attempt now k b n)" and b': "b' = mined (attempt now k b n)"
    using assms by (rule solveBlock_True)
  let ?a = "attempt now k b n"
  let ?h = "rev (sha256 (block_preimage ?a))"
  have "block_preimage b' = block_preimage ?a" by (simp add: b' mined_def block_preimage_def)
  then have hash: "Block_CalculateHash b' = Inr (rev ?h)" by (simp add: Block_CalculateHash_eq)
  have val: "int (big_of_bytes ?h) \<le> CompactToBig (bh_Bits (b_Header b))"
    using \<open>meets ?a\<close>
    by (simp add: meets_def little_of_bytes_def attempt_def block_target_def with_nonce_def)
  have "unat (of_nat n :: u32) < 2 ^ LENGTH(32)" by (rule unsigned_less)
  moreover have "unat (ucast (of_nat n :: u32) :: u64) = take_bit 64 (unat (of_nat n :: u32))"
    by (simp add: unsigned_ucast_eq)
  ultimately have "unat (ucast (of_nat n :: u32) :: u64) < 2 ^ 32"
    by (simp add: take_bit_nat_less_eq_self [THEN le_less_trans])
  then have nonce: "(ucast (of_nat n :: u32) :: u64) < 2 ^ 32"
    by (simp add: word_less_nat_alt)
  have hdr: "b_Header b' = (b_Header b)\<lparr>bh_Nonce := ucast (of_nat n :: u32), bh_Timestamp := now (k + n)\<rparr>"
    and col: "b_Collections b' = b_Collections b" and st: "b_Hash b' = Some ?h"
    by (simp_all add: b' mined_def attempt_def with_nonce_def)
  show ?thesis
    by (rule exI [of _ ?h]) (use hash val nonce hdr col st in auto)
qed

text \<open>
  The worker around the search. With a quit channel that stays closed once it is
  closed, \<open>generateBlocks\<close> hands the block of the first successful attempt to the callback,
  ends without one when it is told to quit before that, and otherwise never ends; it
  searches once only.
\<close>

theorem generateBlocks_result:
  assumes "\<And>i j. i \<le> j \<Longrightarrow> quit i \<Longrightarrow> quit j"
  shows "generateBlocks quit now k b =
    (if quit k then Some None
     else case solveBlock quit now (Suc k) b of
        None \<Rightarrow> None | Some (True, b', _) \<Rightarrow> Some (Some b') | Some (False, _, _) \<Rightarrow> Some None)"
proof (cases "quit k \<or> solveBlock quit now (Suc k) b = None \<or> (\<exists>b' k'. solveBlock quit now (Suc k) b = Some (True, b', k'))")
  case True
  then show ?thesis by (subst generateBlocks.simps) auto
next
  case False
  then obtain b' k' where r: "solveBlock quit now (Suc k) b = Some (False, b', k')"
    by (metis (full_types) option.exhaust prod_cases3)
  from solveBlock_returns [OF r] obtain n
    where n: "undecided quit now (Suc k) b n" "quit (Suc k + n) \<or> meets (attempt now (Suc k) b n)" by blast
  then have "quit (Suc k + n)" and "k' = Suc (Suc k + n)"
    using solveBlock_decided [OF n] r by (auto split: if_splits)
  then have "quit k'" using assms [of "Suc k + n" k'] by simp
  then have "generateBlocks quit now k' b' = Some None" by (subst generateBlocks.simps) simp
  then show ?thesis using False r by (subst generateBlocks.simps) simp
qed

text \<open>A block whose bits stand for a target above every 256-bit number is solved at once.\<close>

definition easy_block :: Block where
  "easy_block = NewBlock\<lparr>b_Header := (b_Header NewBlock)\<lparr>bh_Bits := 0x22010000\<rparr>\<rparr>"

lemma easy_block_target: "block_target easy_block = 256 ^ 33"
proof -
  have "exponent_of 0x22010000 = 34" "\<not> negative_of 0x22010000" "mantissa_of 0x22010000 = 0x10000"
    by (simp_all add: exponent_of_def negative_of_def mantissa_of_def)
  then show ?thesis
    by (simp add: block_target_def easy_block_def CompactToBig_fields compact_value_def)
qed

lemma easy_block_meets: "meets (attempt now k easy_block n)"
proof -
  have "int (little_of_bytes (sha256 bs)) \<le> 256 ^ 33" for bs
  proof -
    have "little_of_bytes (sha256 bs) < 256 ^ 32" by (rule sha.digest_value_less)
    also have "(256::nat) ^ 32 \<le> 256 ^ 33" by (intro power_increasing) simp_all
    finally have "int (little_of_bytes (sha256 bs)) \<le> int (256 ^ 33)" by (simp only: of_nat_le_iff)
    then show ?thesis by simp
  qed
  moreover have "block_target (attempt now k easy_block n) = 256 ^ 33"
    using easy_block_target by (simp add: attempt_def)
  ultimately show ?thesis by (simp only: meets_def)
qed

text \<open>Whatever the loop of \<open>generateBlocks\<close> hands over is the caller's block after a successful attempt.\<close>

lemma generateBlocks_found:
  assumes "generateBlocks quit now k b = Some (Some b')"
  shows "\<exists>nonce t. b' = mined (with_nonce nonce t b) \<and> meets (with_nonce nonce t b)"
proof -
  define found where "found = (\<lambda>b r. \<forall>b'. r = Some b' \<longrightarrow>
      (\<exists>nonce t. b' = mined (with_nonce nonce t b) \<and> meets (with_nonce nonce t b)))"
  have "found b (Some b')"
  proof (rule generateBlocks.raw_induct [where P = "\<lambda>quit now k b r. found b r", OF _ assms])
    fix rec :: "(nat \<Rightarrow> bool) \<Rightarrow> (nat \<Rightarrow> u64) \<Rightarrow> nat \<Rightarrow> Block \<Rightarrow> Block option option"
      and quit :: "nat \<Rightarrow> bool" and now :: "nat \<Rightarrow> u64" and k b r
    assume IH: "\<And>quit now k b r. rec quit now k b = Some r \<Longrightarrow> found b r"
      and run: "(if quit k then Some None else Option.bind (solveBlock quit now (Suc k) b) (\<lambda>(solved, b, k).
        if solved then Some (Some b) else rec quit now k b)) = Some r"
    show "found b r"
    proof (cases "quit k")
      case True
      with run show ?thesis by (simp add: found_def)
    next
      case False
      with run obtain solved c k' where s: "solveBlock quit now (Suc k) b = Some (solved, c, k')"
          "(if solved then Some (Some c) else rec quit now k' c) = Some r"
        by (auto split: bind_splits)
      show ?thesis
      proof (cases solved)
        case True
        with s(1) obtain n where "meets (attempt now (Suc k) b n)" "c = mined (attempt now (Suc k) b n)"
          by (metis solveBlock_True)
        moreover have "r = Some c" using True s(2) by simp
        ultimately show ?thesis unfolding found_def attempt_def by (metis option.inject)
      next
        case unsolved: False
        then have "\<exists>b' k'. solveBlock quit now (Suc k) b = Some (False, b', k')" using s(1) by simp
        then obtain n where "undecided quit now (Suc k) b n" "quit (Suc k + n)"
          using solveBlock_outcomes [of quit now "Suc k" b] by blast
        then have "c = before now (Suc k) b n" using solveBlock_decided [of quit now "Suc k" b n] s(1) by simp
        then have "c = b \<or> (\<exists>nonce t. c = with_nonce nonce t b)" by (auto simp: before_def attempt_def)
        moreover have "found c r" using unsolved s(2) IH by simp
        ultimately show ?thesis by (auto simp: found_def)
      qed
    qed
  qed
  then show ?thesis by (simp add: found_def)
qed

lemma easy_block_solved:
  "\<not> quit k \<Longrightarrow> solveBlock quit now k easy_block = Some (True, mined (attempt now k easy_block 0), Suc k)"
  using solveBlock_decided [of quit now k easy_block 0] easy_block_meets by (simp add: undecided_def)

theorem solveBlock_found_witness:
  "\<exists>b' k' h. solveBlock (\<lambda>_. False) (\<lambda>_. 7) 0 easy_block = Some (True, b', k') \<and>
     b_Hash b' = Some h \<and> Block_CalculateHash b' = Inr (rev h)"
  using solveBlock_found [OF easy_block_solved [of "\<lambda>_. False" 0 "\<lambda>_. 7"]] easy_block_solved [of "\<lambda>_. False" 0 "\<lambda>_. 7"]
  by auto

theorem generateBlocks_result_witness:
  "generateBlocks (\<lambda>i. 5 \<le> i) (\<lambda>_. 7) 0 easy_block = Some (Some (mined (attempt (\<lambda>_. 7) 1 easy_block 0)))"
proof -
  have "5 \<le> j" if "i \<le> j" "5 \<le> i" for i j :: nat using that by simp
  from generateBlocks_result [of "\<lambda>i. 5 \<le> i", OF this]
  show ?thesis using easy_block_solved [of "\<lambda>i. 5 \<le> i" 1 "\<lambda>_. 7"] by simp
qed

end
