(* ===== verification/Hex.thy ===== *)
theory Hex
  imports Words
begin

text \<open>
  The standard library's \<open>encoding/hex\<close>: \<open>EncodeToString\<close>, which prints hashes, and
  \<open>DecodeString\<close>, which reads the block identifiers given on the command line.
\<close>

definition hex_digits :: string where
  "hex_digits = ''0123456789abcdef''"

definition hex_of_byte :: "u8 \<Rightarrow> string" where
  "hex_of_byte b = [hex_digits ! (unat b div 16), hex_digits ! (unat b mod 16)]"

definition hex_encode :: "bytes \<Rightarrow> string" where
  "hex_encode bs = concat (map hex_of_byte bs)"

text \<open>The value of a digit of either case.\<close>

definition hex_value :: "char \<Rightarrow> nat option" where
  "hex_value c =
     (let n = (of_char c :: nat) in
      if 48 \<le> n \<and> n \<le> 57 then Some (n - 48)
      else if 97 \<le> n \<and> n \<le> 102 then Some (n - 87)
      else if 65 \<le> n \<and> n \<le> 70 then Some (n - 55) else None)"

fun hex_decode :: "string \<Rightarrow> bytes result" where
  "hex_decode [] = Inr []"
| "hex_decode [c] =
     (case hex_value c of None \<Rightarrow> Inl ''encoding/hex: invalid byte'' | Some _ \<Rightarrow> Inl ''encoding/hex: odd length hex string'')"
| "hex_decode (c # d # cs) =
     (case (hex_value c, hex_value d) of
        (Some hi, Some lo) \<Rightarrow>
          (case hex_decode cs of Inl e \<Rightarrow> Inl e | Inr bs \<Rightarrow> Inr (of_nat (16 * hi + lo) # bs))
      | _ \<Rightarrow> Inl ''encoding/hex: invalid byte'')"

lemma hex_value_digit:
  assumes "n < 16"
  shows "hex_value (hex_digits ! n) = Some n"
proof -
  have "\<forall>n\<in>set [0..<16]. hex_value (hex_digits ! n) = Some n"
    by (simp add: hex_digits_def hex_value_def upt_conv_Cons nth_Cons')
  then show ?thesis using assms by simp
qed

lemma hex_decode_byte:
  "hex_decode (hex_of_byte b @ cs) = (case hex_decode cs of Inl e \<Rightarrow> Inl e | Inr bs \<Rightarrow> Inr (b # bs))"
proof -
  have "unat b div 16 < 16" using unat_byte_less [of b] by simp
  moreover have "of_nat (16 * (unat b div 16) + unat b mod 16) = b" by simp
  ultimately show ?thesis
    by (simp add: hex_of_byte_def hex_value_digit del: mult_div_mod_eq split: sum.split)
qed

lemma hex_decode_encode: "hex_decode (hex_encode bs) = Inr bs"
  by (induction bs) (simp_all add: hex_encode_def hex_decode_byte)

lemma length_hex_encode: "length (hex_encode bs) = 2 * length bs"
  by (induction bs) (simp_all add: hex_encode_def hex_of_byte_def)

lemma hex_digit_value_less: "hex_value c = Some n \<Longrightarrow> n < 16"
  by (auto simp: hex_value_def Let_def split: if_splits)

end
