(* ===== verification/ChainState.thy ===== *)
theory ChainState
  imports Blocks Hex
begin

text \<open>
  blockchain/blockheader.go, blockchain/chain.go, blockchain/genesis.go and the micro and
  key blocks of blockchain/block.go: the header of a micro block, its serialized form and
  its identifier, the rows of the block index, and the genesis blocks.

  The \<open>chain\<close> package that these files import is not in the tree; of it only \<open>HashSize\<close>
  and \<open>Hash\<close>, an array of that many bytes, are used, and chain.go declares both. A \<open>Hash\<close>
  is a list of 32 bytes. A \<open>time.Time\<close> is its \<open>Unix()\<close> second count, an \<open>int64\<close>.
  \<open>readElements\<close>, the inverse of \<open>writeElements\<close>, is not in the tree, so it is an argument.
\<close>

section \<open>Data\<close>

definition HashSize :: nat where
  "HashSize = 32"

definition MaxBlockHeaderPayload :: nat where
  "MaxBlockHeaderPayload = 12 + HashSize * 2"

record MicroHeader =
  mh_Version :: u32
  mh_PrevBlock :: bytes
  mh_MerkleRoot :: bytes
  mh_Timestamp :: u64
  mh_Bits :: u32

record MicroBlock =
  mb_Header :: MicroHeader
  mb_Payload :: "Transaction list"
  mb_PayRoll :: "string list"
  mb_PubKey :: string
  mb_Hash :: bytes
  mb_Signature :: string

record KeyBlock =
  kb_Nonce :: u64
  kb_Timestamp :: u64
  kb_Root :: bytes
  kb_Parent :: bytes
  kb_PubKey :: string
  kb_Hash :: bytes

type_synonym blockStatus = u8

definition statusNone :: blockStatus where
  "statusNone = 0"

section \<open>Operations\<close>

definition NewBlockHeader :: "u64 \<Rightarrow> u32 \<Rightarrow> bytes \<Rightarrow> bytes \<Rightarrow> u32 \<Rightarrow> MicroHeader" where
  "NewBlockHeader now version prevBlockHash merkleRootHash bits =
     \<lparr>mh_Version = version, mh_PrevBlock = prevBlockHash, mh_MerkleRoot = merkleRootHash,
      mh_Timestamp = now, mh_Bits = bits\<rparr>"

definition writeBlockHeader :: "'w writer \<Rightarrow> MicroHeader \<Rightarrow> (binaryFreeList \<times> 'w, go_error option) prog" where
  "writeBlockHeader wr bh =
     (let sec = ucast (mh_Timestamp bh) :: u32 in
      writeElements wr [ElemUint32 (mh_Version bh), ElemHash (mh_PrevBlock bh), ElemHash (mh_MerkleRoot bh),
        ElemUint32 sec, ElemUint32 (mh_Bits bh)])"

definition Serialize :: "'w writer \<Rightarrow> MicroBlock \<Rightarrow> (binaryFreeList \<times> 'w, go_error option) prog" where
  "Serialize wr b = writeBlockHeader wr (mb_Header b)"

text \<open>
  \<open>chain.Hash(buf.Bytes())\<close> converts a slice to an array: the language keeps the first
  \<open>HashSize\<close> bytes, and panics when there are fewer. Nothing is hashed.
\<close>

definition BlockHash :: "MicroHeader \<Rightarrow> (binaryFreeList, bytes) prog" where
  "BlockHash h = (\<lambda>l.
     case writeBlockHeader buffer_write h (l, []) of
       Returns err (l', buf) \<Rightarrow>
         if HashSize \<le> length buf then Returns (take HashSize buf) l' else Panics SliceBounds l'
     | Panics p (l', buf) \<Rightarrow> Panics p l'
     | Blocks (l', buf) \<Rightarrow> Blocks l')"

text \<open>\<open>String\<close> swaps the array from both ends, then prints it.\<close>

definition Hash_String :: "bytes \<Rightarrow> string" where
  "Hash_String hash =
     hex_encode (foldl (\<lambda>h i. h[i := h ! (HashSize - 1 - i), HashSize - 1 - i := h ! i]) hash [0..<HashSize div 2])"

type_synonym 'h reader = "bytes \<Rightarrow> 'h result \<times> bytes"

text \<open>
  \<open>readBlock\<close> fills the header of the receiver, which in \<open>deserializeBlockRow\<close> is a zero
  micro block.
\<close>

definition zero_micro :: MicroBlock where
  "zero_micro =
     \<lparr>mb_Header = \<lparr>mh_Version = 0, mh_PrevBlock = replicate HashSize 0, mh_MerkleRoot = replicate HashSize 0,
                   mh_Timestamp = 0, mh_Bits = 0\<rparr>,
      mb_Payload = [], mb_PayRoll = [], mb_PubKey = [], mb_Hash = replicate HashSize 0, mb_Signature = []\<rparr>"

definition Deserialize :: "MicroHeader reader \<Rightarrow> MicroBlock \<Rightarrow> bytes \<Rightarrow> MicroBlock result \<times> bytes" where
  "Deserialize readElements b r =
     (case readElements r of
        (Inl err, r') \<Rightarrow> (Inl err, r')
      | (Inr h, r') \<Rightarrow> (Inr (b\<lparr>mb_Header := h\<rparr>), r'))"

definition deserializeBlockRow :: "MicroHeader reader \<Rightarrow> bytes \<Rightarrow> (MicroBlock \<times> blockStatus) result" where
  "deserializeBlockRow readElements blockRow =
     (case Deserialize readElements zero_micro blockRow of
        (Inl err, _) \<Rightarrow> Inl err
      | (Inr block, []) \<Rightarrow> Inl ''EOF''
      | (Inr block, statusByte # _) \<Rightarrow> Inr (block, statusByte))"

section \<open>The genesis blocks\<close>

definition genesisBlock0Hash :: bytes where
  "genesisBlock0Hash =
    [0x8d, 0x15, 0x7a, 0xca, 0x50, 0x1e, 0x91, 0x61,
     0x68, 0x9a, 0x05, 0x61, 0xe0, 0x78, 0x2e, 0x13,
     0xe9, 0x41, 0xc0, 0xec, 0x0e, 0x25, 0x28, 0x2c,
     0x88, 0xd7, 0xbe, 0xcd, 0x5c, 0x94, 0xb6, 0x56]"

definition genesisBlock1Hash :: bytes where
  "genesisBlock1Hash =
    [0x8d, 0x15, 0x7a, 0xca, 0x50, 0x1e, 0x91, 0x61,
     0x68, 0x9a, 0x05, 0x61, 0xe0, 0x78, 0x2e, 0x13,
     0xe9, 0x41, 0xc0, 0xec, 0x0e, 0x25, 0x28, 0x2c,
     0x88, 0xd7, 0xbe, 0xcd, 0x5c, 0x94, 0xb6, 0x56]"

definition genesisKeyBlockHash :: bytes where
  "genesisKeyBlockHash =
    [0x8d, 0x15, 0x7a, 0xca, 0x50, 0x1e, 0x91, 0x61,
     0x68, 0x9a, 0x05, 0x61, 0xe0, 0x78, 0x2e, 0x13,
     0xe9, 0x41, 0xc0, 0xec, 0x0e, 0x25, 0x28, 0x2c,
     0x88, 0xd7, 0xbe, 0xcd, 0x5c, 0x94, 0xb6, 0x56]"

definition genesisPubKey :: string where
  "genesisPubKey = ''b2aa3a0faf75e5b09f048a30361a41d380c999531dd64123ba699fa4b9bcdcb7''"

definition GetGenesisBlock0 :: MicroBlock where
  "GetGenesisBlock0 =
     \<lparr>mb_Header = \<lparr>mh_Version = 1, mh_PrevBlock = replicate HashSize 0, mh_MerkleRoot = replicate HashSize 0,
                   mh_Timestamp = 0x60d5a920, mh_Bits = 0x1d00ffff\<rparr>,
      mb_Payload = [], mb_PayRoll = [], mb_PubKey = genesisPubKey, mb_Hash = genesisBlock0Hash, mb_Signature = []\<rparr>"

definition GetGenesisBlock1 :: MicroBlock where
  "GetGenesisBlock1 =
     \<lparr>mb_Header = \<lparr>mh_Version = 1, mh_PrevBlock = genesisBlock0Hash, mh_MerkleRoot = replicate HashSize 0,
                   mh_Timestamp = 0x60d5a920, mh_Bits = 0x1d00ffff\<rparr>,
      mb_Payload = [], mb_PayRoll = [], mb_PubKey = genesisPubKey, mb_Hash = genesisBlock1Hash, mb_Signature = []\<rparr>"

definition GetGenesisKeyBlock :: KeyBlock where
  "GetGenesisKeyBlock =
     \<lparr>kb_Nonce = 12345, kb_Timestamp = 0x60d5a920, kb_Root = genesisBlock0Hash, kb_Parent = genesisBlock1Hash,
      kb_PubKey = genesisPubKey, kb_Hash = genesisKeyBlockHash\<rparr>"

section \<open>The serialized header\<close>

definition header_ok :: "MicroHeader \<Rightarrow> bool" where
  "header_ok h \<longleftrightarrow> length (mh_PrevBlock h) = HashSize \<and> length (mh_MerkleRoot h) = HashSize"

definition header_bytes :: "MicroHeader \<Rightarrow> bytes" where
  "header_bytes h =
     le_bytes 4 (mh_Version h) @ mh_PrevBlock h @ mh_MerkleRoot h @
     le_bytes 4 (ucast (mh_Timestamp h) :: u32) @ le_bytes 4 (mh_Bits h)"

lemma length_header_bytes: "header_ok h \<Longrightarrow> length (header_bytes h) = MaxBlockHeaderPayload"
  by (simp add: header_ok_def header_bytes_def MaxBlockHeaderPayload_def HashSize_def)

lemma writeBlockHeader_buffer:
  assumes "freelist_ok l"
  shows "\<exists>l'. writeBlockHeader buffer_write h (l, w) = Returns None (l', w @ header_bytes h) \<and> freelist_ok l'"
  using buffer.writeElements_contents [OF assms,
      of "[ElemUint32 (mh_Version h), ElemHash (mh_PrevBlock h), ElemHash (mh_MerkleRoot h),
           ElemUint32 (ucast (mh_Timestamp h)), ElemUint32 (mh_Bits h)]" w]
  by (auto simp: writeBlockHeader_def header_bytes_def)

lemma BlockHash_buffer:
  assumes "freelist_ok l" and "header_ok h"
  shows "\<exists>l'. BlockHash h l = Returns (take HashSize (header_bytes h)) l' \<and> freelist_ok l'"
  using writeBlockHeader_buffer [OF assms(1), of h "[]"] length_header_bytes [OF assms(2)]
  by (auto simp: BlockHash_def MaxBlockHeaderPayload_def)

lemma take_header_bytes:
  "header_ok h \<Longrightarrow> take HashSize (header_bytes h) = le_bytes 4 (mh_Version h) @ take 28 (mh_PrevBlock h)"
  by (simp add: header_bytes_def header_ok_def HashSize_def)

section \<open>Reading a header back\<close>

text \<open>
  What the row reader needs of \<open>readElements\<close>: it reads what \<open>writeBlockHeader\<close> wrote, and
  leaves the rest. The seconds were written in 32 bits.
\<close>

locale header_reader =
  fixes readElements :: "MicroHeader reader"
  assumes reads_header:
    "header_ok h \<Longrightarrow> readElements (header_bytes h @ rest) =
       (Inr (h\<lparr>mh_Timestamp := ucast (ucast (mh_Timestamp h) :: u32)\<rparr>), rest)"
begin

lemma row_roundtrip:
  assumes "header_ok h"
  shows "deserializeBlockRow readElements (header_bytes h @ [status]) =
    Inr (zero_micro\<lparr>mb_Header := h\<lparr>mh_Timestamp := ucast (ucast (mh_Timestamp h) :: u32)\<rparr>\<rparr>, status)"
  using reads_header [OF assms, of "[status]"] by (simp add: deserializeBlockRow_def Deserialize_def)

lemma row_without_status:
  assumes "header_ok h"
  shows "deserializeBlockRow readElements (header_bytes h) = Inl ''EOF''"
  using reads_header [OF assms, of "[]"] by (simp add: deserializeBlockRow_def Deserialize_def)

end

text \<open>A reader built from the package's own \<open>Uint32\<close> satisfies the contract.\<close>

definition read_u32 :: "bytes \<Rightarrow> u32 result \<times> bytes" where
  "read_u32 r =
     (case Uint32 LittleEndian ([], r) of
        Returns v (_, r') \<Rightarrow> (v, r') | Panics _ (_, r') \<Rightarrow> (Inl [], r') | Blocks (_, r') \<Rightarrow> (Inl [], r'))"

definition read_header :: "MicroHeader reader" where
  "read_header r =
     (case read_u32 r of (Inl e, r) \<Rightarrow> (Inl e, r) | (Inr v, r) \<Rightarrow>
      if length r < 2 * HashSize then (Inl ''unexpected EOF'', []) else
      let prev = take HashSize r; merkle = take HashSize (drop HashSize r); r = drop (2 * HashSize) r in
      case read_u32 r of (Inl e, r) \<Rightarrow> (Inl e, r) | (Inr sec, r) \<Rightarrow>
      case read_u32 r of (Inl e, r) \<Rightarrow> (Inl e, r) | (Inr bits, r) \<Rightarrow>
      (Inr \<lparr>mh_Version = v, mh_PrevBlock = prev, mh_MerkleRoot = merkle, mh_Timestamp = ucast sec, mh_Bits = bits\<rparr>, r))"

lemma read_u32_put: "read_u32 (le_bytes 4 v @ rest) = (Inr v, rest)"
  using read_fixed_returns [OF freelist_ok_Nil, of 4 "get_order LittleEndian :: bytes \<Rightarrow> u32" "le_bytes 4 v @ rest"]
  by (auto simp: read_u32_def Uint32_def)

interpretation own_reader: header_reader read_header
proof unfold_locales
  fix h rest
  assume "header_ok h"
  then have len: "length (mh_PrevBlock h) = 32" "length (mh_MerkleRoot h) = 32"
    by (simp_all add: header_ok_def HashSize_def)
  have "read_u32 (header_bytes h @ rest) =
      (Inr (mh_Version h), mh_PrevBlock h @ mh_MerkleRoot h @
        le_bytes 4 (ucast (mh_Timestamp h) :: u32) @ le_bytes 4 (mh_Bits h) @ rest)"
    by (simp add: header_bytes_def read_u32_put)
  then show "read_header (header_bytes h @ rest) =
       (Inr (h\<lparr>mh_Timestamp := ucast (ucast (mh_Timestamp h) :: u32)\<rparr>), rest)"
    by (simp add: read_header_def HashSize_def len read_u32_put Let_def)
qed

section \<open>Properties\<close>

text \<open>
  \<open>BlockHash\<close> is no hash of the header. It returns the first 32 bytes of the serialized
  header, which are the version and 28 of the 32 bytes of the previous hash, so headers
  that differ only in Merkle root, timestamp, bits or the last four bytes of the previous
  hash have the same identifier.
\<close>

theorem BlockHash_prefix:
  assumes "freelist_ok l" and "header_ok h"
  shows "\<exists>l'. BlockHash h l = Returns (le_bytes 4 (mh_Version h) @ take 28 (mh_PrevBlock h)) l' \<and> freelist_ok l'"
  using BlockHash_buffer [OF assms] by (simp add: take_header_bytes [OF assms(2)])

lemma genesis_header_ok: "header_ok (mb_Header GetGenesisBlock0)" "header_ok (mb_Header GetGenesisBlock1)"
  by (simp_all add: header_ok_def GetGenesisBlock0_def GetGenesisBlock1_def genesisBlock0Hash_def HashSize_def)

theorem BlockHash_prefix_witness:
  "\<exists>l'. BlockHash (mb_Header GetGenesisBlock1) [] = Returns ([1, 0, 0, 0] @ take 28 genesisBlock0Hash) l'"
proof -
  have "le_bytes 4 (1 :: u32) = [1, 0, 0, 0]" by (simp add: le_bytes_4)
  then show ?thesis
    using BlockHash_prefix [OF freelist_ok_Nil genesis_header_ok(2)]
    by (auto simp: GetGenesisBlock1_def)
qed

text \<open>
  A row of the block index reads back. Serializing a header with 32-byte hashes and
  appending a status byte gives \<open>MaxBlockHeaderPayload + 1\<close> bytes, from which
  \<open>deserializeBlockRow\<close> returns the header (its timestamp modulo \<open>2 ^ 32\<close> seconds) and the
  status; without the status byte it fails with \<open>EOF\<close>.
\<close>

theorem block_row_roundtrip:
  assumes "freelist_ok l" and "header_ok (mb_Header b)"
  shows "\<exists>l' row. Serialize buffer_write b (l, []) = Returns None (l', row) \<and> freelist_ok l' \<and>
    length row = MaxBlockHeaderPayload \<and>
    deserializeBlockRow read_header (row @ [status]) =
      Inr (zero_micro\<lparr>mb_Header := (mb_Header b)\<lparr>mh_Timestamp := ucast (ucast (mh_Timestamp (mb_Header b)) :: u32)\<rparr>\<rparr>, status) \<and>
    deserializeBlockRow read_header row = Inl ''EOF''"
proof -
  obtain l' where "Serialize buffer_write b (l, []) = Returns None (l', header_bytes (mb_Header b))" "freelist_ok l'"
    using writeBlockHeader_buffer [OF assms(1), of "mb_Header b" "[]"] by (auto simp: Serialize_def)
  then show ?thesis
    using length_header_bytes [OF assms(2)]
      own_reader.row_roundtrip [OF assms(2)] own_reader.row_without_status [OF assms(2)] by blast
qed

theorem block_row_roundtrip_witness:
  "\<exists>l' row. Serialize buffer_write GetGenesisBlock0 ([], []) = Returns None (l', row) \<and>
     deserializeBlockRow read_header (row @ [3]) =
       Inr (zero_micro\<lparr>mb_Header := mb_Header GetGenesisBlock0\<rparr>, 3)"
proof -
  have "(mb_Header GetGenesisBlock0)\<lparr>mh_Timestamp := ucast (ucast (mh_Timestamp (mb_Header GetGenesisBlock0)) :: u32)\<rparr>
      = mb_Header GetGenesisBlock0"
    by (simp add: GetGenesisBlock0_def)
  then show ?thesis
    using block_row_roundtrip [OF freelist_ok_Nil genesis_header_ok(1), of 3] by auto
qed

lemma genesis_hash_differs:
  "\<exists>id l'. BlockHash (mb_Header GetGenesisBlock0) [] = Returns id l' \<and> id \<noteq> mb_Hash GetGenesisBlock0"
proof -
  have "take HashSize (header_bytes (mb_Header GetGenesisBlock0)) = le_bytes 4 (1 :: u32) @ replicate 28 0"
    by (simp add: take_header_bytes [OF genesis_header_ok(1)]) (simp add: GetGenesisBlock0_def HashSize_def)
  moreover have "le_bytes 4 (1 :: u32) @ replicate 28 0 \<noteq> mb_Hash GetGenesisBlock0"
    by (simp add: le_bytes_4 GetGenesisBlock0_def genesisBlock0Hash_def)
  ultimately show ?thesis
    using BlockHash_buffer [OF freelist_ok_Nil genesis_header_ok(1)] by auto
qed

text \<open>
  The genesis constants do not describe a chain. The second genesis block has the same
  hash as the first, so its previous block is itself, the key block's root, parent and own
  hash are all that same hash, and the identifier that \<open>initChainState\<close> recomputes for the
  first genesis block is not the one it expects.
\<close>

theorem genesis_chain_degenerate:
  "mh_PrevBlock (mb_Header GetGenesisBlock1) = mb_Hash GetGenesisBlock1 \<and>
   mb_Hash GetGenesisBlock0 = mb_Hash GetGenesisBlock1 \<and>
   kb_Root GetGenesisKeyBlock = kb_Hash GetGenesisKeyBlock \<and>
   kb_Parent GetGenesisKeyBlock = kb_Hash GetGenesisKeyBlock \<and>
   (\<exists>id l'. BlockHash (mb_Header GetGenesisBlock0) [] = Returns id l' \<and> id \<noteq> mb_Hash GetGenesisBlock0)"
proof (intro conjI)
  show "\<exists>id l'. BlockHash (mb_Header GetGenesisBlock0) [] = Returns id l' \<and> id \<noteq> mb_Hash GetGenesisBlock0"
    by (rule genesis_hash_differs)
qed (simp_all add: GetGenesisBlock0_def GetGenesisBlock1_def GetGenesisKeyBlock_def
      genesisBlock0Hash_def genesisBlock1Hash_def genesisKeyBlockHash_def)

end
