(* ===== verification/BlockStore.thy ===== *)
theory BlockStore
  imports Blocks ChainState "HOL-Library.AList"
begin

text \<open>
  service/struct.go, \<open>BlockDB\<close>: the chain on disk. The bbolt bucket and the network codec
  are third-party code, so they are the fields of an environment \<open>db_env\<close>; what the code
  relies on about them is the locale \<open>storage\<close>. A bucket is a value of an abstract type, an
  encoded block another one: the code only passes them on. \<open>latestMutex\<close> is a flag, so that
  locking it twice is visible.
\<close>

section \<open>Environment and state\<close>

datatype Message = MsgHello NewLeaderHelloBlock | MsgMicro MicroBlock | MsgOther

text \<open>
  \<open>marshal\<close> and \<open>unmarshal\<close> are \<open>network.Marshal\<close> and \<open>network.Unmarshal\<close>; \<open>commit_error\<close> is how
  a read-write transaction that would leave that bucket ends; \<open>time_at n\<close> is the \<open>n\<close>-th reading
  of the clock; \<open>micro_Copy\<close> stands for the \<open>Copy\<close> that \<open>BuildIndex\<close> calls on a \<open>MicroBlock\<close>,
  which the tree does not have.
\<close>

record ('k, 'v) db_env =
  bucket_get :: "'k \<Rightarrow> bytes \<Rightarrow> 'v option"
  bucket_put :: "'k \<Rightarrow> bytes \<Rightarrow> 'v \<Rightarrow> go_error option \<times> 'k"
  bucket_each :: "'k \<Rightarrow> (bytes \<times> 'v) list"
  commit_error :: "'k \<Rightarrow> go_error option"
  marshal :: "NewLeaderHelloBlock \<Rightarrow> 'v result"
  unmarshal :: "'v \<Rightarrow> Message result"
  newCollection :: "string \<Rightarrow> Collection"
  time_at :: "nat \<Rightarrow> u64"
  micro_Copy :: "MicroBlock \<Rightarrow> NewLeaderHelloBlock"

text \<open>\<open>bucket\<close> is \<open>None\<close> when the database has no bucket of that name; \<open>clock_reads\<close> counts readings.\<close>

record 'k BlockDB =
  bucket :: "'k option"
  latestBlockID :: slice
  latestMutex :: bool
  blockIndexMap :: "u64 \<rightharpoonup> slice"
  clock_reads :: nat

definition NewBlockDB :: "'k option \<Rightarrow> 'k BlockDB" where
  "NewBlockDB bk = \<lparr>bucket = bk, latestBlockID = None, latestMutex = False, blockIndexMap = Map.empty, clock_reads = 0\<rparr>"

definition tick :: "'k BlockDB \<Rightarrow> 'k BlockDB" where
  "tick db = db\<lparr>clock_reads := Suc (clock_reads db)\<rparr>"

section \<open>Operations\<close>

definition storeToTx :: "('k, 'v) db_env \<Rightarrow> NewLeaderHelloBlock option \<Rightarrow> ('k option, slice result) prog" where
  "storeToTx E p =
     bnd (deref p) (\<lambda>block.
     case marshal E block of
       Inl err \<Rightarrow> ret (Inl err)
     | Inr val \<Rightarrow>
         bnd (gets id) (\<lambda>bk. bnd (deref bk) (\<lambda>k.
         case bucket_put E k (slice_bytes (hb_Hash block)) val of
           (Some err, k') \<Rightarrow> seqp (modifies (\<lambda>_. Some k')) (ret (Inl err))
         | (None, k') \<Rightarrow> seqp (modifies (\<lambda>_. Some k')) (ret (Inr (hb_Hash block))))))"

text \<open>The copy that \<open>getFromTx\<close> returns is stamped with the time of the copy.\<close>

definition copy_hello :: "('k, 'v) db_env \<Rightarrow> NewLeaderHelloBlock \<Rightarrow> ('k BlockDB, NewLeaderHelloBlock) prog" where
  "copy_hello E hb =
     bnd (gets clock_reads) (\<lambda>n. seqp (modifies tick) (Hello_Copy (newCollection E) (time_at E n) (Some hb)))"

definition getFromTx :: "('k, 'v) db_env \<Rightarrow> slice \<Rightarrow> ('k BlockDB, NewLeaderHelloBlock option result) prog" where
  "getFromTx E sbID =
     (case sbID of
        None \<Rightarrow> ret (Inl ''cannot look up block with ID == nil'')
      | Some key \<Rightarrow>
          bnd (gets bucket) (\<lambda>bk. bnd (deref bk) (\<lambda>k.
          case bucket_get E k key of
            None \<Rightarrow> ret (Inr None)
          | Some val \<Rightarrow>
              (case unmarshal E val of
                 Inl err \<Rightarrow> ret (Inl err)
               | Inr (MsgHello hb) \<Rightarrow> bnd (copy_hello E hb) (\<lambda>c. ret (Inr (Some c)))
               | Inr _ \<Rightarrow> panics TypeAssertion))))"

primrec store_all :: "('k, 'v) db_env \<Rightarrow> NewLeaderHelloBlock option list \<Rightarrow> slice list \<Rightarrow>
    ('k option, slice list \<times> go_error option) prog" where
  "store_all E [] acc = ret (acc, None)"
| "store_all E (block # blocks) acc =
     bnd (storeToTx E block) (\<lambda>r.
     case r of
       Inl err \<Rightarrow> ret (acc, Some err)
     | Inr blockID \<Rightarrow> store_all E blocks (acc @ [blockID]))"

text \<open>A read-write transaction: the bucket changes only if the body and the commit succeed.\<close>

definition StoreBlocks :: "('k, 'v) db_env \<Rightarrow> NewLeaderHelloBlock option list \<Rightarrow>
    ('k BlockDB, slice list \<times> go_error option) prog" where
  "StoreBlocks E blocks = (\<lambda>db.
     case store_all E blocks [] (bucket db) of
       Returns (ids, None) bk \<Rightarrow>
         (case Option.bind bk (commit_error E) of
            None \<Rightarrow> Returns (ids, None) (db\<lparr>bucket := bk\<rparr>)
          | Some err \<Rightarrow> Returns (ids, Some err) db)
     | Returns (ids, Some err) bk \<Rightarrow> Returns (ids, Some err) db
     | Panics p bk \<Rightarrow> Panics p db
     | Blocks bk \<Rightarrow> Blocks db)"

definition Store :: "('k, 'v) db_env \<Rightarrow> NewLeaderHelloBlock option \<Rightarrow> ('k BlockDB, slice) prog" where
  "Store E block =
     bnd (StoreBlocks E [block]) (\<lambda>(ids, err). ret (case ids of [] \<Rightarrow> None | i # _ \<Rightarrow> i))"

definition GetGenesisID :: "('k BlockDB, slice) prog" where
  "GetGenesisID = gets (\<lambda>db. case blockIndexMap db 0 of None \<Rightarrow> None | Some blockID \<Rightarrow> blockID)"

definition GetByID :: "('k, 'v) db_env \<Rightarrow> slice \<Rightarrow> ('k BlockDB, NewLeaderHelloBlock option) prog" where
  "GetByID E bID =
     (case bID of
        None \<Rightarrow> ret None
      | Some _ \<Rightarrow> bnd (getFromTx E bID) (\<lambda>r. ret (case r of Inl err \<Rightarrow> None | Inr block \<Rightarrow> block)))"

abbreviation put_latestMutex :: "bool \<Rightarrow> 'k BlockDB \<Rightarrow> 'k BlockDB" where
  "put_latestMutex b db \<equiv> db\<lparr>latestMutex := b\<rparr>"

definition GetLatest :: "('k, 'v) db_env \<Rightarrow> ('k BlockDB, NewLeaderHelloBlock option) prog" where
  "GetLatest E =
     seqp (acquire latestMutex put_latestMutex)
       (bnd (gets latestBlockID) (\<lambda>i. bnd (GetByID E i) (\<lambda>latest. seqp (release put_latestMutex) (ret latest))))"

definition UpdateLatest :: "NewLeaderHelloBlock option \<Rightarrow> ('k BlockDB, unit) prog" where
  "UpdateLatest p =
     seqp (acquire latestMutex put_latestMutex)
       (bnd (deref p) (\<lambda>block.
        seqp (modifies (\<lambda>db. db\<lparr>latestBlockID := hb_Hash block,
               blockIndexMap := (blockIndexMap db)(hb_Index block \<mapsto> hb_Hash block)\<rparr>))
          (release put_latestMutex)))"

primrec index_each :: "('k, 'v) db_env \<Rightarrow> (bytes \<times> 'v) list \<Rightarrow> ('k BlockDB, go_error option) prog" where
  "index_each E [] = ret None"
| "index_each E (kv # kvs) =
     (case unmarshal E (snd kv) of
        Inl err \<Rightarrow> ret (Some err)
      | Inr (MsgMicro m) \<Rightarrow> seqp (UpdateLatest (Some (micro_Copy E m))) (index_each E kvs)
      | Inr _ \<Rightarrow> panics TypeAssertion)"

definition BuildIndex :: "('k, 'v) db_env \<Rightarrow> ('k BlockDB, go_error option) prog" where
  "BuildIndex E =
     bnd (gets bucket) (\<lambda>bk.
     case bk of
       None \<Rightarrow> ret (Some ''Missing bucket'')
     | Some k \<Rightarrow> index_each E (bucket_each E k))"

definition GetBlockByIndex :: "('k, 'v) db_env \<Rightarrow> u64 \<Rightarrow> ('k BlockDB, NewLeaderHelloBlock option result) prog" where
  "GetBlockByIndex E blockIndex =
     bnd (gets (\<lambda>db. blockIndexMap db blockIndex)) (\<lambda>i.
     case i of
       None \<Rightarrow> ret (Inl ''no block found'')
     | Some blockID \<Rightarrow> bnd (GetByID E blockID) (\<lambda>block. ret (Inr block)))"

section \<open>What a copy of a block keeps\<close>

text \<open>
  The contents of a leader's block that survive the codec (which does not tell nil and empty
  slices apart, and drops the nil entries of a slice of pointers) and \<open>Copy\<close> (which restamps the
  de-fork block and doubles the signatures): all its own fields, and who mined its elected blocks.
\<close>

definition miners :: "Block option list \<Rightarrow> string list" where
  "miners ps = List.map_filter (map_option (\<lambda>p. bh_PublicKey (b_Header p))) ps"

lemma miners_simps [simp]:
  "miners [] = []" "miners (None # ps) = miners ps" "miners (Some p # ps) = bh_PublicKey (b_Header p) # miners ps"
  by (simp_all add: miners_def List.map_filter_def)

definition elected :: "NewLeaderHelloBlock \<Rightarrow> string list option" where
  "elected b = map_option (\<lambda>d. miners (df_OrderBlocks d)) (hb_Block b)"

definition same_block :: "NewLeaderHelloBlock \<Rightarrow> NewLeaderHelloBlock \<Rightarrow> bool" where
  "same_block a b \<longleftrightarrow>
     hb_Index a = hb_Index b \<and> hb_Version a = hb_Version b \<and> hb_Timestamp a = hb_Timestamp b \<and>
     slice_bytes (hb_PrevBlock a) = slice_bytes (hb_PrevBlock b) \<and>
     slice_bytes (hb_MerkleRoot a) = slice_bytes (hb_MerkleRoot b) \<and>
     hb_PublicKey a = hb_PublicKey b \<and> slice_bytes (hb_Hash a) = slice_bytes (hb_Hash b) \<and>
     hb_Addresses a = hb_Addresses b \<and> hb_Transactions a = hb_Transactions b \<and> elected a = elected b"

lemma same_block_refl [simp]: "same_block b b"
  by (simp add: same_block_def)

lemma same_block_sym: "same_block a b \<Longrightarrow> same_block b a"
  by (simp add: same_block_def)

lemma same_block_trans: "same_block a b \<Longrightarrow> same_block b c \<Longrightarrow> same_block a c"
  by (simp add: same_block_def)

lemma same_block_hash: "same_block a b \<Longrightarrow> Hello_CalculateHash a = Hello_CalculateHash b"
  by (simp add: same_block_def Hello_CalculateHash_eq hello_preimage_def)

text \<open>The blocks that \<open>Copy\<close> can copy.\<close>

definition hello_ok :: "NewLeaderHelloBlock \<Rightarrow> bool" where
  "hello_ok b \<longleftrightarrow>
     (case hb_Block b of
        None \<Rightarrow> False
      | Some d \<Rightarrow> list_all (\<lambda>p. case p of None \<Rightarrow> True | Some q \<Rightarrow> signatures_ok q) (df_OrderBlocks d))"

text \<open>
  A de-fork block with a signed block in it: its copies have nil entries among the signatures,
  and cannot be copied again. A nil entry is no signature.
\<close>

definition copyable :: "Block option \<Rightarrow> bool" where
  "copyable p \<longleftrightarrow> (case p of None \<Rightarrow> True | Some q \<Rightarrow> signatures_ok q)"

definition signatures :: "Collection option list \<Rightarrow> Collection option list" where
  "signatures cs = filter (\<lambda>c. c \<noteq> None) cs"

lemma signatures_simps [simp]:
  "None \<notin> set (signatures cs)" "signatures (signatures cs) = signatures cs" "signatures [] = []"
  "signatures (Some c # cs) = Some c # signatures cs"
  "signatures (replicate n None @ map (\<lambda>k. Some (f k)) ks) = map (\<lambda>k. Some (f k)) ks"
  by (simp_all add: signatures_def filter_map comp_def)

lemma signatures_all [simp]: "None \<notin> set cs \<Longrightarrow> signatures cs = cs"
proof (induction cs)
  case (Cons c cs)
  then show ?case by (cases c) simp_all
qed simp

definition signed :: "Block option \<Rightarrow> bool" where
  "signed p \<longleftrightarrow> (case p of None \<Rightarrow> False | Some q \<Rightarrow> signatures (b_Collections q) \<noteq> [])"

definition signed_order :: "NewLeaderHelloBlock \<Rightarrow> bool" where
  "signed_order b \<longleftrightarrow> (case hb_Block b of None \<Rightarrow> False | Some d \<Rightarrow> list_ex signed (df_OrderBlocks d))"

lemma Block_Copy_signed:
  assumes "copyable p"
  shows "\<exists>q. Block_Copy mk p s = Returns q s \<and> (copyable q \<longleftrightarrow> \<not> signed p) \<and> (signed q \<longleftrightarrow> signed p) \<and>
    map_option (\<lambda>p. bh_PublicKey (b_Header p)) q = map_option (\<lambda>p. bh_PublicKey (b_Header p)) p"
proof (cases p)
  case None
  then show ?thesis by (simp add: prog_simps copyable_def signed_def)
next
  case (Some b)
  with assms have ok: "signatures_ok b" by (simp add: copyable_def)
  then have "signatures (b_Collections b) = b_Collections b" by (simp add: signatures_ok_def)
  moreover have "signers b = [] \<longleftrightarrow> b_Collections b = []" by (simp add: signers_def)
  ultimately show ?thesis
    using Some ok by (cases "b_Collections b = []")
      (auto simp: prog_simps copyable_def signed_def Header_Copy_def signatures_ok_def)
qed

lemma copy_blocks_signed:
  assumes "list_all copyable ps"
  shows "\<exists>qs. copy_blocks mk ps s = Returns qs s \<and> miners qs = miners ps \<and> (None \<in> set qs \<longleftrightarrow> None \<in> set ps) \<and>
    (list_all copyable qs \<longleftrightarrow> \<not> list_ex signed ps) \<and> (list_ex signed qs \<longleftrightarrow> list_ex signed ps)"
  using assms
proof (induction ps)
  case Nil
  then show ?case by (simp add: prog_simps)
next
  case (Cons p ps)
  from Cons.prems Block_Copy_signed [of p mk s] obtain q where
    q: "Block_Copy mk p s = Returns q s" "copyable q \<longleftrightarrow> \<not> signed p" "signed q \<longleftrightarrow> signed p"
      "map_option (\<lambda>p. bh_PublicKey (b_Header p)) q = map_option (\<lambda>p. bh_PublicKey (b_Header p)) p" by auto
  from Cons obtain qs where
    qs: "copy_blocks mk ps s = Returns qs s" "miners qs = miners ps" "None \<in> set qs \<longleftrightarrow> None \<in> set ps"
      "list_all copyable qs \<longleftrightarrow> \<not> list_ex signed ps" "list_ex signed qs \<longleftrightarrow> list_ex signed ps" by auto
  from q(4) have "miners (q # qs) = miners (p # ps)" "None \<in> set (q # qs) \<longleftrightarrow> None \<in> set (p # ps)"
    using qs(2,3) by (cases p; cases q; auto)+
  with q qs show ?case by (simp add: prog_simps del: miners_simps)
qed

lemma copy_blocks_stuck:
  "\<not> list_all copyable ps \<Longrightarrow> copy_blocks mk ps s = Panics NilDereference s"
proof (induction ps)
  case (Cons p ps)
  show ?case
  proof (cases "copyable p")
    case True
    with Block_Copy_signed [OF True, of mk s] Cons show ?thesis by (auto simp: prog_simps)
  next
    case False
    then show ?thesis by (simp add: copyable_def prog_simps split: option.splits)
  qed
qed simp

lemma hello_ok_copyable: "hello_ok b \<longleftrightarrow> (\<exists>d. hb_Block b = Some d \<and> list_all copyable (df_OrderBlocks d))"
  by (simp add: hello_ok_def copyable_def [abs_def] split: option.split)

text \<open>A block without nil among its elected blocks, and one without any nil entry.\<close>

definition full :: "NewLeaderHelloBlock \<Rightarrow> bool" where
  "full b \<longleftrightarrow> (case hb_Block b of None \<Rightarrow> True | Some d \<Rightarrow> None \<notin> set (df_OrderBlocks d))"

definition dense :: "NewLeaderHelloBlock \<Rightarrow> bool" where
  "dense b \<longleftrightarrow> full b \<and> (case hb_Block b of None \<Rightarrow> True | Some d \<Rightarrow> list_all copyable (df_OrderBlocks d))"

lemma dense_hello_ok: "dense b \<Longrightarrow> hb_Block b \<noteq> None \<Longrightarrow> hello_ok b \<and> full b"
  by (auto simp: dense_def hello_ok_copyable)

lemma same_block_nil: "same_block a b \<Longrightarrow> hb_Block a = None \<longleftrightarrow> hb_Block b = None"
  by (cases "hb_Block a"; cases "hb_Block b") (simp_all add: same_block_def elected_def)

lemma full_first:
  assumes "full b" "hb_Block b = Some d" "elected b = Some (k # ks)"
  obtains p ps where "df_OrderBlocks d = Some p # ps" "bh_PublicKey (b_Header p) = k"
  using assms by (cases "df_OrderBlocks d"; cases "hd (df_OrderBlocks d)") (auto simp: full_def elected_def)

lemma Hello_Copy_same:
  assumes "hello_ok b"
  shows "\<exists>c. Hello_Copy mk now (Some b) s = Returns c s \<and> same_block c b \<and> hb_Block c \<noteq> None \<and>
    hb_Hash c = fresh_copy (hb_Hash b) \<and> hb_PrevBlock c = fresh_copy (hb_PrevBlock b) \<and>
    (hello_ok c \<longleftrightarrow> \<not> signed_order b) \<and> (signed_order c \<longleftrightarrow> signed_order b) \<and> (full c \<longleftrightarrow> full b)"
proof -
  obtain d where d: "hb_Block b = Some d" "list_all copyable (df_OrderBlocks d)"
    using assms by (auto simp: hello_ok_copyable)
  from copy_blocks_signed [OF d(2), of mk s] d(1) show ?thesis
    by (auto simp: Hello_Copy_def DeFork_Copy_def prog_simps Let_def NewDeForkBlock_def slice_copy_def
        same_block_def elected_def hello_ok_copyable signed_order_def full_def)
qed

lemma Hello_Copy_stuck:
  "\<not> hello_ok b \<Longrightarrow> Hello_Copy mk now (Some b) s = Panics NilDereference s"
  by (cases "hb_Block b")
    (auto simp: Hello_Copy_def DeFork_Copy_def prog_simps hello_ok_copyable copy_blocks_stuck)

section \<open>What the store relies on\<close>

text \<open>
  A bucket is a map. The codec gives back the contents, without the nil entries of slices of pointers,
  which its format cannot express.
\<close>

locale storage =
  fixes E :: "('k, 'v) db_env"
  assumes put_get: "bucket_put E k key v = (None, k') \<Longrightarrow>
      bucket_get E k' key' = (if key' = key then Some v else bucket_get E k key')"
    and codec: "marshal E b = Inr v \<Longrightarrow>
      \<exists>b'. unmarshal E v = Inr (MsgHello b') \<and> same_block b' b \<and> dense b' \<and>
        (signed_order b' \<longleftrightarrow> signed_order b)"
    and each_get: "bucket_get E k key = Some v \<Longrightarrow> (key, v) \<in> set (bucket_each E k)"
    and key_of_new: "c_PublicKey (newCollection E name) = name"

text \<open>The index entry 0, as \<open>GetGenesisID\<close> reads it.\<close>

definition genesis_of :: "'k BlockDB \<Rightarrow> slice" where
  "genesis_of db = (case blockIndexMap db 0 of None \<Rightarrow> None | Some i \<Rightarrow> i)"

lemma GetGenesisID_eval [prog_simps]: "GetGenesisID db = Returns (genesis_of db) db"
  by (simp add: GetGenesisID_def genesis_of_def prog_simps)

text \<open>The key \<open>h\<close> holds an encoding of a block like \<open>b\<close>, without nil entries, which \<open>Copy\<close> can copy.\<close>

definition stored :: "('k, 'v) db_env \<Rightarrow> 'k BlockDB \<Rightarrow> bytes \<Rightarrow> NewLeaderHelloBlock \<Rightarrow> bool" where
  "stored E db h b \<longleftrightarrow>
     (\<exists>k v b'. bucket db = Some k \<and> bucket_get E k h = Some v \<and> unmarshal E v = Inr (MsgHello b') \<and>
        same_block b' b \<and> hello_ok b' \<and> full b' \<and> (signed_order b' \<longleftrightarrow> signed_order b))"

lemma GetByID_stored:
  assumes "stored E db h b"
  shows "\<exists>c. GetByID E (Some h) db = Returns (Some c) (tick db) \<and> same_block c b \<and> hb_Block c \<noteq> None \<and>
    hb_Hash c = fresh_copy (hb_Hash b) \<and> hb_PrevBlock c = fresh_copy (hb_PrevBlock b) \<and>
    (hello_ok c \<longleftrightarrow> \<not> signed_order b) \<and> (signed_order c \<longleftrightarrow> signed_order b) \<and> full c"
proof -
  obtain k v b' where b': "bucket db = Some k" "bucket_get E k h = Some v" "unmarshal E v = Inr (MsgHello b')"
      "same_block b' b" "hello_ok b'" "full b'" "signed_order b' \<longleftrightarrow> signed_order b"
    using assms by (auto simp: stored_def)
  from Hello_Copy_same [OF b'(5), of "newCollection E" "time_at E (clock_reads db)" "tick db"] obtain c where
    c: "Hello_Copy (newCollection E) (time_at E (clock_reads db)) (Some b') (tick db) = Returns c (tick db)"
      "same_block c b'" "hb_Block c \<noteq> None" "hb_Hash c = fresh_copy (hb_Hash b')"
      "hb_PrevBlock c = fresh_copy (hb_PrevBlock b')"
      "hello_ok c \<longleftrightarrow> \<not> signed_order b'" "signed_order c \<longleftrightarrow> signed_order b'" "full c \<longleftrightarrow> full b'" by blast
  have "GetByID E (Some h) db = Returns (Some c) (tick db)"
    using b' c(1) by (simp add: GetByID_def getFromTx_def copy_hello_def prog_simps)
  with c b'(4,6,7) show ?thesis by (auto simp: same_block_def fresh_copy_def)
qed

lemma GetByID_nil [prog_simps]: "GetByID E None db = Returns None db"
  by (simp add: GetByID_def prog_simps)

lemma GetLatest_stored:
  assumes "\<not> latestMutex db" "latestBlockID db = Some h" "stored E db h b"
  shows "\<exists>c. GetLatest E db = Returns (Some c) (tick db) \<and> same_block c b \<and> hb_Block c \<noteq> None \<and>
    hb_Hash c = fresh_copy (hb_Hash b) \<and> hb_PrevBlock c = fresh_copy (hb_PrevBlock b) \<and>
    (hello_ok c \<longleftrightarrow> \<not> signed_order b) \<and> (signed_order c \<longleftrightarrow> signed_order b) \<and> full c"
proof -
  have "stored E (db\<lparr>latestMutex := True\<rparr>) h b" using assms(3) by (simp add: stored_def)
  from GetByID_stored [OF this] show ?thesis
    using assms(1,2) by (auto simp: GetLatest_def prog_simps tick_def)
qed

lemma GetLatest_none:
  "\<not> latestMutex db \<Longrightarrow> latestBlockID db = None \<Longrightarrow> GetLatest E db = Returns None db"
  by (simp add: GetLatest_def prog_simps)

lemma GetLatest_locked: "latestMutex db \<Longrightarrow> GetLatest E db = Blocks db"
  by (simp add: GetLatest_def prog_simps)

lemma stored_tick [simp]: "stored E (tick db) = stored E db"
  by (simp add: stored_def tick_def fun_eq_iff)

lemma tick_simps [simp]:
  "bucket (tick db) = bucket db" "latestBlockID (tick db) = latestBlockID db" "latestMutex (tick db) = latestMutex db"
  "blockIndexMap (tick db) = blockIndexMap db"
  by (simp_all add: tick_def)

definition indexed :: "'k BlockDB \<Rightarrow> NewLeaderHelloBlock \<Rightarrow> 'k BlockDB" where
  "indexed db b = db\<lparr>latestBlockID := hb_Hash b, blockIndexMap := (blockIndexMap db)(hb_Index b \<mapsto> hb_Hash b)\<rparr>"

lemma UpdateLatest_eval:
  "UpdateLatest (Some b) db = (if latestMutex db then Blocks db else Returns () (indexed db b))"
  by (simp add: UpdateLatest_def prog_simps indexed_def)

lemma indexed_simps [simp]:
  "bucket (indexed db b) = bucket db" "latestBlockID (indexed db b) = hb_Hash b"
  "latestMutex (indexed db b) = latestMutex db"
  "blockIndexMap (indexed db b) = (blockIndexMap db)(hb_Index b \<mapsto> hb_Hash b)"
  by (simp_all add: indexed_def)

lemma stored_indexed [simp]: "stored E (indexed db b) = stored E db"
  by (simp add: stored_def fun_eq_iff)

section \<open>Storing\<close>

lemma storeToTx_error:
  "storeToTx E p bk = Returns (Inl err) bk' \<Longrightarrow> \<exists>b. p = Some b"
  by (cases p) (auto simp: storeToTx_def prog_simps)

lemma StoreBlocks_error_keeps:
  "StoreBlocks E blocks db = Returns (ids, Some err) db' \<Longrightarrow> db' = db"
  by (auto simp: StoreBlocks_def split: outcome.splits option.splits prod.splits)

text \<open>What is in the bucket after a transaction that stored \<open>blocks\<close>: the last block with each hash.\<close>

definition holds_last :: "('k, 'v) db_env \<Rightarrow> 'k \<Rightarrow> 'k \<Rightarrow> NewLeaderHelloBlock list \<Rightarrow> bool" where
  "holds_last E k k' bs \<longleftrightarrow>
     (\<forall>h. case List.find (\<lambda>b. slice_bytes (hb_Hash b) = h) (rev bs) of
        None \<Rightarrow> bucket_get E k' h = bucket_get E k h
      | Some b \<Rightarrow> \<exists>v. marshal E b = Inr v \<and> bucket_get E k' h = Some v)"

lemma find_append:
  "List.find P (xs @ ys) = (case List.find P xs of None \<Rightarrow> List.find P ys | Some x \<Rightarrow> Some x)"
  by (induction xs) auto

context storage
begin

lemma decoded:
  assumes "marshal E b = Inr v" "hb_Block b \<noteq> None"
  obtains b' where "unmarshal E v = Inr (MsgHello b')" "same_block b' b" "hello_ok b'" "full b'"
    "signed_order b' \<longleftrightarrow> signed_order b"
proof -
  from codec [OF assms(1)] obtain b' where b': "unmarshal E v = Inr (MsgHello b')" "same_block b' b" "dense b'"
    "signed_order b' \<longleftrightarrow> signed_order b" by blast
  with same_block_nil [OF b'(2)] assms(2) dense_hello_ok [OF b'(3)] that show thesis by simp
qed

lemma storeToTx_holds:
  assumes "storeToTx E (Some b) (Some k) = Returns (Inr i) bk"
  shows "\<exists>k' v. bk = Some k' \<and> i = hb_Hash b \<and> marshal E b = Inr v \<and>
    (\<forall>h. bucket_get E k' h = (if h = slice_bytes (hb_Hash b) then Some v else bucket_get E k h))"
proof -
  obtain v where m: "marshal E b = Inr v"
    using assms by (cases "marshal E b") (auto simp: storeToTx_def prog_simps)
  obtain err k' where put: "bucket_put E k (slice_bytes (hb_Hash b)) v = (err, k')" by fastforce
  have "err = None" using assms m put by (cases err) (auto simp: storeToTx_def prog_simps)
  with assms m put have v: "marshal E b = Inr v" "bucket_put E k (slice_bytes (hb_Hash b)) v = (None, k')"
      "bk = Some k'" "i = hb_Hash b"
    by (simp_all add: storeToTx_def prog_simps)
  then show ?thesis by (intro exI [of _ k'] exI [of _ v] conjI allI put_get [OF v(2)]) simp_all
qed

lemma store_all_holds:
  assumes "store_all E (map Some bs) acc (Some k) = Returns (ids, None) bk"
  shows "\<exists>k'. bk = Some k' \<and> ids = acc @ map hb_Hash bs \<and> holds_last E k k' bs"
  using assms
proof (induction bs arbitrary: acc k)
  case Nil
  then show ?case by (auto simp: prog_simps holds_last_def)
next
  case (Cons b bs)
  obtain i bk1 where step: "storeToTx E (Some b) (Some k) = Returns (Inr i) bk1"
      and rest: "store_all E (map Some bs) (acc @ [i]) bk1 = Returns (ids, None) bk"
    using Cons.prems by (auto simp: prog_simps split: outcome.splits sum.splits)
  obtain k1 v where k1: "bk1 = Some k1" "i = hb_Hash b" "marshal E b = Inr v"
      "\<And>h. bucket_get E k1 h = (if h = slice_bytes (hb_Hash b) then Some v else bucket_get E k h)"
    using storeToTx_holds [OF step] by blast
  from Cons.IH [OF rest [unfolded k1(1)]] k1(2) obtain k' where
    k': "bk = Some k'" "ids = acc @ map hb_Hash (b # bs)" "holds_last E k1 k' bs" by auto
  have "holds_last E k k' (b # bs)"
    unfolding holds_last_def
  proof
    fix h
    let ?P = "\<lambda>b. slice_bytes (hb_Hash b) = h"
    have "case List.find ?P (rev bs) of
        None \<Rightarrow> bucket_get E k' h = bucket_get E k1 h
      | Some b \<Rightarrow> \<exists>v. marshal E b = Inr v \<and> bucket_get E k' h = Some v"
      using k'(3) by (simp add: holds_last_def)
    then show "case List.find ?P (rev (b # bs)) of
        None \<Rightarrow> bucket_get E k' h = bucket_get E k h
      | Some b \<Rightarrow> \<exists>v. marshal E b = Inr v \<and> bucket_get E k' h = Some v"
      using k1(3,4) by (cases "List.find ?P (rev bs)") (auto simp: find_append)
  qed
  with k' show ?case by blast
qed

lemma StoreBlocks_holds:
  assumes "StoreBlocks E (map Some bs) db = Returns (ids, None) db'" "bucket db = Some k"
  shows "\<exists>k'. db' = db\<lparr>bucket := Some k'\<rparr> \<and> ids = map hb_Hash bs \<and> holds_last E k k' bs"
proof -
  obtain bk where "store_all E (map Some bs) [] (Some k) = Returns (ids, None) bk" "db' = db\<lparr>bucket := bk\<rparr>"
    using assms by (auto simp: StoreBlocks_def split: outcome.splits option.splits prod.splits)
  with store_all_holds [of bs "[]" k ids bk] show ?thesis by auto
qed

text \<open>After a store without error the block can be fetched, and every other one still can.\<close>

lemma Store_stored:
  assumes "StoreBlocks E [Some b] db = Returns (ids, None) db'" "bucket db \<noteq> None" "hb_Block b \<noteq> None"
  shows "stored E db' (slice_bytes (hb_Hash b)) b"
    and "h \<noteq> slice_bytes (hb_Hash b) \<Longrightarrow> stored E db' h c = stored E db h c"
    and "ids = [hb_Hash b]" and "\<exists>k'. db' = db\<lparr>bucket := Some k'\<rparr>"
proof -
  obtain k where k: "bucket db = Some k" using assms(2) by auto
  from StoreBlocks_holds [of "[b]" db ids db' k] assms(1) k obtain k' where
    k': "db' = db\<lparr>bucket := Some k'\<rparr>" "ids = [hb_Hash b]" "holds_last E k k' [b]" by auto
  then show "ids = [hb_Hash b]" "\<exists>k'. db' = db\<lparr>bucket := Some k'\<rparr>" by auto
  have get: "(\<exists>v. marshal E b = Inr v \<and> bucket_get E k' (slice_bytes (hb_Hash b)) = Some v) \<and>
      (h \<noteq> slice_bytes (hb_Hash b) \<longrightarrow> bucket_get E k' h = bucket_get E k h)" for h
    using k'(3) unfolding holds_last_def by (auto dest: spec [of _ h] spec [of _ "slice_bytes (hb_Hash b)"])
  then obtain v where v: "marshal E b = Inr v" "bucket_get E k' (slice_bytes (hb_Hash b)) = Some v" by blast
  from v(1) assms(3) show "stored E db' (slice_bytes (hb_Hash b)) b"
    by (rule decoded) (use v(2) k'(1) in \<open>auto simp: stored_def\<close>)
  show "stored E db' h c = stored E db h c" if "h \<noteq> slice_bytes (hb_Hash b)"
    using that get [of h] k k'(1) by (simp add: stored_def)
qed

lemma marshalled_assert:
  assumes "marshal E b = Inr v"
  shows "index_each E ((key, v) # kvs) db = Panics TypeAssertion db"
  using codec [OF assms] by (auto simp: prog_simps)

end

section \<open>A store in memory\<close>

text \<open>
  A storage that keeps the promises: an association list as bucket, with bbolt's errors for the
  empty key and for keys that are too long, and a codec that hands the message through without its
  nil entries. The witnesses run on it.
\<close>

definition compact_orders :: "Block option list \<Rightarrow> Block option list" where
  "compact_orders ps = map (map_option (\<lambda>p. p\<lparr>b_Collections := signatures (b_Collections p)\<rparr>))
     (filter (\<lambda>p. p \<noteq> None) ps)"

definition compact :: "NewLeaderHelloBlock \<Rightarrow> NewLeaderHelloBlock" where
  "compact b = b\<lparr>hb_Block := map_option (\<lambda>d. d\<lparr>df_OrderBlocks := compact_orders (df_OrderBlocks d)\<rparr>) (hb_Block b)\<rparr>"

lemma compact_orders_simps [simp]:
  "compact_orders [] = []" "compact_orders (None # ps) = compact_orders ps"
  "compact_orders (Some p # ps) = Some (p\<lparr>b_Collections := signatures (b_Collections p)\<rparr>) # compact_orders ps"
  by (simp_all add: compact_orders_def)

lemma compact_order [simp]:
  "miners (compact_orders ps) = miners ps" "None \<notin> set (compact_orders ps)" "list_all copyable (compact_orders ps)"
  "list_ex signed (compact_orders ps) \<longleftrightarrow> list_ex signed ps"
proof (induction ps)
  case (Cons p ps)
  {
    case 1
    with Cons show ?case by (cases p) simp_all
  next
    case 2
    with Cons show ?case by (cases p) simp_all
  next
    case 3
    with Cons show ?case by (cases p) (simp_all add: copyable_def signatures_ok_def)
  next
    case 4
    with Cons show ?case by (cases p) (simp_all add: signed_def)
  }
qed simp_all

lemma compact_dense: "same_block (compact b) b" "dense (compact b)" "signed_order (compact b) \<longleftrightarrow> signed_order b"
  by (simp_all add: same_block_def elected_def compact_def dense_def full_def signed_order_def option.map_comp comp_def
      split: option.split)

lemma compact_sample [simp]: "compact (sample_hello as) = sample_hello as"
  by (simp add: compact_def sample_hello_def NewDeForkBlock_def)

definition mem_put :: "(bytes \<times> Message) list \<Rightarrow> bytes \<Rightarrow> Message \<Rightarrow> go_error option \<times> (bytes \<times> Message) list" where
  "mem_put k key v =
     (if key = [] then (Some ''key required'', k)
      else if length key > 32768 then (Some ''key too large'', k)
      else (None, AList.update key v k))"

definition mem_env :: "((bytes \<times> Message) list, Message) db_env" where
  "mem_env = \<lparr>bucket_get = map_of, bucket_put = mem_put, bucket_each = id, commit_error = (\<lambda>_. None),
     marshal = (\<lambda>b. Inr (MsgHello (compact b))), unmarshal = Inr, newCollection = (\<lambda>key. newSignaturePair key []),
     time_at = of_nat, micro_Copy = (\<lambda>_. sample_hello [])\<rparr>"

interpretation mem: storage mem_env
proof unfold_locales
  show "bucket_get mem_env k' key' = (if key' = key then Some v else bucket_get mem_env k key')"
    if "bucket_put mem_env k key v = (None, k')" for k key v k' key'
    using that by (auto simp: mem_env_def mem_put_def update_conv split: if_splits)
qed (auto simp: mem_env_def newSignaturePair_def compact_dense dest: map_of_SomeD)

section \<open>Properties\<close>

text \<open>
  C17: What is stored can be fetched. If \<open>StoreBlocks\<close> of a block with a de-fork block reports no
  error, then \<open>GetByID\<close> of the block's hash returns a block with the same contents and the same
  \<open>CalculateHash\<close>, and every block stored before under another hash is still there. The store
  relies on bbolt and the codec as \<open>storage\<close> says.
\<close>

theorem store_then_get:
  assumes "storage E" "bucket db \<noteq> None" "hb_Block b \<noteq> None" "hb_Hash b = Some h"
    and "StoreBlocks E [Some b] db = Returns (ids, None) db'"
  shows "\<exists>c db''. GetByID E (Some h) db' = Returns (Some c) db'' \<and> bucket db'' = bucket db' \<and>
    same_block c b \<and> Hello_CalculateHash c = Hello_CalculateHash b \<and>
    (\<forall>h' b'. h' \<noteq> h \<longrightarrow> stored E db' h' b' = stored E db h' b')"
proof -
  have stored: "stored E db' h b" "\<And>h' c. h' \<noteq> h \<Longrightarrow> stored E db' h' c = stored E db h' c"
    using storage.Store_stored(1,2) [OF assms(1,5,2,3)] assms(4) by simp_all
  from GetByID_stored [OF stored(1)] stored(2) show ?thesis by (auto simp: same_block_hash)
qed

definition mem_db :: "(bytes \<times> Message) list BlockDB" where
  "mem_db = NewBlockDB (Some [])"

lemma mem_store:
  "hb_Hash b = Some [2] \<Longrightarrow>
   StoreBlocks mem_env [Some b] mem_db = Returns ([Some [2]], None) (mem_db\<lparr>bucket := Some [([2], MsgHello (compact b))]\<rparr>)"
  by (simp add: StoreBlocks_def storeToTx_def prog_simps mem_db_def NewBlockDB_def mem_env_def mem_put_def)

lemma store_then_get_witness:
  "\<exists>c db''. GetByID mem_env (Some [2]) (mem_db\<lparr>bucket := Some [([2], MsgHello (sample_hello []))]\<rparr>)
      = Returns (Some c) db'' \<and> same_block c (sample_hello [])"
proof -
  have "bucket mem_db \<noteq> None" by (simp add: mem_db_def NewBlockDB_def)
  moreover have "hb_Block (sample_hello []) \<noteq> None" by (simp add: sample_hello_def)
  moreover have hash: "hb_Hash (sample_hello []) = Some [2]" by (simp add: sample_hello_def)
  ultimately show ?thesis
    using store_then_get [OF mem.storage_axioms _ _ hash mem_store [OF hash]] by (simp only: compact_sample) blast
qed

text \<open>
  C21: \<open>StoreBlocks\<close> is all or nothing. When it reports an error (of the codec, of \<open>Put\<close> or of the
  commit) nothing has changed; when it reports none, it returns the hashes of all the blocks in
  order, each hash leads to the last of the blocks with that hash, and no other key has changed.
\<close>

theorem StoreBlocks_atomic:
  assumes "storage E" "bucket db = Some k" "StoreBlocks E (map Some bs) db = Returns (ids, err) db'"
  shows "(err \<noteq> None \<longrightarrow> db' = db) \<and>
    (err = None \<longrightarrow> ids = map hb_Hash bs \<and> (\<exists>k'. db' = db\<lparr>bucket := Some k'\<rparr> \<and> holds_last E k k' bs))"
proof (cases err)
  case None
  with storage.StoreBlocks_holds [OF assms(1) _ assms(2), of bs ids db'] assms(3) show ?thesis by auto
next
  case (Some e)
  with StoreBlocks_error_keeps [of E "map Some bs" db ids e db'] assms(3) show ?thesis by simp
qed

lemma StoreBlocks_atomic_witness:
  "\<exists>ids. StoreBlocks mem_env [Some (sample_hello []), Some ((sample_hello [])\<lparr>hb_Hash := None\<rparr>)] mem_db
     = Returns (ids, Some ''key required'') mem_db"
proof -
  let ?bs = "[sample_hello [], (sample_hello [])\<lparr>hb_Hash := None\<rparr>]"
  obtain ids db' where run: "StoreBlocks mem_env (map Some ?bs) mem_db = Returns (ids, Some ''key required'') db'"
    by (simp add: StoreBlocks_def storeToTx_def prog_simps mem_db_def NewBlockDB_def mem_env_def mem_put_def
        sample_hello_def)
  have "bucket mem_db = Some []" by (simp add: mem_db_def NewBlockDB_def)
  from StoreBlocks_atomic [OF mem.storage_axioms this run] run show ?thesis by auto
qed

text \<open>
  C16: Accepting a block. When \<open>latestMutex\<close> is free and \<open>Store\<close> goes through, \<open>Store\<close> followed by
  \<open>UpdateLatest\<close> makes \<open>GetLatest\<close> and \<open>GetBlockByIndex\<close> of the block's index return that block,
  makes it the genesis block if its index is 0, and leaves the index of every other height
  alone. \<open>UpdateLatest\<close> does not compare heights: the latest block is the one accepted last.
\<close>

theorem accept_becomes_latest:
  assumes "storage E" "bucket db \<noteq> None" "\<not> latestMutex db" "hb_Block b \<noteq> None" "hb_Hash b = Some h"
    and "StoreBlocks E [Some b] db = Returns (ids, None) db'"
  shows "\<exists>db2. seqp (Store E (Some b)) (UpdateLatest (Some b)) db = Returns () db2 \<and>
    (\<exists>c. GetLatest E db2 = Returns (Some c) (tick db2) \<and> same_block c b) \<and>
    (\<exists>c. GetBlockByIndex E (hb_Index b) db2 = Returns (Inr (Some c)) (tick db2) \<and> same_block c b) \<and>
    GetGenesisID db2 = (if hb_Index b = 0 then Returns (Some h) db2
      else Returns (case blockIndexMap db 0 of None \<Rightarrow> None | Some i \<Rightarrow> i) db2) \<and>
    (\<forall>i. i \<noteq> hb_Index b \<longrightarrow> blockIndexMap db2 i = blockIndexMap db i)"
proof -
  obtain k' where k': "db' = db\<lparr>bucket := Some k'\<rparr>" and ids: "ids = [Some h]"
    using storage.Store_stored(3,4) [OF assms(1,6,2,4)] assms(5) by auto
  let ?db2 = "indexed db' b"
  have st: "stored E ?db2 h b"
    using storage.Store_stored(1) [OF assms(1,6,2,4)] assms(5) by simp
  have run: "seqp (Store E (Some b)) (UpdateLatest (Some b)) db = Returns () ?db2"
    using assms(3,6) k' by (simp add: Store_def prog_simps UpdateLatest_eval)
  have latest: "\<exists>c. GetLatest E ?db2 = Returns (Some c) (tick ?db2) \<and> same_block c b"
    using GetLatest_stored [OF _ _ st] assms(3,5) k' by auto
  have "\<exists>c. GetBlockByIndex E (hb_Index b) ?db2 = Returns (Inr (Some c)) (tick ?db2) \<and> same_block c b"
    using GetByID_stored [OF st] assms(5) by (auto simp: GetBlockByIndex_def prog_simps)
  with run latest show ?thesis
    using assms(5) k' by (intro exI [of _ ?db2]) (auto simp: genesis_of_def prog_simps)
qed

lemma accept_becomes_latest_witness:
  "\<exists>db2. seqp (Store mem_env (Some (sample_hello []))) (UpdateLatest (Some (sample_hello []))) mem_db = Returns () db2 \<and>
    (\<exists>c. GetLatest mem_env db2 = Returns (Some c) (tick db2) \<and> same_block c (sample_hello []))"
proof -
  have "bucket mem_db \<noteq> None" "\<not> latestMutex mem_db" by (simp_all add: mem_db_def NewBlockDB_def)
  moreover have "hb_Block (sample_hello []) \<noteq> None" by (simp add: sample_hello_def)
  moreover have hash: "hb_Hash (sample_hello []) = Some [2]" by (simp add: sample_hello_def)
  ultimately show ?thesis
    using accept_becomes_latest [OF mem.storage_axioms _ _ _ hash mem_store [OF hash]] by blast
qed

text \<open>
  A node cannot restart on its own blocks. \<open>BuildIndex\<close> asserts that every stored value is a
  \<open>MicroBlock\<close>, but \<open>StoreBlocks\<close> writes \<open>NewLeaderHelloBlock\<close>s: on a bucket whose first value was
  written by \<open>StoreBlocks\<close> the assertion panics before anything is indexed. Only an empty bucket is
  indexed, to an empty chain.
\<close>

theorem BuildIndex_own_blocks:
  assumes "storage E" "bucket db = Some k"
  shows "(bucket_each E k = [] \<longrightarrow> BuildIndex E db = Returns None db) \<and>
    (bucket_each E k \<noteq> [] \<and> (\<exists>b. marshal E b = Inr (snd (hd (bucket_each E k)))) \<longrightarrow>
       BuildIndex E db = Panics TypeAssertion db)"
proof -
  have "BuildIndex E db = index_each E (bucket_each E k) db"
    using assms(2) by (simp add: BuildIndex_def prog_simps)
  moreover have "index_each E (bucket_each E k) db = Panics TypeAssertion db"
    if "bucket_each E k \<noteq> []" "marshal E b = Inr (snd (hd (bucket_each E k)))" for b
    using storage.marshalled_assert [OF assms(1) that(2)] that(1)
    by (cases "bucket_each E k") (simp_all del: index_each.simps, metis prod.collapse)
  ultimately show ?thesis by (auto simp: prog_simps)
qed

lemma BuildIndex_own_blocks_witness:
  "BuildIndex mem_env mem_db = Returns None mem_db \<and>
   BuildIndex mem_env (mem_db\<lparr>bucket := Some [([2], MsgHello (sample_hello []))]\<rparr>)
     = Panics TypeAssertion (mem_db\<lparr>bucket := Some [([2], MsgHello (sample_hello []))]\<rparr>)"
  using BuildIndex_own_blocks [OF mem.storage_axioms, of mem_db "[]"]
    BuildIndex_own_blocks [OF mem.storage_axioms,
      of "mem_db\<lparr>bucket := Some [([2], MsgHello (sample_hello []))]\<rparr>" "[([2], MsgHello (sample_hello []))]"]
  by (auto simp: mem_env_def mem_db_def NewBlockDB_def intro!: exI [of _ "sample_hello []"])

end
