(* ===== verification/Pool.thy ===== *)
theory Pool
  imports Blocks
begin

text \<open>
  service/struct.go, the two in-memory pools of a node: the transaction pool \<open>txPool\<close> and the
  \<open>blockBuffer\<close> of candidate blocks. Their methods take the pool's own mutex for the whole
  body and call nothing that takes it again, so each is one atomic step here. The buffer's map
  is keyed by \<open>string(block.Hash)\<close>.
\<close>

section \<open>The transaction pool\<close>

record txPool =
  txsMap :: "string \<rightharpoonup> Transaction list"

definition newTxPool :: txPool where
  "newTxPool = \<lparr>txsMap = Map.empty\<rparr>"

definition txPool_add :: "string \<Rightarrow> Transaction \<Rightarrow> txPool \<Rightarrow> txPool" where
  "txPool_add key tx p =
     (case txsMap p key of
        None \<Rightarrow> p\<lparr>txsMap := (txsMap p)(key \<mapsto> [tx])\<rparr>
      | Some txs \<Rightarrow> p\<lparr>txsMap := (txsMap p)(key \<mapsto> txs @ [tx])\<rparr>)"

text \<open>What the pool promises: per key, the transactions in the order in which they came.\<close>

definition sent_by :: "string \<Rightarrow> (string \<times> Transaction) list \<Rightarrow> Transaction list" where
  "sent_by key kts = map snd (filter (\<lambda>kt. fst kt = key) kts)"

lemma txPool_add_lookup:
  "txsMap (txPool_add key tx p) k =
     (if k = key then Some ((case txsMap p key of None \<Rightarrow> [] | Some txs \<Rightarrow> txs) @ [tx]) else txsMap p k)"
  by (simp add: txPool_add_def split: option.splits)

text \<open>
  The transaction pool is a log per key. After any sequence of \<open>add\<close> calls on a new pool,
  a key maps to the transactions added under it, all of them and in their order, and a key
  never used has no entry.
\<close>

theorem txPool_log:
  "txsMap (fold (\<lambda>(key, tx). txPool_add key tx) kts newTxPool) k =
     (if k \<in> fst ` set kts then Some (sent_by k kts) else None)"
proof (induction kts rule: rev_induct)
  case Nil
  then show ?case by (simp add: newTxPool_def)
next
  case (snoc kt kts)
  obtain key tx where kt: "kt = (key, tx)" by fastforce
  have none: "sent_by k kts = []" if "k \<notin> fst ` set kts" for k
    using that by (auto simp: sent_by_def filter_empty_conv)
  have "sent_by k (kts @ [kt]) = sent_by k kts @ (if k = key then [tx] else [])"
    by (simp add: sent_by_def kt)
  then show ?case using snoc none [of k] by (auto simp: kt txPool_add_lookup)
qed

section \<open>The buffer of candidate blocks\<close>

record blockBuffer =
  blockMap :: "string \<rightharpoonup> Block"

definition newBlockBuffer :: blockBuffer where
  "newBlockBuffer = \<lparr>blockMap = Map.empty\<rparr>"

text \<open>\<open>string(bs)\<close> of a byte slice.\<close>

definition go_string :: "slice \<Rightarrow> string" where
  "go_string s = map (\<lambda>b. char_of (unat b)) (slice_bytes s)"

text \<open>The order in which a loop visits the map is the argument \<open>keys\<close>.\<close>

definition Buffer_List :: "string list \<Rightarrow> blockBuffer \<Rightarrow> Block list" where
  "Buffer_List keys bb = map_values keys (blockMap bb)"

definition Buffer_Put :: "Block \<Rightarrow> blockBuffer \<Rightarrow> blockBuffer" where
  "Buffer_Put block bb = bb\<lparr>blockMap := (blockMap bb)(go_string (b_Hash block) \<mapsto> block)\<rparr>"

definition Buffer_Len :: "blockBuffer \<Rightarrow> nat" where
  "Buffer_Len bb = card (dom (blockMap bb))"

definition Buffer_Set :: "(string \<Rightarrow> Collection) \<Rightarrow> Block \<Rightarrow> (blockBuffer, unit) prog" where
  "Buffer_Set newCollection block =
     bnd (gets (\<lambda>bb. blockMap bb (go_string (b_Hash block)))) (\<lambda>entry.
     case entry of
       None \<Rightarrow> modifies (Buffer_Put block)
     | Some old \<Rightarrow>
         bnd (Block_Sign newCollection (go_string (b_Hash block)) old) (\<lambda>signed.
         modifies (\<lambda>bb. bb\<lparr>blockMap := (blockMap bb)(go_string (b_Hash block) \<mapsto> signed)\<rparr>)))"

definition HalfMore :: "string list \<Rightarrow> u64 \<Rightarrow> blockBuffer \<Rightarrow> Block list" where
  "HalfMore keys memberLen bb =
     filter (\<lambda>block. int (length (b_Collections block)) > sint memberLen) (map_values keys (blockMap bb))"

definition Buffer_in :: "slice \<Rightarrow> blockBuffer \<Rightarrow> bool" where
  "Buffer_in hash bb \<longleftrightarrow> blockMap bb (go_string hash) \<noteq> None"

text \<open>
  \<open>HalfMore\<close> selects exactly the buffered blocks with more than \<open>memberLen\<close> signatures,
  whatever order the map is visited in: two visits give the same blocks up to order, so which
  one is \<open>OrderBlocks[0]\<close>, the next leader, is left to the map's iteration order.
\<close>

theorem HalfMore_exact:
  assumes "enumerates keys (blockMap bb)" "enumerates keys' (blockMap bb)"
  shows "set (HalfMore keys n bb) = {b \<in> ran (blockMap bb). int (length (b_Collections b)) > sint n} \<and>
    mset (HalfMore keys n bb) = mset (HalfMore keys' n bb)"
proof -
  have "mset keys = mset keys'" using enumerates_permutation [OF assms] .
  then have "mset (map_values keys (blockMap bb)) = mset (map_values keys' (blockMap bb))"
    by (simp add: map_values_def List.map_filter_def mset_filter)
  then show ?thesis
    using map_values_enumerates [OF assms(1)] by (auto simp: HalfMore_def mset_filter)
qed

definition two_blocks :: blockBuffer where
  "two_blocks =
     Buffer_Put (NewBlock\<lparr>b_Hash := Some [66], b_Collections := [Some (newSignaturePair ''k'' [])]\<rparr>)
       (Buffer_Put (NewBlock\<lparr>b_Hash := Some [65]\<rparr>) newBlockBuffer)"

lemma HalfMore_exact_witness:
  "map (go_string \<circ> b_Hash) (HalfMore [''A'', ''B''] 0 two_blocks) = [''B''] \<and>
   mset (HalfMore [''A'', ''B''] 0 two_blocks) = mset (HalfMore [''B'', ''A''] 0 two_blocks)"
proof -
  have letters: "char_of (65::nat) = CHR ''A''" "char_of (66::nat) = CHR ''B''"
    by (simp_all add: char_of_def bit_0)
  have 1: "enumerates [''A'', ''B''] (blockMap two_blocks)" "enumerates [''B'', ''A''] (blockMap two_blocks)"
    by (auto simp: enumerates_def two_blocks_def Buffer_Put_def newBlockBuffer_def go_string_def letters split: if_splits)
  show ?thesis
    using HalfMore_exact [OF 1, of 0]
    by (simp add: HalfMore_def map_values_def List.map_filter_def two_blocks_def Buffer_Put_def newBlockBuffer_def
        go_string_def NewBlock_def letters)
qed

text \<open>A block with one signature.\<close>

definition signed_once :: Block where
  "signed_once = NewBlock\<lparr>b_Hash := Some [1], b_Collections := [Some (newSignaturePair ''member'' [])]\<rparr>"

end
