(* ===== verification/Miner.thy ===== *)
theory Miner
  imports Blocks
begin

text \<open>
  mining/miner.go, the life of the miner: \<open>Start\<close> and \<open>Stop\<close>, the \<open>miningWorker\<close> goroutines
  that wait for the miner's quit channel, and the \<open>generateBlocks\<close> goroutines they drive.

  Channels are numbers: the ones made so far are those below \<open>next_chan\<close>, and \<open>closed\<close> lists
  the closed ones. Every \<open>Start\<close> makes a quit channel and a worker; the worker makes an inner
  channel and a generator, then reads \<open>m.quit\<close> (the field, at that moment) and waits for it
  to be closed. What a generator does between its polls is the theory Solver; here it
  either sees its inner channel closed or finds a block.
\<close>

section \<open>State\<close>

datatype worker =
    WSpawned
  | WEntered nat
  | WWaiting nat nat
  | WDone

text \<open>\<open>WEntered inner\<close>, \<open>WWaiting quit inner\<close>.\<close>

datatype generator =
    GSpawned nat
  | GRunning nat "Block option"
  | GDone

record miner =
  started :: bool
  miner_block :: "Block option"
  miner_quit :: "nat option"
  closed :: "nat set"
  next_chan :: nat
  workers :: "worker list"
  generators :: "generator list"
  found :: "Block option list"

text \<open>\<open>found\<close> records the calls of the callback.\<close>

definition New :: miner where
  "New = \<lparr>started = False, miner_block = None, miner_quit = None, closed = {}, next_chan = 0,
          workers = [], generators = [], found = []\<rparr>"

section \<open>The methods\<close>

definition close_chan :: "nat option \<Rightarrow> (miner, unit) prog" where
  "close_chan q = (\<lambda>m.
     case q of
       None \<Rightarrow> Panics NilDereference m
     | Some c \<Rightarrow> if c \<in> closed m then Panics CloseOfClosedChannel m
                else Returns () (m\<lparr>closed := insert c (closed m)\<rparr>))"

definition Start :: "Block option \<Rightarrow> (miner, unit) prog" where
  "Start block =
     bnd (gets started) (\<lambda>running.
     if running then ret ()
     else modifies (\<lambda>m. m\<lparr>miner_block := block, miner_quit := Some (next_chan m), next_chan := Suc (next_chan m),
            workers := workers m @ [WSpawned], started := True\<rparr>))"

definition Stop :: "(miner, unit) prog" where
  "Stop =
     bnd (gets started) (\<lambda>running.
     if \<not> running then ret ()
     else bnd (gets miner_quit) (\<lambda>q. seqp (close_chan q) (modifies (\<lambda>m. m\<lparr>started := False\<rparr>))))"

section \<open>The goroutines\<close>

text \<open>A worker at index \<open>i\<close> enters, reads the quit field, and ends when that channel is closed.\<close>

definition worker_step :: "nat \<Rightarrow> (miner, unit) prog" where
  "worker_step i = (\<lambda>m.
     if i < length (workers m) then
       (case workers m ! i of
          WSpawned \<Rightarrow>
            Returns () (m\<lparr>workers := (workers m)[i := WEntered (next_chan m)],
              generators := generators m @ [GSpawned (next_chan m)], next_chan := Suc (next_chan m)\<rparr>)
        | WEntered inner \<Rightarrow>
            (case miner_quit m of
               Some q \<Rightarrow> Returns () (m\<lparr>workers := (workers m)[i := WWaiting q inner]\<rparr>)
             | None \<Rightarrow> Blocks m)
        | WWaiting q inner \<Rightarrow>
            if q \<in> closed m
            then seqp (close_chan (Some inner)) (modifies (\<lambda>m. m\<lparr>workers := (workers m)[i := WDone]\<rparr>)) m
            else Returns () m
        | WDone \<Rightarrow> Returns () m)
     else Returns () m)"

text \<open>
  A generator takes the miner's block when it starts. From then on it ends with a block for the
  callback (\<open>solved\<close>), also when its inner channel is closed after it has polled it for the last time,
  or when it sees the channel closed. The block is a value: that two generators of quick restarts may
  work on one \<open>*Block\<close> is not modelled.
\<close>

definition generator_step :: "nat \<Rightarrow> bool \<Rightarrow> (miner, unit) prog" where
  "generator_step i solved = (\<lambda>m.
     if i < length (generators m) then
       (case generators m ! i of
          GSpawned inner \<Rightarrow> Returns () (m\<lparr>generators := (generators m)[i := GRunning inner (miner_block m)]\<rparr>)
        | GRunning inner b \<Rightarrow>
            if solved then Returns () (m\<lparr>generators := (generators m)[i := GDone], found := found m @ [b]\<rparr>)
            else if inner \<in> closed m then Returns () (m\<lparr>generators := (generators m)[i := GDone]\<rparr>)
            else Returns () m
        | GDone \<Rightarrow> Returns () m)
     else Returns () m)"

text \<open>The steps of the system; whatever the scheduler and the callers do is a sequence of them.\<close>

datatype event = EvStart "Block option" | EvStop | EvWorker nat | EvGenerator nat bool

primrec event_prog :: "event \<Rightarrow> (miner, unit) prog" where
  "event_prog (EvStart b) = Start b"
| "event_prog EvStop = Stop"
| "event_prog (EvWorker i) = worker_step i"
| "event_prog (EvGenerator i solved) = generator_step i solved"

inductive reachable :: "miner \<Rightarrow> bool" where
  initial: "reachable New"
| step: "reachable m \<Longrightarrow> event_prog e m = Returns () m' \<Longrightarrow> reachable m'"

section \<open>The invariant\<close>

primrec worker_inner :: "worker \<Rightarrow> nat option" where
  "worker_inner WSpawned = None"
| "worker_inner (WEntered inner) = Some inner"
| "worker_inner (WWaiting q inner) = Some inner"
| "worker_inner WDone = None"

primrec generator_inner :: "generator \<Rightarrow> nat option" where
  "generator_inner (GSpawned inner) = Some inner"
| "generator_inner (GRunning inner b) = Some inner"
| "generator_inner GDone = None"

text \<open>Channel \<open>c\<close> is the inner channel of a live worker.\<close>

definition owned :: "nat \<Rightarrow> worker list \<Rightarrow> bool" where
  "owned c ws \<longleftrightarrow> Some c \<in> worker_inner ` set ws"

lemma ownedE:
  assumes "owned c ws"
  obtains j where "j < length ws" "worker_inner (ws ! j) = Some c"
proof -
  obtain w where w: "w \<in> set ws" "worker_inner w = Some c"
    using assms by (auto simp: owned_def)
  then obtain j where "j < length ws" "ws ! j = w" by (auto simp: in_set_conv_nth)
  with w(2) that show thesis by blast
qed

lemma owned_append: "owned c (ws @ [w]) \<longleftrightarrow> owned c ws \<or> worker_inner w = Some c"
  by (auto simp: owned_def)

lemma owned_new: "i < length ws \<Longrightarrow> worker_inner w = Some c \<Longrightarrow> owned c (ws[i := w])"
  unfolding owned_def by (metis imageI set_update_memI)

lemma owned_keep:
  assumes "owned c ws" "i < length ws" "worker_inner (ws ! i) \<noteq> Some c"
  shows "owned c (ws[i := w])"
proof -
  obtain j where j: "j < length ws" "worker_inner (ws ! j) = Some c" using assms(1) by (rule ownedE)
  with assms(3) have "ws[i := w] ! j = ws ! j" by (cases "i = j") auto
  with j show ?thesis unfolding owned_def by (metis imageI length_list_update nth_mem)
qed

text \<open>
  The invariant, in five parts: only channels that were made are closed; the current quit
  channel is open exactly while the miner is started; every live worker has an inner channel
  of its own, still open and not the current quit channel; a worker waits for the current
  quit channel or for a closed one; the channel of a live generator is closed or belongs to
  a live worker.
\<close>

definition closed_ok :: "miner \<Rightarrow> bool" where
  "closed_ok m \<longleftrightarrow> (\<forall>c\<in>closed m. c < next_chan m)"

definition quit_ok :: "miner \<Rightarrow> bool" where
  "quit_ok m \<longleftrightarrow> (case miner_quit m of
     None \<Rightarrow> \<not> started m \<and> workers m = []
   | Some q \<Rightarrow> q < next_chan m \<and> (q \<in> closed m \<longleftrightarrow> \<not> started m))"

definition inner_ok :: "miner \<Rightarrow> bool" where
  "inner_ok m \<longleftrightarrow>
     (\<forall>i<length (workers m). \<forall>c. worker_inner (workers m ! i) = Some c \<longrightarrow>
        c < next_chan m \<and> c \<notin> closed m \<and> miner_quit m \<noteq> Some c \<and>
        (\<forall>j<length (workers m). worker_inner (workers m ! j) = Some c \<longrightarrow> i = j))"

definition waiting_ok :: "miner \<Rightarrow> bool" where
  "waiting_ok m \<longleftrightarrow>
     (\<forall>i<length (workers m). \<forall>q inner. workers m ! i = WWaiting q inner \<longrightarrow> q \<in> closed m \<or> miner_quit m = Some q)"

definition generators_ok :: "miner \<Rightarrow> bool" where
  "generators_ok m \<longleftrightarrow>
     (\<forall>i<length (generators m). \<forall>c. generator_inner (generators m ! i) = Some c \<longrightarrow>
        c \<in> closed m \<or> owned c (workers m))"

definition miner_ok :: "miner \<Rightarrow> bool" where
  "miner_ok m \<longleftrightarrow> closed_ok m \<and> quit_ok m \<and> inner_ok m \<and> waiting_ok m \<and> generators_ok m"

lemmas miner_parts = closed_ok_def quit_ok_def inner_ok_def waiting_ok_def generators_ok_def

lemma miner_ok_New: "miner_ok New"
  by (simp add: miner_ok_def miner_parts New_def)

lemma miner_okD:
  assumes "miner_ok m"
  shows "c \<in> closed m \<Longrightarrow> c < next_chan m"
    and "miner_quit m = Some q \<Longrightarrow> q < next_chan m"
    and "miner_quit m = Some q \<Longrightarrow> q \<in> closed m \<longleftrightarrow> \<not> started m"
    and "started m \<Longrightarrow> \<exists>q. miner_quit m = Some q"
    and "i < length (workers m) \<Longrightarrow> worker_inner (workers m ! i) = Some c \<Longrightarrow>
      c < next_chan m \<and> c \<notin> closed m \<and> miner_quit m \<noteq> Some c"
  using assms by (auto simp: miner_ok_def closed_ok_def quit_ok_def inner_ok_def split: option.splits)

lemma Start_ok:
  assumes "miner_ok m" "\<not> started m"
  shows "miner_ok (m\<lparr>miner_block := block, miner_quit := Some (next_chan m), next_chan := Suc (next_chan m),
    workers := workers m @ [WSpawned], started := True\<rparr>)"
  using assms
  by (auto simp: miner_ok_def miner_parts owned_append nth_append less_Suc_eq split: option.splits)

lemma Stop_ok:
  assumes "miner_ok m" "miner_quit m = Some q"
  shows "miner_ok (m\<lparr>closed := insert q (closed m), started := False\<rparr>)"
  using assms by (auto simp: miner_ok_def miner_parts)

lemma enter_ok:
  assumes "miner_ok m" "i < length (workers m)" "workers m ! i = WSpawned"
  shows "miner_ok (m\<lparr>workers := (workers m)[i := WEntered (next_chan m)],
    generators := generators m @ [GSpawned (next_chan m)], next_chan := Suc (next_chan m)\<rparr>)"
    (is "miner_ok ?m")
proof -
  have "owned c (workers m) \<Longrightarrow> owned c ((workers m)[i := WEntered (next_chan m)])" for c
    using assms(2,3) by (simp add: owned_keep)
  then have "generators_ok ?m"
    using assms by (auto simp: miner_ok_def generators_ok_def nth_append less_Suc_eq owned_new)
  moreover have "inner_ok ?m"
  proof -
    let ?n = "next_chan m"
    have new: "?n \<notin> closed m" "miner_quit m \<noteq> Some ?n"
      using miner_okD(1,2) [OF assms(1)] by auto
    have old: "inner_ok m" using assms(1) by (simp add: miner_ok_def)
    then have "worker_inner (workers m ! j) \<noteq> Some ?n" if "j < length (workers m)" for j
      using that by (auto simp: inner_ok_def)
    with new old show ?thesis
      using assms(2,3) by (simp add: inner_ok_def nth_list_update less_SucI) blast
  qed
  moreover have "closed_ok ?m"
    using assms(1) by (auto simp: miner_ok_def closed_ok_def intro: less_SucI)
  moreover have "quit_ok ?m"
    using assms by (cases "miner_quit m") (auto simp: miner_ok_def quit_ok_def less_SucI)
  moreover have "waiting_ok ?m"
    using assms by (simp add: miner_ok_def waiting_ok_def nth_list_update)
  ultimately show ?thesis by (simp add: miner_ok_def)
qed

lemma wait_ok:
  assumes "miner_ok m" "i < length (workers m)" "workers m ! i = WEntered inner" "miner_quit m = Some q"
  shows "miner_ok (m\<lparr>workers := (workers m)[i := WWaiting q inner]\<rparr>)" (is "miner_ok ?m")
proof -
  have "owned c (workers m) \<Longrightarrow> owned c ((workers m)[i := WWaiting q inner])" for c
    using assms(2,3) by (cases "c = inner") (simp_all add: owned_keep owned_new)
  then have "generators_ok ?m" using assms by (auto simp: miner_ok_def generators_ok_def)
  moreover have "inner_ok ?m"
    using assms by (auto simp: miner_ok_def inner_ok_def nth_list_update)
  moreover have "closed_ok ?m" "quit_ok ?m" "waiting_ok ?m"
    using assms by (auto simp: miner_ok_def closed_ok_def quit_ok_def waiting_ok_def nth_list_update)
  ultimately show ?thesis by (simp add: miner_ok_def)
qed

lemma finish_ok:
  assumes "miner_ok m" "i < length (workers m)" "workers m ! i = WWaiting q inner"
  shows "miner_ok (m\<lparr>closed := insert inner (closed m), workers := (workers m)[i := WDone]\<rparr>)" (is "miner_ok ?m")
proof -
  have inner: "inner < next_chan m" "miner_quit m \<noteq> Some inner"
    using miner_okD(5) [OF assms(1,2)] assms(3) by auto
  have "owned c (workers m) \<Longrightarrow> c \<noteq> inner \<Longrightarrow> owned c ((workers m)[i := WDone])" for c
    using assms(2,3) by (simp add: owned_keep)
  then have "generators_ok ?m" using assms by (auto simp: miner_ok_def generators_ok_def)
  moreover have "inner_ok ?m"
    using assms by (auto simp: miner_ok_def inner_ok_def nth_list_update)
  moreover have "closed_ok ?m" "waiting_ok ?m"
    using assms inner by (auto simp: miner_ok_def closed_ok_def waiting_ok_def nth_list_update)
  moreover have "quit_ok ?m"
    using assms inner by (auto simp: miner_ok_def quit_ok_def split: option.splits)
  ultimately show ?thesis by (simp add: miner_ok_def)
qed

lemma generator_ok:
  assumes "miner_ok m" "i < length (generators m)"
    and "generator_inner g = None \<or> generator_inner g = generator_inner (generators m ! i)"
  shows "miner_ok (m\<lparr>generators := (generators m)[i := g], found := fs\<rparr>)" (is "miner_ok ?m")
proof -
  have "generators_ok ?m"
    using assms by (auto simp: miner_ok_def generators_ok_def nth_list_update)
  moreover have "closed_ok ?m" "waiting_ok ?m" "inner_ok ?m"
    using assms by (simp_all add: miner_ok_def closed_ok_def waiting_ok_def inner_ok_def)
  moreover have "quit_ok ?m"
    using assms by (cases "miner_quit m") (simp_all add: miner_ok_def quit_ok_def)
  ultimately show ?thesis by (simp add: miner_ok_def)
qed


section \<open>Every event keeps the invariant\<close>

lemma worker_step_ok:
  assumes ok: "miner_ok m" and step: "worker_step i m = Returns () m'"
  shows "miner_ok m'"
proof (cases "i < length (workers m)")
  case True
  show ?thesis
  proof (cases "workers m ! i")
    case WSpawned
    with True step enter_ok [OF ok True WSpawned] show ?thesis by (auto simp: worker_step_def)
  next
    case (WEntered inner)
    with True step wait_ok [OF ok True WEntered] show ?thesis
      by (auto simp: worker_step_def split: option.splits)
  next
    case (WWaiting q inner)
    with True step ok finish_ok [OF ok True WWaiting] show ?thesis
      by (auto simp: worker_step_def close_chan_def prog_simps split: if_splits)
  next
    case WDone
    with True step ok show ?thesis by (simp add: worker_step_def)
  qed
qed (use assms in \<open>simp add: worker_step_def\<close>)

lemma generator_step_ok:
  assumes ok: "miner_ok m" and step: "generator_step i solved m = Returns () m'"
  shows "miner_ok m'"
proof (cases "i < length (generators m)")
  case True
  note rule = generator_ok [OF ok True]
  show ?thesis
  proof (cases "generators m ! i")
    case (GSpawned inner)
    with True step rule [of "GRunning inner (miner_block m)" "found m"] show ?thesis
      by (auto simp: generator_step_def)
  next
    case (GRunning inner b)
    with True step ok rule [of GDone "found m"] rule [of GDone "found m @ [b]"] show ?thesis
      by (auto simp: generator_step_def split: if_splits)
  next
    case GDone
    with True step ok show ?thesis by (simp add: generator_step_def)
  qed
qed (use assms in \<open>simp add: generator_step_def\<close>)

lemma event_ok:
  assumes "miner_ok m" "event_prog e m = Returns () m'"
  shows "miner_ok m'"
proof (cases e)
  case (EvStart block)
  with assms Start_ok [OF assms(1)] show ?thesis
    by (auto simp: Start_def prog_simps split: if_splits)
next
  case EvStop
  with assms Stop_ok [OF assms(1)] show ?thesis
    by (auto simp: Stop_def close_chan_def prog_simps split: if_splits option.splits)
next
  case (EvWorker i)
  with assms show ?thesis by (auto intro: worker_step_ok)
next
  case (EvGenerator i solved)
  with assms show ?thesis by (auto intro: generator_step_ok)
qed

lemma reachable_ok: "reachable m \<Longrightarrow> miner_ok m"
  by (induction rule: reachable.induct) (auto intro: miner_ok_New event_ok)

lemma entered_quit:
  assumes "miner_ok m" "i < length (workers m)"
  shows "\<exists>q. miner_quit m = Some q"
  using assms by (cases "miner_quit m") (auto simp: miner_ok_def quit_ok_def)

lemma event_returns:
  assumes ok: "miner_ok m"
  shows "\<exists>m'. event_prog e m = Returns () m'"
proof (cases e)
  case (EvStart block)
  then show ?thesis by (simp add: Start_def prog_simps)
next
  case EvStop
  with miner_okD(3,4) [OF ok] show ?thesis by (auto simp: Stop_def close_chan_def prog_simps)
next
  case (EvWorker i)
  show ?thesis
  proof (cases "i < length (workers m)")
    case True
    then obtain q where "miner_quit m = Some q" using entered_quit [OF ok] by blast
    with True miner_okD(5) [OF ok True] EvWorker show ?thesis
      by (simp add: worker_step_def close_chan_def prog_simps split: worker.splits)
  qed (simp add: EvWorker worker_step_def)
next
  case (EvGenerator i solved)
  then show ?thesis by (simp add: generator_step_def split: generator.splits)
qed

text \<open>
C30: The miner's channel discipline is safe. In every state that any interleaving of
\<open>Start\<close>, \<open>Stop\<close>, worker and generator steps reaches, each of these steps returns: the
\<open>close\<close> of \<open>Stop\<close> and the one of \<open>miningWorker\<close> never meet a nil or an already closed
channel, and no worker waits on a nil channel. And the quit channel of a started miner is open.
\<close>
theorem miner_channels_safe:
  assumes "reachable m"
  shows "(\<exists>m'. event_prog e m = Returns () m') \<and>
    (started m \<longrightarrow> (\<exists>q. miner_quit m = Some q \<and> q \<notin> closed m))"
  using event_returns [OF reachable_ok [OF assms]] miner_okD(3,4) [OF reachable_ok [OF assms]] by blast

section \<open>Runs\<close>

definition run :: "event list \<Rightarrow> (miner, unit) prog" where
  "run es = each event_prog es"

lemma run_simps [simp]:
  "run [] m = Returns () m"
  "event_prog e m = Returns () m' \<Longrightarrow> run (e # es) m = run es m'"
  by (simp_all add: run_def prog_simps)

lemma reachable_run: "reachable m \<Longrightarrow> run es m = Returns () m' \<Longrightarrow> reachable m'"
proof (induction es arbitrary: m)
  case (Cons e es)
  obtain m1 where m1: "event_prog e m = Returns () m1"
    using event_returns [OF reachable_ok [OF Cons.prems(1)]] by blast
  with Cons.prems have "reachable m1" by (blast intro: reachable.step)
  with m1 Cons show ?case by simp
qed simp

text \<open>How far the goroutines are from their end.\<close>

primrec worker_left :: "worker \<Rightarrow> nat" where
  "worker_left WSpawned = 6"
| "worker_left (WEntered inner) = 2"
| "worker_left (WWaiting q inner) = 1"
| "worker_left WDone = 0"

primrec generator_left :: "generator \<Rightarrow> nat" where
  "generator_left (GSpawned inner) = 2"
| "generator_left (GRunning inner b) = 1"
| "generator_left GDone = 0"

definition left :: "miner \<Rightarrow> nat" where
  "left m = sum_list (map worker_left (workers m)) + sum_list (map generator_left (generators m))"

definition quiet :: "miner \<Rightarrow> bool" where
  "quiet m \<longleftrightarrow> set (workers m) \<subseteq> {WDone} \<and> set (generators m) \<subseteq> {GDone}"

lemma left_update:
  fixes f :: "'a \<Rightarrow> nat"
  assumes "i < length xs" "f x < f (xs ! i)"
  shows "sum_list (map f (xs[i := x])) + f (xs ! i) = sum_list (map f xs) + f x"
proof -
  have "f (xs ! i) \<le> sum_list (map f xs)"
    using assms(1) by (metis elem_le_sum_list length_map nth_map)
  then show ?thesis using assms by (simp add: map_update sum_list_update)
qed

lemma live_index:
  assumes "\<not> set xs \<subseteq> {d}"
  obtains i where "i < length xs" "xs ! i \<noteq> d"
  using assms by (metis in_set_conv_nth insertI1 subsetI)

lemma worker_progress:
  assumes ok: "miner_ok m" and stopped: "\<not> started m"
    and i: "i < length (workers m)" and live: "workers m ! i \<noteq> WDone"
  obtains m' where "worker_step i m = Returns () m'" "left m' < left m" "found m' = found m" "\<not> started m'"
proof (cases "workers m ! i")
  case WSpawned
  with left_update [of i "workers m" worker_left "WEntered (next_chan m)"] i stopped that show thesis
    by (simp add: worker_step_def left_def)
next
  case (WEntered inner)
  obtain q where "miner_quit m = Some q" using entered_quit [OF ok i] by blast
  with WEntered left_update [of i "workers m" worker_left "WWaiting q inner"] i stopped that show thesis
    by (simp add: worker_step_def left_def)
next
  case (WWaiting q inner)
  then have "q \<in> closed m"
    using ok i stopped miner_okD(3) [OF ok] by (auto simp: miner_ok_def waiting_ok_def)
  moreover have "inner \<notin> closed m"
    using miner_okD(5) [OF ok i] WWaiting by simp
  ultimately show thesis
    using WWaiting left_update [of i "workers m" worker_left WDone] i stopped that
    by (simp add: worker_step_def left_def close_chan_def prog_simps)
qed (use live in simp)

lemma generator_progress:
  assumes ok: "miner_ok m" and stopped: "\<not> started m" and ended: "set (workers m) \<subseteq> {WDone}"
    and i: "i < length (generators m)" and live: "generators m ! i \<noteq> GDone"
  obtains m' where "generator_step i False m = Returns () m'" "left m' < left m" "found m' = found m" "\<not> started m'"
proof (cases "generators m ! i")
  case (GSpawned inner)
  with left_update [of i "generators m" generator_left "GRunning inner (miner_block m)"] i stopped that show thesis
    by (simp add: generator_step_def left_def)
next
  case (GRunning inner b)
  have "\<not> owned inner (workers m)" using ended by (auto simp: owned_def)
  then have "inner \<in> closed m"
    using ok i GRunning by (auto simp: miner_ok_def generators_ok_def)
  with GRunning left_update [of i "generators m" generator_left GDone] i stopped that show thesis
    by (simp add: generator_step_def left_def)
qed (use live in simp)

lemma step_towards_quiet:
  assumes "miner_ok m" "\<not> started m" "\<not> quiet m"
  obtains e m' where "event_prog e m = Returns () m'" "left m' < left m" "found m' = found m" "\<not> started m'"
proof (cases "set (workers m) \<subseteq> {WDone}")
  case False
  then obtain i where "i < length (workers m)" "workers m ! i \<noteq> WDone" by (rule live_index)
  from worker_progress [OF assms(1,2) this] that [of "EvWorker i"] show thesis by auto
next
  case True
  with assms(3) have "\<not> set (generators m) \<subseteq> {GDone}" by (simp add: quiet_def)
  then obtain i where "i < length (generators m)" "generators m ! i \<noteq> GDone" by (rule live_index)
  from generator_progress [OF assms(1,2) True this] that [of "EvGenerator i False"] show thesis by auto
qed

lemma drain:
  assumes "miner_ok m" "\<not> started m"
  shows "\<exists>es m'. run es m = Returns () m' \<and> quiet m' \<and> found m' = found m"
  using assms
proof (induction "left m" arbitrary: m rule: less_induct)
  case less
  show ?case
  proof (cases "quiet m")
    case True
    have "run [] m = Returns () m" by simp
    with True show ?thesis by blast
  next
    case False
    from step_towards_quiet [OF less.prems False] obtain e m' where
      e: "event_prog e m = Returns () m'" "left m' < left m" "found m' = found m" "\<not> started m'" by metis
    with less.hyps [of m'] event_ok [OF less.prems(1) e(1)] obtain es m'' where
      "run es m' = Returns () m''" "quiet m''" "found m'' = found m" by auto
    with run_simps(2) [OF e(1), of es] show ?thesis by metis
  qed
qed

text \<open>
C31: Stopping takes effect. From every reachable state in which the miner is not started
(so after every \<open>Stop\<close>) the workers and generators can all run to their end, with no
further call of the callback: none of them waits for a channel that nobody will close.
\<close>
theorem miner_stop_drains:
  assumes "reachable m" "\<not> started m"
  shows "\<exists>es m'. run es m = Returns () m' \<and> quiet m' \<and> found m' = found m"
  by (rule drain [OF reachable_ok [OF assms(1)] assms(2)])


definition stopped_early :: "event list" where
  "stopped_early = [EvStart None, EvWorker 0, EvStop]"

lemma stopped_early_state:
  "run stopped_early New = Returns ()
     \<lparr>started = False, miner_block = None, miner_quit = Some 0, closed = {0}, next_chan = 2,
      workers = [WEntered 1], generators = [GSpawned 1], found = []\<rparr>"
  by (simp add: run_def stopped_early_def New_def Start_def Stop_def worker_step_def close_chan_def prog_simps
      numeral_eq_Suc)

lemma miner_channels_safe_witness:
  "\<exists>m. run [EvStart None, EvWorker 0] New = Returns () m \<and> started m \<and>
     (\<exists>m'. event_prog EvStop m = Returns () m') \<and> (\<exists>q. miner_quit m = Some q \<and> q \<notin> closed m)"
proof -
  obtain m where m: "run [EvStart None, EvWorker 0] New = Returns () m" "started m"
    by (simp add: run_def New_def Start_def worker_step_def prog_simps)
  with miner_channels_safe [OF reachable_run [OF reachable.initial m(1)], of EvStop] show ?thesis by blast
qed

lemma miner_stop_drains_witness:
  "\<exists>m es m'. run stopped_early New = Returns () m \<and> \<not> quiet m \<and>
     run es m = Returns () m' \<and> quiet m' \<and> found m' = []"
  using miner_stop_drains [OF reachable_run [OF reachable.initial stopped_early_state]]
  by (auto simp: stopped_early_state quiet_def)

text \<open>
A worker reads the miner's quit channel when it first runs, not when it was started. So if a
\<open>Start\<close>, a \<open>Stop\<close> and a second \<open>Start\<close> come before the first worker is scheduled, both
workers wait for the second quit channel, two generators mine the second block, and the
callback is called twice with it; the first block is never mined.
\<close>
theorem miner_restart_race:
  "\<exists>m. run [EvStart b, EvStop, EvStart b', EvWorker 0, EvWorker 0, EvWorker 1, EvWorker 1,
          EvGenerator 0 False, EvGenerator 1 False, EvGenerator 0 True, EvGenerator 1 True] New = Returns () m
     \<and> started m \<and> workers m = [WWaiting 1 2, WWaiting 1 3] \<and> found m = [b', b']"
  by (simp add: run_def New_def Start_def Stop_def worker_step_def generator_step_def close_chan_def prog_simps
      numeral_eq_Suc)

end
