(* ===== verification/Clock.thy ===== *)
theory Clock
  imports Prelude
begin

text \<open>
  service/clock.go, \<open>PrivateClock\<close>: a window of the last \<open>Size\<close> time stamps, guarded by its own
  mutex. \<open>Push\<close> and \<open>Clock\<close> hold that mutex while they call \<open>lockLen\<close>, which locks it too.
  Their bodies are written over the program that yields the length, so that what they would
  compute with a length that does not lock can be stated as well.
\<close>

record PrivateClock =
  pc_List :: "u64 list"
  pc_locked :: bool
  pc_Size :: int

definition newPrivateClock :: "int \<Rightarrow> PrivateClock" where
  "newPrivateClock sz = \<lparr>pc_List = [], pc_locked = False, pc_Size = sz\<rparr>"

abbreviation put_pc_locked :: "bool \<Rightarrow> PrivateClock \<Rightarrow> PrivateClock" where
  "put_pc_locked b pc \<equiv> pc\<lparr>pc_locked := b\<rparr>"

definition Len :: "(PrivateClock, int) prog" where
  "Len = gets (\<lambda>pc. int (length (pc_List pc)))"

definition lockLen :: "(PrivateClock, int) prog" where
  "lockLen = with_lock pc_locked put_pc_locked Len"

text \<open>\<open>pc.Remove(pc.Front())\<close>: the front of an empty list is nil.\<close>

definition remove_front :: "(PrivateClock, unit) prog" where
  "remove_front = bnd (gets pc_List) (\<lambda>l.
     case l of [] \<Rightarrow> panics NilDereference | _ # vs \<Rightarrow> modifies (\<lambda>pc. pc\<lparr>pc_List := vs\<rparr>))"

text \<open>
  The loop \<open>for i := 0; i <= lockLen() - Size; i++\<close>. Every round removes an element, so one round
  more than the list is long is enough, and the last one finds the list empty.
\<close>

primrec trim :: "nat \<Rightarrow> (PrivateClock, int) prog \<Rightarrow> int \<Rightarrow> (PrivateClock, unit) prog" where
  "trim 0 len i = hangs"
| "trim (Suc rounds) len i =
     bnd len (\<lambda>n. bnd (gets pc_Size) (\<lambda>size.
     if i \<le> n - size then seqp remove_front (trim rounds len (i + 1)) else ret ()))"

definition push_body :: "(PrivateClock, int) prog \<Rightarrow> u64 \<Rightarrow> (PrivateClock, unit) prog" where
  "push_body len val =
     bnd len (\<lambda>n. bnd (gets pc_Size) (\<lambda>size.
     bnd (gets (\<lambda>pc. length (pc_List pc))) (\<lambda>rounds.
     seqp (whenp (n \<ge> size) (trim (Suc (Suc rounds)) len 0))
       (modifies (\<lambda>pc. pc\<lparr>pc_List := pc_List pc @ [val]\<rparr>)))))"

definition Push :: "u64 \<Rightarrow> (PrivateClock, unit) prog" where
  "Push val = with_lock pc_locked put_pc_locked (push_body lockLen val)"

text \<open>The time between the newest and the oldest stamp, over their number, in 64 bits.\<close>

definition clock_body :: "(PrivateClock, int) prog \<Rightarrow> (PrivateClock, u64) prog" where
  "clock_body len =
     bnd len (\<lambda>n. if n = 0 then ret 0 else
     bnd (gets pc_List) (\<lambda>l. bnd len (\<lambda>n.
     case l of
       [] \<Rightarrow> panics NilDereference
     | front # _ \<Rightarrow> if of_int n = (0 :: u64) then panics DivideByZero
         else ret ((last l - front) div of_int n))))"

definition Clock :: "(PrivateClock, u64) prog" where
  "Clock = with_lock pc_locked put_pc_locked (clock_body lockLen)"

section \<open>Properties\<close>

lemma lockLen_locked: "pc_locked pc \<Longrightarrow> lockLen pc = Blocks pc"
  by (simp add: lockLen_def prog_simps)

lemma Push_blocks: "Push val pc = Blocks (pc\<lparr>pc_locked := True\<rparr>)"
  by (auto simp: Push_def push_body_def prog_simps lockLen_locked)

lemma Clock_blocks: "Clock pc = Blocks (pc\<lparr>pc_locked := True\<rparr>)"
  by (auto simp: Clock_def clock_body_def prog_simps lockLen_locked)

text \<open>
  The private clock deadlocks. On any clock, whatever it holds, \<open>Push\<close> and \<open>Clock\<close> block for
  ever on the mutex they have just taken: no stamp is ever recorded or read, and the mutex
  stays locked for everyone else.
\<close>

theorem PrivateClock_deadlocks:
  "Push val pc = Blocks (pc\<lparr>pc_locked := True\<rparr>) \<and> Clock pc = Blocks (pc\<lparr>pc_locked := True\<rparr>)"
  by (simp add: Push_blocks Clock_blocks)

text \<open>What \<open>Push\<close> does when reading the length takes no lock.\<close>

lemma push_body_short:
  "int (length (pc_List pc)) < pc_Size pc \<Longrightarrow> push_body Len val pc = Returns () (pc\<lparr>pc_List := pc_List pc @ [val]\<rparr>)"
  by (simp add: push_body_def Len_def prog_simps)

lemma push_body_full:
  "int (length (pc_List pc)) = pc_Size pc \<Longrightarrow> pc_List pc \<noteq> [] \<Longrightarrow>
   push_body Len val pc = Returns () (pc\<lparr>pc_List := tl (pc_List pc) @ [val]\<rparr>)"
  by (cases "pc_List pc") (simp_all add: push_body_def Len_def remove_front_def prog_simps)

text \<open>The last \<open>n\<close> elements of a list.\<close>

definition latest_stamps :: "nat \<Rightarrow> u64 list \<Rightarrow> u64 list" where
  "latest_stamps n vs = drop (length vs - n) vs"

lemma latest_stamps_snoc:
  assumes "0 < n"
  shows "latest_stamps n (vs @ [v]) =
    (if length vs < n then latest_stamps n vs @ [v] else tl (latest_stamps n vs) @ [v])"
  using assms by (auto simp: latest_stamps_def Suc_diff_le drop_Suc tl_drop)

text \<open>
  The lock is the only fault. With a length that takes no lock, the body of \<open>Push\<close> keeps
  the window: after any sequence of pushes on a new clock of positive size it holds the last
  \<open>size\<close> stamps in their order.
\<close>

theorem Push_window:
  assumes "0 < sz"
  shows "each (push_body Len) vs (newPrivateClock (int sz)) =
    Returns () ((newPrivateClock (int sz))\<lparr>pc_List := latest_stamps sz vs\<rparr>)"
proof -
  have step: "each (push_body Len) vs ((newPrivateClock (int sz))\<lparr>pc_List := latest_stamps sz us\<rparr>) =
      Returns () ((newPrivateClock (int sz))\<lparr>pc_List := latest_stamps sz (us @ vs)\<rparr>)" for us
  proof (induction vs arbitrary: us)
    case Nil
    then show ?case by (simp add: prog_simps)
  next
    case (Cons v vs)
    let ?pc = "(newPrivateClock (int sz))\<lparr>pc_List := latest_stamps sz us\<rparr>"
    have "push_body Len v ?pc = Returns () ((newPrivateClock (int sz))\<lparr>pc_List := latest_stamps sz (us @ [v])\<rparr>)"
    proof (cases "length us < sz")
      case True
      then show ?thesis
        using push_body_short [of ?pc v] by (simp add: latest_stamps_def newPrivateClock_def)
    next
      case False
      then have "latest_stamps sz us \<noteq> []" "length (latest_stamps sz us) = sz"
        using assms by (auto simp: latest_stamps_def)
      then show ?thesis
        using push_body_full [of ?pc v] False by (simp add: latest_stamps_snoc assms newPrivateClock_def)
    qed
    then show ?case using Cons.IH [of "us @ [v]"] by (simp add: prog_simps)
  qed
  show ?thesis using step [of "[]"] by (simp add: latest_stamps_def newPrivateClock_def)
qed

lemma Push_window_witness:
  "each (push_body Len) [1, 2, 3, 4] (newPrivateClock 3) =
    Returns () ((newPrivateClock 3)\<lparr>pc_List := [2, 3, 4]\<rparr>)"
  using Push_window [of 3 "[1, 2, 3, 4]"] by (simp add: latest_stamps_def)

end
