(* ===== verification/Urls.thy ===== *)
theory Urls
  imports Prelude
begin

text \<open>
  utils/utils.go, \<open>ConvertPeerURL\<close>. The parser of \<open>net/url\<close>, the suite lookup and the point decoder
  are the fields of an environment. A public key is known by its \<open>String()\<close>; the key of a server
  identity is a nil interface when the URL has no user part, and calling \<open>String\<close> on it panics.
\<close>

record ServerIdentity =
  si_Public :: "string option"
  si_Address :: "string \<times> string"

text \<open>\<open>si_Address\<close>: the connection type and the host, the arguments of \<open>network.NewAddress\<close>.\<close>

record url =
  url_Scheme :: string
  url_Username :: string
  url_Host :: string

record url_env =
  url_Parse :: "string \<Rightarrow> url result"
  find_suite :: "go_error option"
  StringHexToPoint :: "string \<Rightarrow> string result"

definition PlainTCP :: string where "PlainTCP = ''tcp''"
definition TLS :: string where "TLS = ''tls''"

definition ConvertPeerURL :: "url_env \<Rightarrow> string \<Rightarrow> ServerIdentity result" where
  "ConvertPeerURL U peerURL =
     (case url_Parse U peerURL of
        Inl err \<Rightarrow> Inl (''url parse error: '' @ err)
      | Inr p \<Rightarrow>
         (case find_suite U of
            Some err \<Rightarrow> Inl (''kyber suite: '' @ err)
          | None \<Rightarrow>
             (let connType = (if url_Scheme p = ''tcp'' then PlainTCP else TLS);
                  identity = (\<lambda>point. \<lparr>si_Public = point, si_Address = (connType, url_Host p)\<rparr>)
              in if url_Username p \<noteq> [] then
                   (case StringHexToPoint U (url_Username p) of
                      Inl err \<Rightarrow> Inl (''parsing public key error: '' @ err)
                    | Inr point \<Rightarrow> Inr (identity (Some point)))
                 else Inr (identity None))))"

text \<open>\<open>si.Public.String()\<close>.\<close>

definition PublicString :: "ServerIdentity \<Rightarrow> ('s, string) prog" where
  "PublicString si = deref (si_Public si)"

lemma ConvertPeerURL_key:
  "ConvertPeerURL U u = Inr si \<Longrightarrow>
   \<exists>p. url_Parse U u = Inr p \<and> (si_Public si = None \<longleftrightarrow> url_Username p = []) \<and> snd (si_Address si) = url_Host p"
  by (auto simp: ConvertPeerURL_def Let_def split: sum.splits option.splits if_splits)

end
