(* ===== verification/Node.thy ===== *)
theory Node
  imports BlockStore Pool Miner Clock Urls
begin

text \<open>
  service/service.go, service/struct.go: the state of a node, its messages, and the primitives the
  handlers are built from. A handler runs alone, as one program over the state; goroutines it
  starts (\<open>go f(x)\<close>) are appended to \<open>spawned\<close> and messages it sends to \<open>outbox\<close>. A goroutine
  that sleeps or waits is cut there: the part after it is a task of its own.
\<close>

section \<open>Messages and tasks\<close>

text \<open>What \<open>BlockMessage.Block\<close>, an \<open>interface{}\<close>, can hold.\<close>

datatype payload = PBlock Block | PDeFork DeForkBlock | PHello NewLeaderHelloBlock

datatype Msg =
    PingMessage string
  | TunnelMessage string
  | BlockMessage int "payload option"
  | HandshakeMessage slice "NewLeaderHelloBlock option" bool
  | DownloadBlockRequest slice u64 u64
  | DownloadBlockResponse "NewLeaderHelloBlock option list" slice
  | SignatureRequest "Block option list"
  | SignatureResponse string "string \<Rightarrow> Block option"
  | ProxyRequest "Block option list option"
  | ProxyResponse string "string \<Rightarrow> Block option"
  | AddressMessage "string list"

definition CandidateBlock :: int where "CandidateBlock = 0"
definition RefererBlock :: int where "RefererBlock = 1"
definition NewLeaderHello :: int where "NewLeaderHello = 2"
definition ProposalBlock :: int where "ProposalBlock = 3"
definition TxBlock :: int where "TxBlock = 4"

lemmas block_types = CandidateBlock_def RefererBlock_def NewLeaderHello_def ProposalBlock_def TxBlock_def

definition COSI_MEMBERS :: nat where "COSI_MEMBERS = 11"
definition DEFAULT_DS :: u64 where "DEFAULT_DS = 10"
definition MAX_BLOCK_PERONCE :: u64 where "MAX_BLOCK_PERONCE = 1"

record Envelope =
  env_ServerIdentity :: ServerIdentity
  env_Msg :: Msg

record RemoteServerIndex =
  ri_Index :: u64
  ri_ServerIdentity :: ServerIdentity

text \<open>
  The goroutines: the methods started with \<open>go\<close>, and what remains of one after it has slept
  (\<open>TimerFired\<close> and \<open>LeaderCounts\<close> of \<open>startTimer\<close>, \<open>LeaderReady\<close> of \<open>startNewLeaderHelloBlock\<close>), waits for
  a channel (\<open>Collecting\<close> of \<open>processMessage\<close>) or stands between reading a shared field and writing it
  without a lock (\<open>ArmTimer\<close> of \<open>startTimer\<close>), and the function literal of \<open>startTimer\<close> (\<open>ProposeBlocks\<close>).
\<close>

datatype task =
    Broadcast payload int
  | BroadcastAddress "string list"
  | AddPeers "ServerIdentity list" bool
  | RemovePeers "ServerIdentity list"
  | MemberGroup NewLeaderHelloBlock
  | StartMiner NewLeaderHelloBlock
  | StartTimer NewLeaderHelloBlock
  | ArmTimer NewLeaderHelloBlock
  | TimerFired NewLeaderHelloBlock
  | ProposeBlocks NewLeaderHelloBlock
  | LeaderCounts
  | NewLeader DeForkBlock
  | LeaderReady NewLeaderHelloBlock string DeForkBlock
  | ProcessMessage nat
  | Collecting nat "RemoteServerIndex list"
  | MainLoop

section \<open>State and environment\<close>

record peerStorage =
  peerNodeMap :: "string \<rightharpoonup> ServerIdentity"
  ps_locked :: bool

text \<open>
  \<open>synChan\<close> has one place. Sending to it is the last thing \<open>handleHandshakeMessage\<close> does, so a
  sender that waits for the place is an entry of the list beyond the first. The channels
  \<open>proxyResponseChan\<close> and \<open>signatureResponseChan\<close> have no place, and nothing receives from them.
\<close>

record 'k Service =
  db :: "'k BlockDB"
  buffer :: blockBuffer
  txs :: txPool
  peerStorage :: peerStorage
  proxyStorage :: peerStorage
  addressMap :: "string \<rightharpoonup> bool"
  synChan :: "RemoteServerIndex list"
  synDone :: bool
  createBlockChainMutex :: bool
  privateClock :: PrivateClock
  deForkBlock :: "DeForkBlock option"
  ds :: u64
  timerRunning :: bool
  the_miner :: miner
  outbox :: "(ServerIdentity \<times> Msg) list"
  spawned :: "task list"

text \<open>
  What a node relies on: its storage, its own identity, the network (the answer to the \<open>n\<close>-th
  message it sends), the order in which a map with given keys is visited, the random choice,
  the genesis block (\<open>bc.GetGenesisBlock\<close>, which the tree does not have), how identities are
  printed, and the URL parser.
\<close>

record ('k, 'v) node_env =
  store :: "('k, 'v) db_env"
  self :: ServerIdentity
  network_send :: "nat \<Rightarrow> ServerIdentity \<Rightarrow> Msg \<Rightarrow> go_error option"
  key_order :: "string set \<Rightarrow> string list"
  random_index :: "nat \<Rightarrow> nat \<Rightarrow> nat"
  genesis_block :: NewLeaderHelloBlock
  show_identity :: "ServerIdentity \<Rightarrow> string"
  urls :: url_env

type_synonym ('k, 'a) node = "('k Service, 'a) prog"

section \<open>Primitives\<close>

definition on_db :: "('k BlockDB, 'a) prog \<Rightarrow> ('k, 'a) node" where
  "on_db = zoom db (\<lambda>d s. s\<lparr>db := d\<rparr>)"

definition on_buffer :: "(blockBuffer, 'a) prog \<Rightarrow> ('k, 'a) node" where
  "on_buffer = zoom buffer (\<lambda>b s. s\<lparr>buffer := b\<rparr>)"

definition on_clock :: "(PrivateClock, 'a) prog \<Rightarrow> ('k, 'a) node" where
  "on_clock = zoom privateClock (\<lambda>c s. s\<lparr>privateClock := c\<rparr>)"

definition on_miner :: "(miner, 'a) prog \<Rightarrow> ('k, 'a) node" where
  "on_miner = zoom the_miner (\<lambda>m s. s\<lparr>the_miner := m\<rparr>)"

definition spawn :: "task \<Rightarrow> ('k, unit) node" where
  "spawn t = modifies (\<lambda>s. s\<lparr>spawned := spawned s @ [t]\<rparr>)"

definition SendRaw :: "('k, 'v) node_env \<Rightarrow> ServerIdentity \<Rightarrow> Msg \<Rightarrow> ('k, go_error option) node" where
  "SendRaw E si msg =
     bnd (gets (\<lambda>s. length (outbox s))) (\<lambda>n.
     seqp (modifies (\<lambda>s. s\<lparr>outbox := outbox s @ [(si, msg)]\<rparr>)) (ret (network_send E n si msg)))"

text \<open>The values of a peer map, in the order of this visit.\<close>

definition peer_list :: "('k, 'v) node_env \<Rightarrow> (string \<rightharpoonup> ServerIdentity) \<Rightarrow> ServerIdentity list" where
  "peer_list E m = map_values (key_order E (dom m)) m"

text \<open>The loop that sends one message to every peer and only logs the errors.\<close>

definition send_all :: "('k, 'v) node_env \<Rightarrow> Msg \<Rightarrow> ServerIdentity list \<Rightarrow> ('k, unit) node" where
  "send_all E msg = each (\<lambda>peer. bnd (SendRaw E peer msg) (\<lambda>err. ret ()))"

definition BroadcastBlock :: "('k, 'v) node_env \<Rightarrow> payload \<Rightarrow> int \<Rightarrow> ('k, unit) node" where
  "BroadcastBlock E block type = bnd (gets (\<lambda>s. peerNodeMap (peerStorage s))) (\<lambda>m.
     send_all E (BlockMessage type (Some block)) (peer_list E m))"

definition BroadcastAddressTx :: "('k, 'v) node_env \<Rightarrow> string list \<Rightarrow> ('k, unit) node" where
  "BroadcastAddressTx E addresses = bnd (gets (\<lambda>s. peerNodeMap (peerStorage s))) (\<lambda>m.
     send_all E (AddressMessage addresses) (peer_list E m))"

definition publicKey :: "('k, 'v) node_env \<Rightarrow> ('k, string) node" where
  "publicKey E = PublicString (self E)"

abbreviation put_ps_locked :: "bool \<Rightarrow> 'k Service \<Rightarrow> 'k Service" where
  "put_ps_locked b s \<equiv> s\<lparr>peerStorage := (peerStorage s)\<lparr>ps_locked := b\<rparr>\<rparr>"

abbreviation put_proxy_locked :: "bool \<Rightarrow> 'k Service \<Rightarrow> 'k Service" where
  "put_proxy_locked b s \<equiv> s\<lparr>proxyStorage := (proxyStorage s)\<lparr>ps_locked := b\<rparr>\<rparr>"

abbreviation put_chain_locked :: "bool \<Rightarrow> 'k Service \<Rightarrow> 'k Service" where
  "put_chain_locked b s \<equiv> s\<lparr>createBlockChainMutex := b\<rparr>"

definition with_peers :: "('k, 'a) node \<Rightarrow> ('k, 'a) node" where
  "with_peers = with_lock (\<lambda>s. ps_locked (peerStorage s)) put_ps_locked"

definition with_proxies :: "('k, 'a) node \<Rightarrow> ('k, 'a) node" where
  "with_proxies = with_lock (\<lambda>s. ps_locked (proxyStorage s)) put_proxy_locked"

definition with_chain :: "('k, 'a) node \<Rightarrow> ('k, 'a) node" where
  "with_chain = with_lock createBlockChainMutex put_chain_locked"

definition cast_error :: "('k, 'v) node_env \<Rightarrow> ServerIdentity \<Rightarrow> string \<Rightarrow> go_error" where
  "cast_error E si what = show_identity E si @ '' failed to cast to '' @ what"

section \<open>Evaluation\<close>

definition sent :: "ServerIdentity list \<Rightarrow> Msg \<Rightarrow> 'k Service \<Rightarrow> 'k Service" where
  "sent sis msg s = s\<lparr>outbox := outbox s @ map (\<lambda>si. (si, msg)) sis\<rparr>"

lemma on_eval [prog_simps]:
  "on_db m s = (case m (db s) of Returns a d \<Rightarrow> Returns a (s\<lparr>db := d\<rparr>)
     | Panics p d \<Rightarrow> Panics p (s\<lparr>db := d\<rparr>) | Blocks d \<Rightarrow> Blocks (s\<lparr>db := d\<rparr>))"
  "on_buffer m' s = (case m' (buffer s) of Returns a d \<Rightarrow> Returns a (s\<lparr>buffer := d\<rparr>)
     | Panics p d \<Rightarrow> Panics p (s\<lparr>buffer := d\<rparr>) | Blocks d \<Rightarrow> Blocks (s\<lparr>buffer := d\<rparr>))"
  by (simp_all add: on_db_def on_buffer_def zoom_eval)

lemma on_eval' [prog_simps]:
  "on_clock m s = (case m (privateClock s) of Returns a d \<Rightarrow> Returns a (s\<lparr>privateClock := d\<rparr>)
     | Panics p d \<Rightarrow> Panics p (s\<lparr>privateClock := d\<rparr>) | Blocks d \<Rightarrow> Blocks (s\<lparr>privateClock := d\<rparr>))"
  "on_miner m' s = (case m' (the_miner s) of Returns a d \<Rightarrow> Returns a (s\<lparr>the_miner := d\<rparr>)
     | Panics p d \<Rightarrow> Panics p (s\<lparr>the_miner := d\<rparr>) | Blocks d \<Rightarrow> Blocks (s\<lparr>the_miner := d\<rparr>))"
  by (simp_all add: on_clock_def on_miner_def zoom_eval)

lemma spawn_eval [prog_simps]: "spawn t s = Returns () (s\<lparr>spawned := spawned s @ [t]\<rparr>)"
  by (simp add: spawn_def prog_simps)

lemma SendRaw_eval [prog_simps]:
  "SendRaw E si msg s = Returns (network_send E (length (outbox s)) si msg) (s\<lparr>outbox := outbox s @ [(si, msg)]\<rparr>)"
  by (simp add: SendRaw_def prog_simps)

lemma send_all_eval [prog_simps]: "send_all E msg sis s = Returns () (sent sis msg s)"
  by (induction sis arbitrary: s) (simp_all add: send_all_def prog_simps sent_def)

lemma broadcast_eval [prog_simps]:
  "BroadcastBlock E b t s = Returns () (sent (peer_list E (peerNodeMap (peerStorage s))) (BlockMessage t (Some b)) s)"
  "BroadcastAddressTx E as s = Returns () (sent (peer_list E (peerNodeMap (peerStorage s))) (AddressMessage as) s)"
  by (simp_all add: BroadcastBlock_def BroadcastAddressTx_def prog_simps)

lemma PublicString_eval [prog_simps]:
  "PublicString si s = (case si_Public si of None \<Rightarrow> Panics NilDereference s | Some k \<Rightarrow> Returns k s)"
  by (simp add: PublicString_def deref_def prog_simps split: option.split)

lemma publicKey_eval [prog_simps]:
  "publicKey E s = (case si_Public (self E) of None \<Rightarrow> Panics NilDereference s | Some k \<Rightarrow> Returns k s)"
  by (simp add: publicKey_def prog_simps)

text \<open>The visits of a map are visits of its keys.\<close>

definition orders_keys :: "('k, 'v) node_env \<Rightarrow> bool" where
  "orders_keys E \<longleftrightarrow> (\<forall>S. finite S \<longrightarrow> distinct (key_order E S) \<and> set (key_order E S) = S)"

lemma orders_enumerates: "orders_keys E \<Longrightarrow> finite (dom m) \<Longrightarrow> enumerates (key_order E (dom m)) m"
  by (simp add: orders_keys_def enumerates_def)

lemma set_peer_list: "orders_keys E \<Longrightarrow> finite (dom m) \<Longrightarrow> set (peer_list E m) = ran m"
  unfolding peer_list_def by (rule map_values_enumerates [OF orders_enumerates])

end
