(* ===== verification/Peers.thy ===== *)
theory Peers
  imports Node
begin

text \<open>
  service/service.go, the peers and gateways of a node: the client calls \<open>Peer\<close> and \<open>Proxy\<close>, the
  goroutines that add and remove peers, and the handlers of ping, tunnel and address messages.
\<close>

section \<open>Operations\<close>

text \<open>The loop of \<open>Peer\<close>: the peers that are known (for \<open>del\<close>) or not known (for \<open>add\<close>).\<close>

primrec select_peers :: "bool \<Rightarrow> ServerIdentity list \<Rightarrow> ('k, ServerIdentity list) node" where
  "select_peers known [] = ret []"
| "select_peers known (p # ps) =
     bnd (PublicString p) (\<lambda>key.
     bnd (gets (\<lambda>s. peerNodeMap (peerStorage s) key)) (\<lambda>entry.
     bnd (select_peers known ps) (\<lambda>rest.
     ret (if (entry \<noteq> None) = known then p # rest else rest))))"

definition Peer :: "('k, 'v) node_env \<Rightarrow> string \<Rightarrow> ServerIdentity list \<Rightarrow> ('k, ServerIdentity list result) node" where
  "Peer E command nodes = with_peers (
     if command = ''add'' then
       bnd (select_peers False nodes) (\<lambda>peers.
       seqp (whenp (length peers > 0) (spawn (AddPeers peers True))) (ret (Inr peers)))
     else if command = ''del'' then
       bnd (select_peers True nodes) (\<lambda>peers.
       seqp (whenp (length peers > 0) (spawn (RemovePeers peers))) (ret (Inr peers)))
     else if command = ''show'' then
       (if length nodes > 0 then ret (Inr nodes)
        else bnd (gets (\<lambda>s. peerNodeMap (peerStorage s))) (\<lambda>m. ret (Inr (peer_list E m))))
     else ret (Inl ''Command not supported''))"

primrec delete_proxies :: "string list \<Rightarrow> ('k, string list) node" where
  "delete_proxies [] = ret []"
| "delete_proxies (a # as) =
     bnd (gets (\<lambda>s. peerNodeMap (proxyStorage s) a)) (\<lambda>entry.
     seqp (whenp (entry \<noteq> None) (modifies (\<lambda>s. s\<lparr>addressMap := (addressMap s)(a := None)\<rparr>)))
     (bnd (delete_proxies as) (\<lambda>rest. ret (if entry \<noteq> None then a # rest else rest))))"

definition Proxy :: "('k, 'v) node_env \<Rightarrow> string \<Rightarrow> string list \<Rightarrow> ('k, string list result) node" where
  "Proxy E command nodes = with_proxies (
     if command = ''add'' then
       seqp (each (\<lambda>a. modifies (\<lambda>s. s\<lparr>addressMap := (addressMap s)(a \<mapsto> True)\<rparr>)) nodes)
         (seqp (whenp (length nodes > 0) (spawn (BroadcastAddress nodes))) (ret (Inr [])))
     else if command = ''del'' then
       bnd (delete_proxies nodes) (\<lambda>peers. ret (Inr peers))
     else if command = ''show'' then
       (if length nodes > 0 then ret (Inr nodes)
        else bnd (gets (\<lambda>s. peerNodeMap (proxyStorage s))) (\<lambda>m. ret (Inr (key_order E (dom m)))))
     else ret (Inl ''Command not supported''))"

definition put_peer :: "string \<Rightarrow> ServerIdentity \<Rightarrow> 'k Service \<Rightarrow> 'k Service" where
  "put_peer key peer s = s\<lparr>peerStorage := (peerStorage s)\<lparr>peerNodeMap := (peerNodeMap (peerStorage s))(key \<mapsto> peer)\<rparr>\<rparr>"

definition drop_peer :: "string \<Rightarrow> 'k Service \<Rightarrow> 'k Service" where
  "drop_peer key s = s\<lparr>peerStorage := (peerStorage s)\<lparr>peerNodeMap := (peerNodeMap (peerStorage s))(key := None)\<rparr>\<rparr>"

text \<open>The bodies of the two loops.\<close>

definition ping_and_add :: "('k, 'v) node_env \<Rightarrow> bool \<Rightarrow> ServerIdentity \<Rightarrow> ('k, unit) node" where
  "ping_and_add E needConn peer =
     bnd (if needConn then SendRaw E peer (PingMessage ''Ping Message'') else ret None) (\<lambda>err.
     if err \<noteq> None then ret ()
     else bnd (PublicString peer) (\<lambda>key. modifies (put_peer key peer)))"

definition drop_known :: "ServerIdentity \<Rightarrow> ('k, unit) node" where
  "drop_known peer =
     bnd (PublicString peer) (\<lambda>key.
     bnd (gets (\<lambda>s. peerNodeMap (peerStorage s) key)) (\<lambda>entry.
     whenp (entry \<noteq> None) (modifies (drop_peer key))))"

definition AddPeerServerIdentity :: "('k, 'v) node_env \<Rightarrow> ServerIdentity list \<Rightarrow> bool \<Rightarrow> ('k, unit) node" where
  "AddPeerServerIdentity E peers needConn = with_peers (each (ping_and_add E needConn) peers)"

definition RemovePeerServerIdentity :: "ServerIdentity list \<Rightarrow> ('k, unit) node" where
  "RemovePeerServerIdentity peers = with_peers (each drop_known peers)"

definition handlePingMessage :: "('k, 'v) node_env \<Rightarrow> Envelope \<Rightarrow> ('k, go_error option) node" where
  "handlePingMessage E env =
     (case env_Msg env of
        PingMessage _ \<Rightarrow> seqp (AddPeerServerIdentity E [env_ServerIdentity env] False) (ret None)
      | _ \<Rightarrow> ret (Some (cast_error E (self E) ''MessageReq'')))"

definition handleTunnelMessage :: "('k, 'v) node_env \<Rightarrow> Envelope \<Rightarrow> ('k, go_error option) node" where
  "handleTunnelMessage E env =
     (case env_Msg env of
        TunnelMessage _ \<Rightarrow>
          bnd (PublicString (env_ServerIdentity env)) (\<lambda>key.
          seqp (modifies (\<lambda>s. s\<lparr>proxyStorage := (proxyStorage s)
                  \<lparr>peerNodeMap := (peerNodeMap (proxyStorage s))(key \<mapsto> env_ServerIdentity env)\<rparr>\<rparr>)) (ret None))
      | _ \<Rightarrow> ret (Some (cast_error E (env_ServerIdentity env) ''MessageReq'')))"

primrec fresh_addresses :: "string list \<Rightarrow> ('k, string list) node" where
  "fresh_addresses [] = ret []"
| "fresh_addresses (a # as) =
     bnd (gets (\<lambda>s. addressMap s a)) (\<lambda>entry.
     seqp (whenp (entry = None) (modifies (\<lambda>s. s\<lparr>addressMap := (addressMap s)(a \<mapsto> True)\<rparr>)))
     (bnd (fresh_addresses as) (\<lambda>rest. ret (if entry = None then a # rest else rest))))"

definition handleAddressMessage :: "('k, 'v) node_env \<Rightarrow> Envelope \<Rightarrow> ('k, go_error option) node" where
  "handleAddressMessage E env =
     (case env_Msg env of
        AddressMessage addresses \<Rightarrow>
          seqp (whenp (length addresses > 0)
                 (bnd (fresh_addresses addresses) (\<lambda>peerNodes.
                  whenp (length peerNodes > 0) (BroadcastAddressTx E peerNodes))))
            (ret None)
      | _ \<Rightarrow> ret (Some (cast_error E (env_ServerIdentity env) ''AddressMessage'')))"

section \<open>Peers\<close>

text \<open>What the peer map should become: the peers are bound in their order.\<close>

primrec bind_peers :: "ServerIdentity list \<Rightarrow> (string \<rightharpoonup> ServerIdentity) \<Rightarrow> string \<rightharpoonup> ServerIdentity" where
  "bind_peers [] m = m"
| "bind_peers (p # ps) m = bind_peers ps (m(the (si_Public p) \<mapsto> p))"

definition has_key :: "ServerIdentity \<Rightarrow> bool" where
  "has_key si \<longleftrightarrow> si_Public si \<noteq> None"

text \<open>The peers that answer, the \<open>n\<close>-th message of the node being the first ping.\<close>

primrec answering :: "('k, 'v) node_env \<Rightarrow> nat \<Rightarrow> ServerIdentity list \<Rightarrow> ServerIdentity list" where
  "answering E n [] = []"
| "answering E n (p # ps) =
     (if network_send E n p (PingMessage ''Ping Message'') = None then p # answering E (Suc n) ps
      else answering E (Suc n) ps)"

lemma select_peers_eval:
  assumes "list_all has_key ps"
  shows "select_peers known ps s =
    Returns (filter (\<lambda>p. (peerNodeMap (peerStorage s) (the (si_Public p)) \<noteq> None) = known) ps) s"
  using assms by (induction ps) (auto simp: prog_simps has_key_def simp del: not_None_eq)

lemma add_loop:
  assumes "list_all has_key ps"
  shows "each (ping_and_add E True) ps s =
   Returns () ((sent ps (PingMessage ''Ping Message'') s)\<lparr>peerStorage := (peerStorage s)
     \<lparr>peerNodeMap := bind_peers (answering E (length (outbox s)) ps) (peerNodeMap (peerStorage s))\<rparr>\<rparr>)"
  using assms
proof (induction ps arbitrary: s)
  case Nil
  then show ?case by (simp add: prog_simps sent_def)
next
  case (Cons p ps)
  then obtain key where key: "si_Public p = Some key" by (auto simp: has_key_def)
  let ?s = "s\<lparr>outbox := outbox s @ [(p, PingMessage ''Ping Message'')]\<rparr>"
  have "ping_and_add E True p s = Returns ()
     (if network_send E (length (outbox s)) p (PingMessage ''Ping Message'') = None then put_peer key p ?s else ?s)"
    using key by (simp add: ping_and_add_def prog_simps)
  then show ?case
    using Cons.IH Cons.prems key by (simp add: prog_simps sent_def put_peer_def)
qed

lemma AddPeer_connected:
  assumes "list_all has_key ps" "\<not> ps_locked (peerStorage s)"
  shows "AddPeerServerIdentity E ps True s =
   Returns () ((sent ps (PingMessage ''Ping Message'') s)\<lparr>peerStorage := (peerStorage s)
     \<lparr>peerNodeMap := bind_peers (answering E (length (outbox s)) ps) (peerNodeMap (peerStorage s))\<rparr>\<rparr>)"
  using assms add_loop [OF assms(1), of E "put_ps_locked True s"]
  by (simp add: AddPeerServerIdentity_def with_peers_def prog_simps sent_def)

lemma drop_known_eval:
  "si_Public p = Some key \<Longrightarrow> drop_known p s = Returns () (drop_peer key s)"
  by (cases "peerNodeMap (peerStorage s) key") (simp_all add: drop_known_def prog_simps drop_peer_def fun_upd_idem)

definition unbind_peers :: "ServerIdentity list \<Rightarrow> (string \<rightharpoonup> ServerIdentity) \<Rightarrow> string \<rightharpoonup> ServerIdentity" where
  "unbind_peers ps m = (\<lambda>key. if Some key \<in> si_Public ` set ps then None else m key)"

lemma unbind_peers_simps:
  "unbind_peers [] m = m"
  "si_Public p = Some key \<Longrightarrow> unbind_peers (p # ps) m = unbind_peers ps (m(key := None))"
  by (auto simp: unbind_peers_def)

lemma remove_loop:
  assumes "list_all has_key ps"
  shows "each drop_known ps s = Returns () (s\<lparr>peerStorage := (peerStorage s)
    \<lparr>peerNodeMap := unbind_peers ps (peerNodeMap (peerStorage s))\<rparr>\<rparr>)"
  using assms
proof (induction ps arbitrary: s)
  case Nil
  then show ?case by (simp add: prog_simps unbind_peers_simps)
next
  case (Cons p ps)
  then obtain key where key: "si_Public p = Some key" by (auto simp: has_key_def)
  with Cons show ?case
    by (simp add: prog_simps drop_known_eval drop_peer_def unbind_peers_simps(2) [OF key])
qed

lemma Remove_eval:
  assumes "list_all has_key ps" "\<not> ps_locked (peerStorage s)"
  shows "RemovePeerServerIdentity ps s = Returns () (s\<lparr>peerStorage := (peerStorage s)
    \<lparr>peerNodeMap := unbind_peers ps (peerNodeMap (peerStorage s))\<rparr>\<rparr>)"
  using assms(2) remove_loop [OF assms(1), of "put_ps_locked True s"]
  by (simp add: RemovePeerServerIdentity_def with_peers_def prog_simps)

section \<open>Gossip of addresses\<close>

text \<open>The addresses a message adds: those not in the map, each once, in their order.\<close>

primrec new_addresses :: "string list \<Rightarrow> (string \<rightharpoonup> bool) \<Rightarrow> string list" where
  "new_addresses [] m = []"
| "new_addresses (a # as) m = (if m a = None then a # new_addresses as (m(a \<mapsto> True)) else new_addresses as m)"

definition bind_all :: "string list \<Rightarrow> (string \<rightharpoonup> bool) \<Rightarrow> string \<rightharpoonup> bool" where
  "bind_all as m = (\<lambda>a. if a \<in> set as \<and> m a = None then Some True else m a)"

lemma bind_all_Cons:
  "bind_all (a # as) m = bind_all as (if m a = None then m(a \<mapsto> True) else m)"
  by (rule ext) (auto simp: bind_all_def)

lemma dom_bind_all: "dom (bind_all as m) = set as \<union> dom m"
  by (auto simp: bind_all_def dom_def)

lemma new_addresses_set: "set (new_addresses as m) = set as - dom m"
  by (induction as arbitrary: m) (auto split: if_splits)

lemma new_addresses_distinct: "distinct (new_addresses as m)"
  by (induction as arbitrary: m) (auto simp: new_addresses_set)

lemma new_addresses_none: "set as \<subseteq> dom m \<Longrightarrow> new_addresses as m = []"
  by (induction as arbitrary: m) auto

lemma fresh_addresses_eval:
  "fresh_addresses as s = Returns (new_addresses as (addressMap s)) (s\<lparr>addressMap := bind_all as (addressMap s)\<rparr>)"
proof (induction as arbitrary: s)
  case Nil
  then show ?case by (simp add: prog_simps bind_all_def)
next
  case (Cons a as)
  then show ?case by (simp add: prog_simps bind_all_Cons fun_upd_def)
qed

lemma handleAddressMessage_eval:
  "handleAddressMessage E \<lparr>env_ServerIdentity = si, env_Msg = AddressMessage as\<rparr> s =
   Returns None (let s' = s\<lparr>addressMap := bind_all as (addressMap s)\<rparr> in
     if new_addresses as (addressMap s) = [] then s'
     else sent (peer_list E (peerNodeMap (peerStorage s))) (AddressMessage (new_addresses as (addressMap s))) s')"
proof (cases "as = []")
  case True
  then show ?thesis by (simp add: handleAddressMessage_def prog_simps bind_all_def)
next
  case False
  then show ?thesis
    by (simp add: handleAddressMessage_def prog_simps fresh_addresses_eval Let_def)
qed

text \<open>
  Gossip of gateway addresses stops. Handling an address message records all its addresses
  and forwards to every peer exactly those that were unknown, each once; if there are none it
  sends nothing. Handling the same message again, from whomever, then sends nothing and changes
  nothing.
\<close>

theorem address_gossip_once:
  "\<exists>s'. handleAddressMessage E \<lparr>env_ServerIdentity = si, env_Msg = AddressMessage as\<rparr> s = Returns None s' \<and>
    dom (addressMap s') = dom (addressMap s) \<union> set as \<and>
    (\<exists>new. set new = set as - dom (addressMap s) \<and> distinct new \<and>
       outbox s' = outbox s @ (if new = [] then []
         else map (\<lambda>p. (p, AddressMessage new)) (peer_list E (peerNodeMap (peerStorage s))))) \<and>
    handleAddressMessage E \<lparr>env_ServerIdentity = si', env_Msg = AddressMessage as\<rparr> s' = Returns None s'"
proof -
  let ?new = "new_addresses as (addressMap s)"
  define s' where "s' = (let s' = s\<lparr>addressMap := bind_all as (addressMap s)\<rparr> in
     if ?new = [] then s' else sent (peer_list E (peerNodeMap (peerStorage s))) (AddressMessage ?new) s')"
  have map: "addressMap s' = bind_all as (addressMap s)"
    by (simp add: s'_def Let_def sent_def)
  have "bind_all as (addressMap s') = addressMap s'" "new_addresses as (addressMap s') = []"
    by (auto simp: map new_addresses_none dom_bind_all) (auto simp: bind_all_def)
  then have again: "handleAddressMessage E \<lparr>env_ServerIdentity = si', env_Msg = AddressMessage as\<rparr> s' = Returns None s'"
    by (simp add: handleAddressMessage_eval)
  have out: "outbox s' = outbox s @ (if ?new = [] then []
      else map (\<lambda>p. (p, AddressMessage ?new)) (peer_list E (peerNodeMap (peerStorage s))))"
    by (simp add: s'_def Let_def sent_def)
  have "handleAddressMessage E \<lparr>env_ServerIdentity = si, env_Msg = AddressMessage as\<rparr> s = Returns None s'"
    by (simp add: handleAddressMessage_eval s'_def)
  moreover have "dom (addressMap s') = dom (addressMap s) \<union> set as"
    by (auto simp: map dom_bind_all)
  ultimately show ?thesis
    using again out new_addresses_set [of as "addressMap s"] new_addresses_distinct [of as "addressMap s"] by blast
qed

section \<open>Peers and gateways\<close>

lemma bind_peers_other:
  "list_all has_key ps \<Longrightarrow> Some key \<notin> si_Public ` set ps \<Longrightarrow> bind_peers ps m key = m key"
  by (induction ps arbitrary: m) (auto simp: has_key_def)

lemma answering_subset: "set (answering E n ps) \<subseteq> set ps"
  by (induction ps arbitrary: n) auto

lemma answering_keys: "list_all has_key ps \<Longrightarrow> list_all has_key (answering E n ps)"
  using answering_subset [of E n ps] by (auto simp: list_all_iff)

lemma bind_peers_dom:
  "list_all has_key ps \<Longrightarrow> dom (bind_peers ps m) = dom m \<union> (the \<circ> si_Public) ` set ps"
  by (induction ps arbitrary: m) auto

text \<open>
  Adding and removing peers. When \<open>peerStorage\<close> is free and all peers have a key,
  \<open>AddPeerServerIdentity\<close> pings every one of them once and records exactly those that answer, and
  a following \<open>RemovePeerServerIdentity\<close> of the same peers leaves none of their keys and every
  other entry as it was before. Both leave the mutex free.
\<close>

theorem peers_lifecycle:
  assumes "list_all has_key ps" "\<not> ps_locked (peerStorage s)"
  shows "\<exists>s1 s2. AddPeerServerIdentity E ps True s = Returns () s1 \<and> \<not> ps_locked (peerStorage s1) \<and>
    outbox s1 = outbox s @ map (\<lambda>p. (p, PingMessage ''Ping Message'')) ps \<and>
    dom (peerNodeMap (peerStorage s1)) = dom (peerNodeMap (peerStorage s)) \<union>
      (the \<circ> si_Public) ` set (answering E (length (outbox s)) ps) \<and>
    RemovePeerServerIdentity ps s1 = Returns () s2 \<and> \<not> ps_locked (peerStorage s2) \<and>
    (\<forall>key. peerNodeMap (peerStorage s2) key =
       (if Some key \<in> si_Public ` set ps then None else peerNodeMap (peerStorage s) key))"
proof -
  let ?as = "answering E (length (outbox s)) ps"
  let ?m = "bind_peers ?as (peerNodeMap (peerStorage s))"
  let ?s1 = "(sent ps (PingMessage ''Ping Message'') s)\<lparr>peerStorage := (peerStorage s)\<lparr>peerNodeMap := ?m\<rparr>\<rparr>"
  let ?s2 = "?s1\<lparr>peerStorage := (peerStorage ?s1)\<lparr>peerNodeMap := unbind_peers ps ?m\<rparr>\<rparr>"
  have add: "AddPeerServerIdentity E ps True s = Returns () ?s1" by (rule AddPeer_connected [OF assms])
  have free: "\<not> ps_locked (peerStorage ?s1)" using assms(2) by simp
  have remove: "RemovePeerServerIdentity ps ?s1 = Returns () ?s2"
    using Remove_eval [OF assms(1) free] by simp
  have as: "list_all has_key ?as" by (rule answering_keys [OF assms(1)])
  have "?m key = peerNodeMap (peerStorage s) key" if "Some key \<notin> si_Public ` set ps" for key
    by (rule bind_peers_other [OF as]) (use that answering_subset [of E "length (outbox s)" ps] in blast)
  then have "\<forall>key. peerNodeMap (peerStorage ?s2) key =
      (if Some key \<in> si_Public ` set ps then None else peerNodeMap (peerStorage s) key)"
    by (simp add: unbind_peers_def)
  moreover have "outbox ?s1 = outbox s @ map (\<lambda>p. (p, PingMessage ''Ping Message'')) ps" by (simp add: sent_def)
  moreover have "dom (peerNodeMap (peerStorage ?s1)) = dom (peerNodeMap (peerStorage s)) \<union> (the \<circ> si_Public) ` set ?as"
    using bind_peers_dom [OF as] by simp
  moreover have "\<not> ps_locked (peerStorage ?s2)" using assms(2) by simp
  ultimately show ?thesis using add free remove by blast
qed

definition sample_peer :: "string \<Rightarrow> ServerIdentity" where
  "sample_peer key = \<lparr>si_Public = Some key, si_Address = (TLS, ''host:1'')\<rparr>"

definition sample_urls :: url_env where
  "sample_urls = \<lparr>url_Parse = (\<lambda>u. Inr \<lparr>url_Scheme = ''tls'', url_Username = [], url_Host = u\<rparr>),
     find_suite = None, StringHexToPoint = Inr\<rparr>"

text \<open>A node whose peer \<open>b\<close> never answers.\<close>

definition sample_env :: "((bytes \<times> Message) list, Message) node_env" where
  "sample_env = \<lparr>store = mem_env, self = sample_peer ''me'',
     network_send = (\<lambda>n si msg. if si_Public si = Some ''b'' then Some ''timeout'' else None),
     key_order = (\<lambda>S. []), random_index = (\<lambda>n k. 0), genesis_block = sample_hello [],
     show_identity = (\<lambda>si. snd (si_Address si)), urls = sample_urls\<rparr>"

definition fresh_service :: "'k option \<Rightarrow> 'k Service" where
  "fresh_service bk = \<lparr>db = NewBlockDB bk, buffer = newBlockBuffer, txs = newTxPool,
     peerStorage = \<lparr>peerNodeMap = Map.empty, ps_locked = False\<rparr>,
     proxyStorage = \<lparr>peerNodeMap = Map.empty, ps_locked = False\<rparr>,
     addressMap = Map.empty, synChan = [], synDone = False, createBlockChainMutex = False,
     privateClock = newPrivateClock (int COSI_MEMBERS), deForkBlock = None, ds = DEFAULT_DS,
     timerRunning = False, the_miner = New, outbox = [], spawned = []\<rparr>"

definition new_node :: "(bytes \<times> Message) list Service" where
  "new_node = fresh_service (Some [])"

lemma peers_lifecycle_witness:
  "\<exists>s1. AddPeerServerIdentity sample_env [sample_peer ''a'', sample_peer ''b''] True new_node = Returns () s1 \<and>
    dom (peerNodeMap (peerStorage s1)) = {''a''}"
proof -
  have 1: "list_all has_key [sample_peer ''a'', sample_peer ''b'']" by (simp add: has_key_def sample_peer_def)
  have 2: "\<not> ps_locked (peerStorage new_node)" by (simp add: new_node_def fresh_service_def)
  from peers_lifecycle [OF 1 2, of sample_env] obtain s1 where
    s1: "AddPeerServerIdentity sample_env [sample_peer ''a'', sample_peer ''b''] True new_node = Returns () s1"
      "dom (peerNodeMap (peerStorage s1)) = dom (peerNodeMap (peerStorage new_node)) \<union>
        (the \<circ> si_Public) ` set (answering sample_env (length (outbox new_node)) [sample_peer ''a'', sample_peer ''b''])"
    by blast
  have "dom (peerNodeMap (peerStorage s1)) = {''a''}"
    unfolding s1(2) by (simp add: sample_env_def sample_peer_def new_node_def fresh_service_def)
  with s1(1) show ?thesis by blast
qed

text \<open>
  A peer URL without a public key crashes the node it is sent to. \<open>ConvertPeerURL\<close> accepts an
  URL without user part and leaves the key nil, and both \<open>Peer add\<close> and \<open>Peer del\<close> call
  \<open>String\<close> on the key of every peer of the request, which panics (the deferred unlock still frees
  the mutex).
\<close>

theorem Peer_without_key_panics:
  assumes "url_Parse (urls E) u = Inr p" "find_suite (urls E) = None" "url_Username p = []"
    and "\<not> ps_locked (peerStorage s)" "list_all has_key ps"
  shows "\<exists>si. ConvertPeerURL (urls E) u = Inr si \<and>
    Peer E ''add'' (ps @ si # ps') s = Panics NilDereference s \<and>
    Peer E ''del'' (ps @ si # ps') s = Panics NilDereference s"
proof -
  obtain si where si: "ConvertPeerURL (urls E) u = Inr si" "si_Public si = None"
    using assms(1-3) by (auto simp: ConvertPeerURL_def Let_def)
  have "select_peers known (ps @ si # ps') s' = Panics NilDereference s'" for known and s' :: "'a Service"
    using assms(5) si(2) by (induction ps) (auto simp: prog_simps has_key_def)
  with si(1) assms(4) show ?thesis
    by (simp add: Peer_def with_peers_def prog_simps)
qed

lemma Peer_without_key_panics_witness:
  "\<exists>si. ConvertPeerURL (urls sample_env) ''tls://host:1'' = Inr si \<and>
    Peer sample_env ''add'' [si] new_node = Panics NilDereference new_node"
proof -
  have "url_Parse (urls sample_env) ''tls://host:1'' = Inr \<lparr>url_Scheme = ''tls'', url_Username = [], url_Host = ''tls://host:1''\<rparr>"
    "find_suite (urls sample_env) = None" "\<not> ps_locked (peerStorage new_node)"
    by (simp_all add: sample_env_def sample_urls_def new_node_def fresh_service_def)
  then show ?thesis
    using Peer_without_key_panics [of sample_env "''tls://host:1''" _ new_node "[]" "[]"] by auto
qed

definition mark_all :: "string list \<Rightarrow> (string \<rightharpoonup> bool) \<Rightarrow> string \<rightharpoonup> bool" where
  "mark_all as m = (\<lambda>a. if a \<in> set as then Some True else m a)"

lemma mark_all_simps: "mark_all [] m = m" "mark_all (a # as) m = mark_all as (m(a \<mapsto> True))"
  by (auto simp: mark_all_def)

lemma add_addresses:
  "each (\<lambda>a. modifies (\<lambda>s. s\<lparr>addressMap := (addressMap s)(a \<mapsto> True)\<rparr>)) as s =
   Returns () (s\<lparr>addressMap := mark_all as (addressMap s)\<rparr>)"
proof (induction as arbitrary: s)
  case Nil
  then show ?case by (simp add: prog_simps mark_all_simps)
next
  case (Cons a as)
  then show ?case by (simp add: prog_simps mark_all_simps fun_upd_def)
qed

lemma delete_none:
  "set as \<inter> dom (peerNodeMap (proxyStorage s)) = {} \<Longrightarrow> delete_proxies as s = Returns [] s"
  by (induction as) (auto simp: prog_simps dom_def simp del: not_None_eq)

text \<open>
  \<open>Proxy del\<close> does not undo \<open>Proxy add\<close>. Adding records the addresses and starts one broadcast
  of all of them. Deleting looks the addresses up in the gateway map, which is keyed by public
  keys, instead of the address map: unless an address happens to be such a key it is neither
  deleted nor reported, and the state does not change.
\<close>

theorem Proxy_del_ignored:
  assumes "\<not> ps_locked (proxyStorage s)" "set as \<inter> dom (peerNodeMap (proxyStorage s)) = {}" "as \<noteq> []"
  shows "\<exists>s1. Proxy E ''add'' as s = Returns (Inr []) s1 \<and> set as \<subseteq> dom (addressMap s1) \<and>
    spawned s1 = spawned s @ [BroadcastAddress as] \<and>
    Proxy E ''del'' as s1 = Returns (Inr []) s1"
proof -
  let ?s1 = "s\<lparr>addressMap := mark_all as (addressMap s),
    spawned := spawned s @ [BroadcastAddress as]\<rparr>"
  have add: "Proxy E ''add'' as s = Returns (Inr []) ?s1"
    using assms(1,3) by (simp add: Proxy_def with_proxies_def prog_simps add_addresses)
  have "Proxy E ''del'' as ?s1 = Returns (Inr []) ?s1"
    using assms delete_none [of as "put_proxy_locked True ?s1"]
    by (simp add: Proxy_def with_proxies_def prog_simps)
  with add show ?thesis by (intro exI [of _ ?s1]) (auto simp: dom_def mark_all_def)
qed

lemma Proxy_del_ignored_witness:
  "\<exists>s1. Proxy sample_env ''add'' [''tls://g:1''] new_node = Returns (Inr []) s1 \<and>
    Proxy sample_env ''del'' [''tls://g:1''] s1 = Returns (Inr []) s1 \<and> ''tls://g:1'' \<in> dom (addressMap s1)"
proof -
  have "\<not> ps_locked (proxyStorage new_node)"
    "set [''tls://g:1''] \<inter> dom (peerNodeMap (proxyStorage new_node)) = {}"
    by (simp_all add: new_node_def fresh_service_def)
  from Proxy_del_ignored [OF this, of sample_env] show ?thesis by auto
qed

end
