(* ===== verification/Sync.thy ===== *)
theory Sync
  imports Peers
begin

text \<open>
  service/service.go, how a node answers questions about its chain and how it copies the chain of
  others: the client calls \<open>GetBlockByID\<close>, \<open>GetBlockByIndex\<close>, \<open>GetLatestBlock\<close>, the handshake, the
  download request and response, \<open>processMessage\<close>, and the start of the service.
\<close>

section \<open>Questions of a client\<close>

definition GetBlockByID :: "('k, 'v) node_env \<Rightarrow> slice \<Rightarrow> ('k, NewLeaderHelloBlock option result) node" where
  "GetBlockByID E value = with_chain (
     bnd (on_db (GetLatest (store E))) (\<lambda>block.
     if block = None then ret (Inl ''Blockchain not actived'')
     else bnd (on_db (GetByID (store E) value)) (\<lambda>block.
       if block = None then ret (Inl ''No such block'') else ret (Inr block))))"

definition GetLatestBlock :: "('k, 'v) node_env \<Rightarrow> ('k, NewLeaderHelloBlock option result) node" where
  "GetLatestBlock E = with_chain (
     bnd (on_db (GetLatest (store E))) (\<lambda>latest.
     if latest = None then ret (Inl ''Blockchain not actived'') else ret (Inr latest)))"

text \<open>
  The loop that walks down from the latest block: \<open>None\<close> means that it never ends. The first
  half of its condition, \<open>block.Index >= 0\<close>, holds for every unsigned number.
\<close>

partial_function (option) seek ::
  "('k, 'v) node_env \<Rightarrow> u64 \<Rightarrow> NewLeaderHelloBlock option \<Rightarrow> 'k Service \<Rightarrow>
     (NewLeaderHelloBlock option result, 'k Service) outcome option"
where
  "seek E i block s =
     (case block of
        None \<Rightarrow> Some (Panics NilDereference s)
      | Some b \<Rightarrow>
          if hb_Index b \<noteq> i then
            (case on_db (GetByID (store E) (hb_Hash b)) s of
               Returns None s' \<Rightarrow> Some (Returns (Inl ''No such block'') s')
             | Returns (Some b') s' \<Rightarrow> seek E i (Some b') s'
             | Panics p s' \<Rightarrow> Some (Panics p s')
             | Blocks s' \<Rightarrow> Some (Blocks s'))
          else Some (Returns (Inr block) s))"

definition index_body :: "('k, 'v) node_env \<Rightarrow> u64 \<Rightarrow> 'k Service \<Rightarrow>
    (NewLeaderHelloBlock option result, 'k Service) outcome option" where
  "index_body E i s =
     (case on_db (GetLatest (store E)) s of
        Returns None s1 \<Rightarrow> Some (Returns (Inl ''Blockchain not actived'') s1)
      | Returns (Some block) s1 \<Rightarrow>
          if hb_Index block > i then
            (case on_db (BlockStore.GetBlockByIndex (store E) i) s1 of
               Returns (Inr b) s2 \<Rightarrow> Some (Returns (Inr b) s2)
             | Returns (Inl err) s2 \<Rightarrow>
                 (case on_db (GetLatest (store E)) s2 of
                    Returns latest s3 \<Rightarrow> seek E i latest s3
                  | Panics p s3 \<Rightarrow> Some (Panics p s3)
                  | Blocks s3 \<Rightarrow> Some (Blocks s3))
             | Panics p s2 \<Rightarrow> Some (Panics p s2)
             | Blocks s2 \<Rightarrow> Some (Blocks s2))
          else Some (Returns (Inr (Some block)) s1)
      | Panics p s1 \<Rightarrow> Some (Panics p s1)
      | Blocks s1 \<Rightarrow> Some (Blocks s1))"

text \<open>The request handler of the same name: the body under \<open>createBlockChainMutex\<close>.\<close>

definition BlockByIndex :: "('k, 'v) node_env \<Rightarrow> u64 \<Rightarrow> 'k Service \<Rightarrow>
    (NewLeaderHelloBlock option result, 'k Service) outcome option" where
  "BlockByIndex E i s =
     (if createBlockChainMutex s then Some (Blocks s)
      else map_option (\<lambda>out. deferring (put_chain_locked False) (\<lambda>_. out) s)
             (index_body E i (put_chain_locked True s)))"

section \<open>Handshake\<close>

definition greet :: "('k, 'v) node_env \<Rightarrow> ServerIdentity \<Rightarrow> ('k, unit) node" where
  "greet E peerNode =
     bnd (on_db GetGenesisID) (\<lambda>genesisID.
     bnd (on_db (GetLatest (store E))) (\<lambda>latest.
     bnd (SendRaw E peerNode (HandshakeMessage genesisID latest True)) (\<lambda>err. ret ())))"

definition handshake :: "('k, 'v) node_env \<Rightarrow> ('k, unit) node" where
  "handshake E = with_peers (
     bnd (gets (\<lambda>s. peerNodeMap (peerStorage s))) (\<lambda>m.
     seqp (spawn (ProcessMessage (card (dom m))))
       (each (greet E) (peer_list E m))))"

definition sync_chan_send :: "RemoteServerIndex \<Rightarrow> ('k, unit) node" where
  "sync_chan_send r = modifies (\<lambda>s. s\<lparr>synChan := synChan s @ [r]\<rparr>)"

text \<open>
  The handler takes \<open>latestMutex\<close> and calls \<open>GetLatest\<close>, which takes it again. What follows is
  translated too, though it is not reached.
\<close>

definition handleHandshakeMessage :: "('k, 'v) node_env \<Rightarrow> Envelope \<Rightarrow> ('k, go_error option) node" where
  "handleHandshakeMessage E env =
     (case env_Msg env of
        HandshakeMessage reqGenesis reqLatest answer \<Rightarrow>
          bnd (on_db GetGenesisID) (\<lambda>genesisID.
          let enqueue =
            bnd (deref reqLatest) (\<lambda>r.
            seqp (sync_chan_send \<lparr>ri_Index = hb_Index r, ri_ServerIdentity = env_ServerIdentity env\<rparr>) (ret None))
          in
          if genesisID = None then
            (if reqGenesis = None \<or> reqLatest = None then ret None else enqueue)
          else if reqGenesis \<noteq> None \<and> slice_bytes reqGenesis \<noteq> slice_bytes genesisID then
            ret (Some ''no same block chain'')
          else
            seqp (on_db (acquire latestMutex put_latestMutex))
            (bnd (on_db (GetLatest (store E))) (\<lambda>latestBlock.
             seqp (on_db (release put_latestMutex))
             (bnd (case reqLatest of
                     None \<Rightarrow> ret False
                   | Some r \<Rightarrow> bnd (deref latestBlock) (\<lambda>l. ret (hb_Index l > hb_Index r))) (\<lambda>ahead.
              if ahead then ret None
              else
                bnd (if \<not> answer then ret False
                     else if reqGenesis = None then ret True
                     else bnd (deref latestBlock) (\<lambda>l. bnd (deref reqLatest) (\<lambda>r. ret (hb_Index l > hb_Index r)))) (\<lambda>reply.
                seqp (whenp reply
                       (bnd (on_db GetGenesisID) (\<lambda>g.
                        bnd (SendRaw E (env_ServerIdentity env) (HandshakeMessage g latestBlock False)) (\<lambda>err. ret ()))))
                  (if reqGenesis = None \<or> reqLatest = None then ret None else enqueue)))))))
      | _ \<Rightarrow> ret (Some ''error while unmarshaling a message''))"

section \<open>Download\<close>

text \<open>
  The loop over the remaining remotes, each round of which removes one or ends the loop, so that
  their number bounds the rounds. It yields the remotes left.
\<close>

primrec try_remotes :: "('k, 'v) node_env \<Rightarrow> nat \<Rightarrow> RemoteServerIndex list \<Rightarrow> ('k, RemoteServerIndex list) node" where
  "try_remotes E 0 remotes = ret remotes"
| "try_remotes E (Suc rounds) remotes =
     (if remotes = [] then ret []
      else bnd (gets (\<lambda>s. random_index E (length (outbox s)) (length remotes))) (\<lambda>randIndex.
        if randIndex \<ge> length remotes then panics IndexOutOfRange
        else let remote = remotes ! randIndex in
          bnd (on_db (GetLatest (store E))) (\<lambda>latestBlock.
          let start = (case latestBlock of None \<Rightarrow> 0 | Some l \<Rightarrow> hb_Index l);
              size' = (if ri_Index remote < MAX_BLOCK_PERONCE then ri_Index remote else MAX_BLOCK_PERONCE)
          in bnd (on_db GetGenesisID) (\<lambda>g.
             bnd (SendRaw E (ri_ServerIdentity remote) (DownloadBlockRequest g start size')) (\<lambda>err.
             if err = None then ret remotes
             else try_remotes E rounds (take randIndex remotes @ drop (Suc randIndex) remotes))))))"

text \<open>What \<open>processMessage\<close> does with the remotes that its goroutine has collected.\<close>

definition download :: "('k, 'v) node_env \<Rightarrow> RemoteServerIndex list \<Rightarrow> ('k, unit) node" where
  "download E remotes =
     (if length remotes = 0 then modifies (\<lambda>s. s\<lparr>synDone := True\<rparr>)
      else bnd (try_remotes E (length remotes) remotes) (\<lambda>rest.
        whenp (length rest = 0) (handshake E)))"

text \<open>
  The goroutine inside \<open>processMessage\<close>, with \<open>n\<close> entries of \<open>synChan\<close> to go. It waits in a select: a step
  takes the entry that is there, after which it waits again, or, on an empty channel, is the end of the
  five seconds. Everything else may happen between two steps.
\<close>

primrec collect :: "('k, 'v) node_env \<Rightarrow> nat \<Rightarrow> RemoteServerIndex list \<Rightarrow> ('k, unit) node" where
  "collect E 0 remotes = download E remotes"
| "collect E (Suc n) remotes =
     bnd (gets synChan) (\<lambda>chan.
     case chan of
       [] \<Rightarrow> download E remotes
     | remote # rest \<Rightarrow>
         seqp (modifies (\<lambda>s. s\<lparr>synChan := rest\<rparr>))
         (bnd (on_db (GetLatest (store E))) (\<lambda>latestBlock.
          spawn (Collecting n
            (case latestBlock of
               None \<Rightarrow> remotes @ [remote]
             | Some l \<Rightarrow> if ri_Index remote > hb_Index l then remotes @ [remote] else remotes)))))"

definition processMessage :: "('k, 'v) node_env \<Rightarrow> nat \<Rightarrow> ('k, unit) node" where
  "processMessage E n = (if n = 0 then ret () else spawn (Collecting n []))"

text \<open>The loop \<open>for index := req.Start; index < req.Size; index++\<close>; \<open>rounds\<close> is its length.\<close>

primrec collect_blocks :: "('k, 'v) node_env \<Rightarrow> nat \<Rightarrow> u64 \<Rightarrow> ('k, NewLeaderHelloBlock option list) node" where
  "collect_blocks E 0 index = ret []"
| "collect_blocks E (Suc rounds) index =
     bnd (on_db (BlockStore.GetBlockByIndex (store E) index)) (\<lambda>r.
     case r of
       Inl err \<Rightarrow> ret []
     | Inr block \<Rightarrow>
         bnd (deref block) (\<lambda>b. bnd (on_db (copy_hello (store E) b)) (\<lambda>c.
         bnd (collect_blocks E rounds (index + 1)) (\<lambda>rest. ret (Some c # rest)))))"

definition handleDownloadBlockRequest :: "('k, 'v) node_env \<Rightarrow> Envelope \<Rightarrow> ('k, go_error option) node" where
  "handleDownloadBlockRequest E env =
     (case env_Msg env of
        DownloadBlockRequest reqGenesis start size' \<Rightarrow>
          bnd (on_db GetGenesisID) (\<lambda>genesisID.
          if slice_bytes reqGenesis \<noteq> slice_bytes genesisID then ret None
          else bnd (collect_blocks E (unat size' - unat start) start) (\<lambda>blocks.
            if length blocks = 0 then ret (Some ''no valid blocks'')
            else SendRaw E (env_ServerIdentity env) (DownloadBlockResponse blocks genesisID)))
      | _ \<Rightarrow> ret (Some (cast_error E (self E) ''DownloadBlockRequest'')))"

text \<open>In the loop \<open>block\<close> is declared anew, as the local block of that index.\<close>

primrec override_blocks :: "('k, 'v) node_env \<Rightarrow> NewLeaderHelloBlock option list \<Rightarrow> u64 \<Rightarrow> ('k, u64) node" where
  "override_blocks E [] index = ret index"
| "override_blocks E (p # ps) index =
     bnd (deref p) (\<lambda>reqBlock.
     bnd (on_db (BlockStore.GetBlockByIndex (store E) (hb_Index reqBlock))) (\<lambda>r.
     let block = (case r of Inl err \<Rightarrow> None | Inr b \<Rightarrow> b) in
     bnd (deref block) (\<lambda>b.
     let index = (if hb_Index b > index then hb_Index b else index) in
     seqp (bnd (on_db (Store (store E) block)) (\<lambda>_. ret ()))
       (override_blocks E ps index))))"

definition handleDownloadBlockResponse :: "('k, 'v) node_env \<Rightarrow> Envelope \<Rightarrow> ('k, go_error option) node" where
  "handleDownloadBlockResponse E env =
     (case env_Msg env of
        DownloadBlockResponse reqBlocks reqGenesis \<Rightarrow>
          bnd (on_db GetGenesisID) (\<lambda>genesisID.
          if slice_bytes reqGenesis \<noteq> slice_bytes genesisID then ret None
          else bnd (override_blocks E reqBlocks 0) (\<lambda>index.
            seqp (if index > 0 then
                    (if unat index < length reqBlocks then on_db (UpdateLatest (reqBlocks ! unat index))
                     else panics IndexOutOfRange)
                  else ret ())
              (seqp (handshake E) (ret None))))
      | _ \<Rightarrow> ret (Some (cast_error E (self E) ''DownloadBlockResponse'')))"

section \<open>Facts about a node with a chain\<close>

text \<open>The node's latest block is \<open>b\<close>, stored under its own hash, and \<open>latestMutex\<close> is free.\<close>

definition tip :: "('k, 'v) node_env \<Rightarrow> 'k Service \<Rightarrow> NewLeaderHelloBlock \<Rightarrow> bool" where
  "tip E s b \<longleftrightarrow> \<not> latestMutex (db s) \<and> latestBlockID (db s) = Some (slice_bytes (hb_Hash b)) \<and>
     stored (store E) (db s) (slice_bytes (hb_Hash b)) b"

definition ticked :: "'k Service \<Rightarrow> 'k Service" where
  "ticked s = s\<lparr>db := tick (db s)\<rparr>"

lemma ticked_simps [simp]:
  "db (ticked s) = tick (db s)" "outbox (ticked s) = outbox s" "synChan (ticked s) = synChan s"
  "createBlockChainMutex (ticked s) = createBlockChainMutex s" "peerStorage (ticked s) = peerStorage s"
  by (simp_all add: ticked_def)

lemma tip_ticked [simp]: "tip E (ticked s) b = tip E s b"
  by (simp add: tip_def)

lemma tip_cong: "db s' = db s \<Longrightarrow> tip E s' b = tip E s b"
  by (simp add: tip_def)

lemma GetLatest_tip:
  assumes "tip E s b"
  obtains c where "on_db (GetLatest (store E)) s = Returns (Some c) (ticked s)" "same_block c b"
    "hb_Hash c = Some (slice_bytes (hb_Hash b))"
  using GetLatest_stored [of "db s" "slice_bytes (hb_Hash b)" "store E" b] assms
  by (auto simp: tip_def prog_simps ticked_def fresh_copy_def)

lemma GetByID_on_db:
  assumes "stored (store E) (db s) h b"
  obtains c where "on_db (GetByID (store E) (Some h)) s = Returns (Some c) (ticked s)" "same_block c b"
    "hb_Hash c = Some (slice_bytes (hb_Hash b))"
  using GetByID_stored [OF assms] by (auto simp: prog_simps ticked_def fresh_copy_def)

text \<open>The walk of \<open>GetBlockByIndex\<close> looks up the hash of the block it is at, so it stays there.\<close>

definition stuck_at :: "('k, 'v) node_env \<Rightarrow> u64 \<Rightarrow> NewLeaderHelloBlock option \<Rightarrow> 'k Service \<Rightarrow> bool" where
  "stuck_at E i p s \<longleftrightarrow> (\<exists>c h b. p = Some c \<and> hb_Index c \<noteq> i \<and> hb_Hash c = Some h \<and>
     slice_bytes (hb_Hash b) = h \<and> same_block c b \<and> stored (store E) (db s) h b)"

lemma stuck_step:
  assumes "stuck_at E i p s"
  obtains c c' where "p = Some c" "hb_Index c \<noteq> i"
    "on_db (GetByID (store E) (hb_Hash c)) s = Returns (Some c') (ticked s)" "stuck_at E i (Some c') (ticked s)"
proof -
  obtain c h b where c: "p = Some c" "hb_Index c \<noteq> i" "hb_Hash c = Some h" "slice_bytes (hb_Hash b) = h"
      "same_block c b" "stored (store E) (db s) h b"
    using assms by (auto simp: stuck_at_def)
  from c(6) obtain c' where c': "on_db (GetByID (store E) (Some h)) s = Returns (Some c') (ticked s)"
      "same_block c' b" "hb_Hash c' = Some (slice_bytes (hb_Hash b))" by (rule GetByID_on_db)
  have "hb_Index c' \<noteq> i" using c'(2) c(2,5) by (simp add: same_block_def)
  then have "stuck_at E i (Some c') (ticked s)"
    unfolding stuck_at_def using c' c(4,6) by auto
  with c c' that show thesis by simp
qed

lemma seek_stuck:
  fixes E :: "('k, 'v) node_env"
  assumes "seek E i p s = Some r"
  shows "\<not> stuck_at E i p s"
proof (rule seek.raw_induct [where P = "\<lambda>E i p s r. \<not> stuck_at E i p s", OF _ assms])
  fix rec :: "('k, 'v) node_env \<Rightarrow> u64 \<Rightarrow> NewLeaderHelloBlock option \<Rightarrow> 'k Service \<Rightarrow>
     (NewLeaderHelloBlock option result, 'k Service) outcome option" and E i p s r
  assume IH: "\<And>E i p s r. rec E i p s = Some r \<Longrightarrow> \<not> stuck_at E i p s"
    and eq: "(case p of
        None \<Rightarrow> Some (Panics NilDereference s)
      | Some b \<Rightarrow>
          if hb_Index b \<noteq> i then
            (case on_db (GetByID (store E) (hb_Hash b)) s of
               Returns None s' \<Rightarrow> Some (Returns (Inl ''No such block'') s')
             | Returns (Some b') s' \<Rightarrow> rec E i (Some b') s'
             | Panics p s' \<Rightarrow> Some (Panics p s')
             | Blocks s' \<Rightarrow> Some (Blocks s'))
          else Some (Returns (Inr p) s)) = Some r"
  show "\<not> stuck_at E i p s"
  proof
    assume "stuck_at E i p s"
    then obtain c c' where c: "p = Some c" "hb_Index c \<noteq> i"
        "on_db (GetByID (store E) (hb_Hash c)) s = Returns (Some c') (ticked s)" "stuck_at E i (Some c') (ticked s)"
      by (rule stuck_step)
    with eq have "rec E i (Some c') (ticked s) = Some r" by simp
    from IH [OF this] c(4) show False by simp
  qed
qed

section \<open>Looking a block up by its height\<close>

lemma index_body_tip:
  assumes "tip E s b"
  shows "hb_Index b \<le> i \<Longrightarrow> \<exists>c. index_body E i s = Some (Returns (Inr (Some c)) (ticked s)) \<and> same_block c b"
    and "i < hb_Index b \<Longrightarrow> blockIndexMap (db s) i = None \<Longrightarrow> index_body E i s = None"
    and "i < hb_Index b \<Longrightarrow> blockIndexMap (db s) i = Some (Some h) \<Longrightarrow> stored (store E) (db s) h b' \<Longrightarrow>
      \<exists>c. index_body E i s = Some (Returns (Inr (Some c)) (ticked (ticked s))) \<and> same_block c b'"
proof -
  obtain c where c: "on_db (GetLatest (store E)) s = Returns (Some c) (ticked s)" "same_block c b"
      "hb_Hash c = Some (slice_bytes (hb_Hash b))"
    using assms by (rule GetLatest_tip)
  have index: "hb_Index c = hb_Index b" using c(2) by (simp add: same_block_def)
  show "\<exists>c. index_body E i s = Some (Returns (Inr (Some c)) (ticked s)) \<and> same_block c b" if "hb_Index b \<le> i"
    using that c index by (auto simp: index_body_def)
  show "index_body E i s = None" if i: "i < hb_Index b" "blockIndexMap (db s) i = None"
  proof -
    have "tip E (ticked s) b" using assms by simp
    then obtain c2 where c2: "on_db (GetLatest (store E)) (ticked s) = Returns (Some c2) (ticked (ticked s))"
        "same_block c2 b" "hb_Hash c2 = Some (slice_bytes (hb_Hash b))" by (rule GetLatest_tip)
    have "stuck_at E i (Some c2) (ticked (ticked s))"
      unfolding stuck_at_def using c2(2,3) i(1) assms by (auto simp: same_block_def tip_def)
    then have "seek E i (Some c2) (ticked (ticked s)) = None"
      using seek_stuck by (metis option.exhaust)
    moreover have "on_db (BlockStore.GetBlockByIndex (store E) i) (ticked s) = Returns (Inl ''no block found'') (ticked s)"
      using i(2) by (simp add: BlockStore.GetBlockByIndex_def prog_simps ticked_def)
    ultimately show ?thesis
      using c(1) c2(1) i(1) index by (simp add: index_body_def)
  qed
  show "\<exists>c. index_body E i s = Some (Returns (Inr (Some c)) (ticked (ticked s))) \<and> same_block c b'"
    if i: "i < hb_Index b" "blockIndexMap (db s) i = Some (Some h)" "stored (store E) (db s) h b'"
  proof -
    have "stored (store E) (db (ticked s)) h b'" using i(3) by simp
    then obtain c2 where c2: "on_db (GetByID (store E) (Some h)) (ticked s) = Returns (Some c2) (ticked (ticked s))"
        "same_block c2 b'" by (rule GetByID_on_db)
    have "on_db (BlockStore.GetBlockByIndex (store E) i) (ticked s) = Returns (Inr (Some c2)) (ticked (ticked s))"
      using c2(1) i(2) by (auto simp: BlockStore.GetBlockByIndex_def prog_simps split: outcome.splits)
    with c(1) c2(2) i(1) index show ?thesis by (simp add: index_body_def)
  qed
qed

text \<open>
  C34: Asking for a block by its height. On a node whose latest block has height \<open>n\<close>: a height of
  \<open>n\<close> or more, also one the chain has not reached, is answered with the latest block and no error;
  a smaller indexed height with the block stored for it; and a smaller height that is not in the
  index makes the call loop for ever with \<open>createBlockChainMutex\<close> held, because the walk down
  looks up the hash of the block it is at instead of its \<open>PrevBlock\<close>.
\<close>

theorem BlockByIndex_answers:
  assumes "tip E s b" "\<not> createBlockChainMutex s"
  shows "(hb_Index b \<le> i \<longrightarrow>
      (\<exists>c s'. BlockByIndex E i s = Some (Returns (Inr (Some c)) s') \<and> same_block c b)) \<and>
    (i < hb_Index b \<longrightarrow> blockIndexMap (db s) i = None \<longrightarrow> BlockByIndex E i s = None) \<and>
    (\<forall>h b'. i < hb_Index b \<longrightarrow> blockIndexMap (db s) i = Some (Some h) \<longrightarrow> stored (store E) (db s) h b' \<longrightarrow>
      (\<exists>c s'. BlockByIndex E i s = Some (Returns (Inr (Some c)) s') \<and> same_block c b'))"
proof -
  let ?s = "put_chain_locked True s"
  have "tip E ?s b" using assms(1) by (simp add: tip_def)
  note body = index_body_tip [OF this]
  have run: "BlockByIndex E i s = map_option (\<lambda>out. deferring (put_chain_locked False) (\<lambda>_. out) s) (index_body E i ?s)"
    using assms(2) by (simp add: BlockByIndex_def)
  show ?thesis
  proof (intro conjI impI allI)
    assume "hb_Index b \<le> i"
    then show "\<exists>c s'. BlockByIndex E i s = Some (Returns (Inr (Some c)) s') \<and> same_block c b"
      using body(1) [of i] by (auto simp: run prog_simps)
  next
    assume "i < hb_Index b" "blockIndexMap (db s) i = None"
    then show "BlockByIndex E i s = None" using body(2) [of i] by (simp add: run)
  next
    fix h b' assume "i < hb_Index b" "blockIndexMap (db s) i = Some (Some h)" "stored (store E) (db s) h b'"
    then show "\<exists>c s'. BlockByIndex E i s = Some (Returns (Inr (Some c)) s') \<and> same_block c b'"
      using body(3) [of i h b'] by (auto simp: run prog_simps)
  qed
qed

text \<open>A node that has only the block of height 3, of which \<open>sample_hello\<close> is the example.\<close>

definition tip_node :: "(bytes \<times> Message) list Service" where
  "tip_node = new_node\<lparr>db := indexed (mem_db\<lparr>bucket := Some [([2], MsgHello (sample_hello []))]\<rparr>) (sample_hello [])\<rparr>"

lemma tip_node_tip: "tip sample_env tip_node (sample_hello [])"
  by (simp add: tip_def tip_node_def stored_def full_def sample_env_def mem_env_def mem_db_def NewBlockDB_def hello_ok_def
      sample_hello_def NewDeForkBlock_def)

lemma BlockByIndex_answers_witness:
  "BlockByIndex sample_env 1 tip_node = None \<and>
   (\<exists>c s'. BlockByIndex sample_env 100 tip_node = Some (Returns (Inr (Some c)) s') \<and> hb_Index c = 3)"
proof -
  have free: "\<not> createBlockChainMutex tip_node" by (simp add: tip_node_def new_node_def fresh_service_def)
  have i: "hb_Index (sample_hello []) = 3" by (simp add: sample_hello_def)
  have none: "blockIndexMap (db tip_node) 1 = None"
    by (simp add: tip_node_def sample_hello_def mem_db_def NewBlockDB_def)
  have "1 < hb_Index (sample_hello [])" "hb_Index (sample_hello []) \<le> 100" by (simp_all add: i)
  then show ?thesis
    using BlockByIndex_answers [OF tip_node_tip free, of 1] none
      BlockByIndex_answers [OF tip_node_tip free, of 100] i
    by (auto simp: same_block_def)
qed

section \<open>Handshake\<close>

definition genesis_id :: "'k Service \<Rightarrow> slice" where
  "genesis_id s = genesis_of (db s)"

lemma genesis_id_ticked [simp]: "genesis_id (ticked s) = genesis_id s"
  by (simp add: genesis_id_def genesis_of_def)

text \<open>
  A handshake kills a node that has a chain. When the genesis block is known and the message
  names the same one or none, \<open>handleHandshakeMessage\<close> takes \<open>latestMutex\<close> and then calls
  \<open>GetLatest\<close>, which waits for it: the handler blocks for ever, sends and queues nothing, and
  leaves the mutex held, so every later \<open>GetLatest\<close> and \<open>UpdateLatest\<close> of the node blocks too.
\<close>

theorem handshake_deadlocks:
  assumes "genesis_id s = Some g" "reqGenesis = None \<or> slice_bytes reqGenesis = g" "\<not> latestMutex (db s)"
  shows "\<exists>s'. handleHandshakeMessage E \<lparr>env_ServerIdentity = si, env_Msg = HandshakeMessage reqGenesis reqLatest answer\<rparr> s
      = Blocks s' \<and> latestMutex (db s') \<and> outbox s' = outbox s \<and> synChan s' = synChan s \<and>
    on_db (GetLatest (store E)) s' = Blocks s' \<and> (\<forall>p. on_db (UpdateLatest p) s' = Blocks s')"
proof -
  let ?s = "s\<lparr>db := put_latestMutex True (db s)\<rparr>"
  have "on_db (GetLatest (store E)) ?s = Blocks ?s" "\<And>p. on_db (UpdateLatest p) ?s = Blocks ?s"
    by (simp_all add: prog_simps GetLatest_locked UpdateLatest_def)
  moreover have "handleHandshakeMessage E
      \<lparr>env_ServerIdentity = si, env_Msg = HandshakeMessage reqGenesis reqLatest answer\<rparr> s = Blocks ?s"
    using assms by (auto simp: handleHandshakeMessage_def prog_simps Let_def GetLatest_locked genesis_id_def)
  ultimately show ?thesis by (intro exI [of _ ?s]) simp
qed

text \<open>A node with its genesis block: \<open>sample_hello\<close> at height 0.\<close>

definition genesis_sample :: NewLeaderHelloBlock where
  "genesis_sample = (sample_hello [])\<lparr>hb_Index := 0\<rparr>"

definition genesis_node :: "(bytes \<times> Message) list Service" where
  "genesis_node = new_node\<lparr>db := indexed (mem_db\<lparr>bucket := Some [([2], MsgHello genesis_sample)]\<rparr>) genesis_sample\<rparr>"

lemma genesis_node_facts:
  "genesis_id genesis_node = Some [2]" "\<not> latestMutex (db genesis_node)" "\<not> createBlockChainMutex genesis_node"
  "blockIndexMap (db genesis_node) = [0 \<mapsto> Some [2]]"
  "stored (store sample_env) (db genesis_node) [2] genesis_sample" "\<not> signed_order genesis_sample"
  by (simp_all add: genesis_id_def genesis_of_def genesis_node_def genesis_sample_def sample_hello_def mem_db_def NewBlockDB_def
      new_node_def fresh_service_def stored_def full_def sample_env_def mem_env_def hello_ok_def NewDeForkBlock_def signed_order_def)

lemma handshake_deadlocks_witness:
  "\<exists>s'. handleHandshakeMessage sample_env
      \<lparr>env_ServerIdentity = sample_peer ''a'', env_Msg = HandshakeMessage (Some [2]) (Some (sample_hello [])) True\<rparr> genesis_node
    = Blocks s' \<and> latestMutex (db s')"
proof -
  have "Some [2] = None \<or> slice_bytes (Some [2]) = [2]" by simp
  from handshake_deadlocks [OF genesis_node_facts(1) this genesis_node_facts(2)] show ?thesis by blast
qed

text \<open>
  The other cases of a handshake. A node without a chain queues the sender, with its height,
  for download when the message carries a chain, and ignores the message otherwise; a node with a
  chain refuses one of another genesis block with an error and no effect.
\<close>

theorem handshake_other_cases:
  "(genesis_id s = None \<longrightarrow>
     handleHandshakeMessage E \<lparr>env_ServerIdentity = si, env_Msg = HandshakeMessage reqGenesis reqLatest answer\<rparr> s =
     Returns None (case (reqGenesis, reqLatest) of
         (Some _, Some r) \<Rightarrow> s\<lparr>synChan := synChan s @ [\<lparr>ri_Index = hb_Index r, ri_ServerIdentity = si\<rparr>]\<rparr>
       | _ \<Rightarrow> s)) \<and>
   (genesis_id s \<noteq> None \<and> reqGenesis \<noteq> None \<and> slice_bytes reqGenesis \<noteq> slice_bytes (genesis_id s) \<longrightarrow>
     handleHandshakeMessage E \<lparr>env_ServerIdentity = si, env_Msg = HandshakeMessage reqGenesis reqLatest answer\<rparr> s =
     Returns (Some ''no same block chain'') s)"
  by (auto simp: handleHandshakeMessage_def prog_simps Let_def sync_chan_send_def genesis_id_def split: option.splits)

lemma handshake_other_cases_witness:
  "handleHandshakeMessage sample_env
      \<lparr>env_ServerIdentity = sample_peer ''a'', env_Msg = HandshakeMessage (Some [2]) (Some (sample_hello [])) True\<rparr> new_node
    = Returns None (new_node\<lparr>synChan := [\<lparr>ri_Index = 3, ri_ServerIdentity = sample_peer ''a''\<rparr>]\<rparr>)"
proof -
  have "genesis_id new_node = None" "synChan new_node = []"
    by (simp_all add: genesis_id_def genesis_of_def new_node_def fresh_service_def NewBlockDB_def)
  with handshake_other_cases [of new_node sample_env "sample_peer ''a''" "Some [2]" "Some (sample_hello [])" True]
  show ?thesis by (simp add: sample_hello_def)
qed

section \<open>Download\<close>

definition serves :: "('k, 'v) node_env \<Rightarrow> 'k Service \<Rightarrow> u64 \<Rightarrow> NewLeaderHelloBlock \<Rightarrow> bool" where
  "serves E s i b \<longleftrightarrow> (\<exists>h. blockIndexMap (db s) i = Some (Some h) \<and> stored (store E) (db s) h b)"

lemma serves_ticked [simp]: "serves E (ticked s) i b = serves E s i b"
  by (simp add: serves_def)

lemma GetGenesisID_on_db: "on_db GetGenesisID s = Returns (genesis_id s) s"
  by (simp add: genesis_id_def prog_simps)

lemma GetBlockByIndex_served:
  assumes "serves E s i b"
  obtains c where "on_db (BlockStore.GetBlockByIndex (store E) i) s = Returns (Inr (Some c)) (ticked s)"
    "same_block c b" "hello_ok c \<longleftrightarrow> \<not> signed_order b"
proof -
  obtain h where h: "blockIndexMap (db s) i = Some (Some h)" "stored (store E) (db s) h b"
    using assms by (auto simp: serves_def)
  from GetByID_stored [OF h(2)] h(1) that show thesis
    by (auto simp: BlockStore.GetBlockByIndex_def prog_simps ticked_def)
qed

lemma copy_hello_on_db:
  "hello_ok c \<Longrightarrow> \<exists>d. on_db (copy_hello (store E) c) s = Returns d (ticked s) \<and> same_block d c"
  "\<not> hello_ok c \<Longrightarrow> on_db (copy_hello (store E) c) s = Panics NilDereference (ticked s)"
proof -
  show "\<exists>d. on_db (copy_hello (store E) c) s = Returns d (ticked s) \<and> same_block d c" if "hello_ok c"
    using Hello_Copy_same [OF that, of "newCollection (store E)" "time_at (store E) (clock_reads (db s))" "tick (db s)"]
    by (auto simp: copy_hello_def prog_simps ticked_def)
qed (simp add: copy_hello_def prog_simps Hello_Copy_stuck ticked_def)

lemma collect_blocks_served:
  assumes "\<And>j. j < length bs \<Longrightarrow> serves E s (start + of_nat j) (bs ! j) \<and> \<not> signed_order (bs ! j)"
  shows "\<exists>cs s'. collect_blocks E (length bs) start s = Returns (map Some cs) s' \<and> list_all2 same_block cs bs \<and>
    outbox s' = outbox s"
  using assms
proof (induction bs arbitrary: start s)
  case Nil
  then show ?case by (simp add: prog_simps)
next
  case (Cons b bs)
  have b: "serves E s start b" "\<not> signed_order b" using Cons.prems [of 0] by simp_all
  from b(1) obtain c where
    c: "on_db (BlockStore.GetBlockByIndex (store E) start) s = Returns (Inr (Some c)) (ticked s)"
      "same_block c b" "hello_ok c" by (rule GetBlockByIndex_served) (use b(2) in simp)
  from copy_hello_on_db(1) [OF c(3)] obtain d where
    d: "on_db (copy_hello (store E) c) (ticked s) = Returns d (ticked (ticked s))" "same_block d c" by blast
  have "serves E (ticked (ticked s)) (start + 1 + of_nat j) (bs ! j) \<and> \<not> signed_order (bs ! j)"
    if "j < length bs" for j
    using Cons.prems [of "Suc j"] that by (simp add: add.assoc)
  from Cons.IH [OF this] obtain cs s' where
    "collect_blocks E (length bs) (start + 1) (ticked (ticked s)) = Returns (map Some cs) s'"
    "list_all2 same_block cs bs" "outbox s' = outbox s" by auto
  moreover have "same_block d b" using d(2) c(2) by (rule same_block_trans)
  ultimately show ?case
    using c(1) d(1) by (intro exI [of _ "d # cs"] exI [of _ s']) (simp add: prog_eval)
qed

text \<open>
  What a download request is answered with. When the genesis blocks agree and the node has
  the blocks \<open>bs\<close> for the heights from \<open>Start\<close> up to, but not including, \<open>Size\<close>, none with a signed
  elected block, it answers with copies of exactly these, in order. \<open>Size\<close> is used as the end
  of the range, not its length: if \<open>Start\<close> is at least \<open>Size\<close> the answer is an error.
\<close>

theorem download_served:
  assumes "slice_bytes reqGenesis = slice_bytes (genesis_id s)" "length bs = unat size' - unat start"
    and "\<And>j. j < length bs \<Longrightarrow> serves E s (start + of_nat j) (bs ! j) \<and> \<not> signed_order (bs ! j)"
  shows "\<exists>r s'. handleDownloadBlockRequest E
      \<lparr>env_ServerIdentity = si, env_Msg = DownloadBlockRequest reqGenesis start size'\<rparr> s = Returns r s' \<and>
    (if start \<ge> size' then r = Some ''no valid blocks'' \<and> outbox s' = outbox s
     else \<exists>cs. list_all2 same_block cs bs \<and>
       outbox s' = outbox s @ [(si, DownloadBlockResponse (map Some cs) (genesis_id s))])"
proof -
  obtain cs s1 where run: "collect_blocks E (length bs) start s = Returns (map Some cs) s1"
      "list_all2 same_block cs bs" "outbox s1 = outbox s"
    using collect_blocks_served [of bs E s start] assms(3) by blast
  have len: "cs = [] \<longleftrightarrow> bs = []" using list_all2_lengthD [OF run(2)] by auto
  have empty: "start \<ge> size' \<longleftrightarrow> bs = []" using assms(2) by (auto simp: word_le_nat_alt)
  show ?thesis
    using run assms(1) len empty
    by (cases "bs = []") (simp_all add: handleDownloadBlockRequest_def prog_simps genesis_id_def assms(2) [symmetric])
qed

lemma download_served_witness:
  "\<exists>r s' cs. handleDownloadBlockRequest sample_env
      \<lparr>env_ServerIdentity = sample_peer ''a'', env_Msg = DownloadBlockRequest (Some [2]) 0 1\<rparr> genesis_node = Returns r s' \<and>
    list_all2 same_block cs [genesis_sample] \<and>
    outbox s' = outbox genesis_node @ [(sample_peer ''a'', DownloadBlockResponse (map Some cs) (Some [2]))]"
proof -
  have 1: "slice_bytes (Some [2]) = slice_bytes (genesis_id genesis_node)"
    by (simp add: genesis_node_facts)
  have 2: "length [genesis_sample] = unat (1 :: u64) - unat (0 :: u64)" by simp
  have 3: "serves sample_env genesis_node (0 + of_nat j) ([genesis_sample] ! j) \<and> \<not> signed_order ([genesis_sample] ! j)"
    if "j < length [genesis_sample]" for j
    using that genesis_node_facts(4-6) by (auto simp: serves_def)
  have 4: "\<not> (1 :: u64) \<le> 0" by simp
  from download_served [OF 1 2 3, of "sample_peer ''a''"] 4 genesis_node_facts(1) show ?thesis by auto
qed

text \<open>
  A block elected by signatures cannot be downloaded. If the first block of the range has a
  signed elected block, as every block made by \<open>startNewLeaderHelloBlock\<close> from \<open>HalfMore\<close> has,
  the handler copies the copy that \<open>GetBlockByIndex\<close> returned and panics, sending nothing.
\<close>

theorem download_signed_panics:
  assumes "slice_bytes reqGenesis = slice_bytes (genesis_id s)" "start < size'"
    and "serves E s start b" "signed_order b"
  shows "\<exists>s'. handleDownloadBlockRequest E
      \<lparr>env_ServerIdentity = si, env_Msg = DownloadBlockRequest reqGenesis start size'\<rparr> s
    = Panics NilDereference s' \<and> outbox s' = outbox s"
proof -
  obtain n where n: "unat size' - unat start = Suc n"
    using assms(2) by (metis Suc_diff_Suc word_less_nat_alt)
  obtain c where c: "on_db (BlockStore.GetBlockByIndex (store E) start) s = Returns (Inr (Some c)) (ticked s)"
      "same_block c b" "hello_ok c \<longleftrightarrow> \<not> signed_order b"
    using assms(3) by (rule GetBlockByIndex_served)
  have "\<not> hello_ok c" using c(3) assms(4) by simp
  then have "on_db (copy_hello (store E) c) (ticked s) = Panics NilDereference (ticked (ticked s))"
    by (rule copy_hello_on_db(2))
  with c(1) assms(1) show ?thesis
    by (simp add: handleDownloadBlockRequest_def prog_eval GetGenesisID_on_db n)
qed

definition signed_sample :: NewLeaderHelloBlock where
  "signed_sample = (sample_hello [])\<lparr>hb_Block := Some (NewDeForkBlock 5 [Some signed_once])\<rparr>"

lemma download_signed_panics_witness:
  "\<exists>s'. handleDownloadBlockRequest sample_env
      \<lparr>env_ServerIdentity = sample_peer ''a'', env_Msg = DownloadBlockRequest None 3 4\<rparr>
      (new_node\<lparr>db := indexed (mem_db\<lparr>bucket := Some [([2], MsgHello signed_sample)]\<rparr>) signed_sample\<rparr>)
    = Panics NilDereference s'"
proof -
  let ?s = "new_node\<lparr>db := indexed (mem_db\<lparr>bucket := Some [([2], MsgHello signed_sample)]\<rparr>) signed_sample\<rparr>"
  have "slice_bytes None = slice_bytes (genesis_id ?s)" "(3 :: u64) < 4"
    by (simp_all add: genesis_id_def genesis_of_def signed_sample_def sample_hello_def mem_db_def NewBlockDB_def)
  moreover have "serves sample_env ?s 3 signed_sample" "signed_order signed_sample"
    by (auto simp: serves_def stored_def full_def signed_sample_def sample_hello_def mem_db_def NewBlockDB_def sample_env_def
        mem_env_def hello_ok_def NewDeForkBlock_def signed_once_def signatures_ok_def signed_order_def signed_def)
  ultimately show ?thesis using download_signed_panics by blast
qed

section \<open>What a node asks for\<close>

text \<open>A request that \<open>processMessage\<close> sends from a chain whose latest block is \<open>b\<close>.\<close>

definition asks_from :: "NewLeaderHelloBlock \<Rightarrow> Msg \<Rightarrow> bool" where
  "asks_from b msg \<longleftrightarrow> (\<exists>g size'. msg = DownloadBlockRequest g (hb_Index b) size' \<and> size' \<le> 1) \<or>
     (\<exists>g l a. msg = HandshakeMessage g l a)"

text \<open>A state change that keeps the chain and sends only such requests.\<close>

definition asking :: "('k, 'v) node_env \<Rightarrow> NewLeaderHelloBlock \<Rightarrow> 'k Service \<Rightarrow> 'k Service \<Rightarrow> bool" where
  "asking E b s s' \<longleftrightarrow> tip E s' b \<and> ps_locked (peerStorage s') = ps_locked (peerStorage s) \<and>
     (\<exists>new. outbox s' = outbox s @ new \<and> (\<forall>m\<in>set new. asks_from b (snd m)))"

lemma asking_refl: "tip E s b \<Longrightarrow> asking E b s s"
  by (auto simp: asking_def)

lemma asking_trans: "asking E b s s' \<Longrightarrow> asking E b s' s'' \<Longrightarrow> asking E b s s''"
  by (fastforce simp: asking_def)

lemma try_remotes_asking:
  assumes "tip E s b" "\<And>t k. 0 < k \<Longrightarrow> random_index E t k < k"
  shows "\<exists>rs s'. try_remotes E n remotes s = Returns rs s' \<and> asking E b s s'"
  using assms(1)
proof (induction n arbitrary: remotes s)
  case 0
  then show ?case by (simp add: prog_simps asking_refl)
next
  case (Suc n)
  show ?case
  proof (cases "remotes = []")
    case True
    then show ?thesis using Suc.prems by (simp add: prog_simps asking_refl)
  next
    case False
    let ?i = "random_index E (length (outbox s)) (length remotes)"
    have i: "?i < length remotes" using False assms(2) by simp
    obtain c where c: "on_db (GetLatest (store E)) s = Returns (Some c) (ticked s)" "same_block c b"
      using Suc.prems by (rule GetLatest_tip)
    let ?size = "if ri_Index (remotes ! ?i) < MAX_BLOCK_PERONCE then ri_Index (remotes ! ?i) else MAX_BLOCK_PERONCE"
    let ?msg = "DownloadBlockRequest (genesis_id s) (hb_Index c) ?size"
    let ?s = "(ticked s)\<lparr>outbox := outbox s @ [(ri_ServerIdentity (remotes ! ?i), ?msg)]\<rparr>"
    have "?size \<le> 1" by (simp add: MAX_BLOCK_PERONCE_def)
    then have "asks_from b ?msg" using c(2) by (simp add: asks_from_def same_block_def)
    moreover have "tip E ?s b" using Suc.prems tip_cong [of ?s "ticked s" E b] by simp
    ultimately have step: "asking E b s ?s" by (simp add: asking_def)
    from Suc.IH [OF \<open>tip E ?s b\<close>] obtain rs s' where
      rest: "try_remotes E n (take ?i remotes @ drop (Suc ?i) remotes) ?s = Returns rs s'" "asking E b ?s s'" by blast
    have run: "try_remotes E (Suc n) remotes s =
       (if network_send E (length (outbox s)) (ri_ServerIdentity (remotes ! ?i)) ?msg = None then Returns remotes ?s
        else try_remotes E n (take ?i remotes @ drop (Suc ?i) remotes) ?s)"
      using False i c(1) by (simp add: prog_eval Let_def GetGenesisID_on_db SendRaw_eval)
    show ?thesis
    proof (cases "network_send E (length (outbox s)) (ri_ServerIdentity (remotes ! ?i)) ?msg")
      case None
      with run step show ?thesis by auto
    next
      case (Some err)
      with run rest asking_trans [OF step rest(2)] show ?thesis by auto
    qed
  qed
qed

lemma handshake_sends:
  assumes "tip E s b"
  shows "\<exists>s'. each (greet E) ps s = Returns () s' \<and> asking E b s s'"
  using assms
proof (induction ps arbitrary: s)
  case Nil
  then show ?case by (simp add: prog_simps asking_refl)
next
  case (Cons p ps)
  obtain c where c: "on_db (GetLatest (store E)) s = Returns (Some c) (ticked s)"
    using Cons.prems by (rule GetLatest_tip)
  let ?s = "(ticked s)\<lparr>outbox := outbox s @ [(p, HandshakeMessage (genesis_id s) (Some c) True)]\<rparr>"
  have tip: "tip E ?s b" using Cons.prems tip_cong [of ?s "ticked s" E b] by simp
  then have step: "asking E b s ?s" by (auto simp: asking_def asks_from_def)
  have "greet E p s = Returns () ?s"
    using c by (simp add: greet_def prog_eval GetGenesisID_on_db SendRaw_eval)
  moreover from Cons.IH [OF tip] obtain s' where "each (greet E) ps ?s = Returns () s'" "asking E b ?s s'" by blast
  ultimately show ?case
    using asking_trans [OF step] by (intro exI [of _ s']) (simp add: prog_eval)
qed

lemma handshake_asking:
  assumes "tip E s b" "\<not> ps_locked (peerStorage s)"
  shows "\<exists>s'. handshake E s = Returns () s' \<and> asking E b s s'"
proof -
  let ?s = "(put_ps_locked True s)\<lparr>spawned := spawned s @ [ProcessMessage (card (dom (peerNodeMap (peerStorage s))))]\<rparr>"
  have "tip E ?s b" using assms(1) by (simp add: tip_def)
  from handshake_sends [OF this, of "peer_list E (peerNodeMap (peerStorage s))"] obtain s' where
    "each (greet E)
       (peer_list E (peerNodeMap (peerStorage s))) ?s = Returns () s'" "asking E b ?s s'" by blast
  with assms(2) show ?thesis
    by (intro exI [of _ "put_ps_locked False s'"])
      (simp add: handshake_def with_peers_def lock_eval prog_eval spawn_eval asking_def tip_def)
qed

lemma download_asking:
  assumes "tip E s b" "\<not> ps_locked (peerStorage s)" "\<And>t k. 0 < k \<Longrightarrow> random_index E t k < k"
  shows "\<exists>s'. download E rs s = Returns () s' \<and> asking E b s s'"
proof (cases "rs = []")
  case True
  then show ?thesis using assms(1) by (simp add: download_def prog_simps asking_def tip_def)
next
  case False
  obtain rest s2 where s2: "try_remotes E (length rs) rs s = Returns rest s2" "asking E b s s2"
    using try_remotes_asking [OF assms(1,3), of "length rs" rs] by blast
  then obtain s3 where s3: "handshake E s2 = Returns () s3" "asking E b s2 s3"
    using handshake_asking [of E s2 b] assms(2) by (auto simp: asking_def)
  with asking_trans [OF s2(2) s3(2)] s2 False show ?thesis
    by (cases "rest = []") (simp_all add: download_def prog_simps)
qed

lemma collect_asking:
  assumes "tip E s b" "\<not> ps_locked (peerStorage s)" "\<And>t k. 0 < k \<Longrightarrow> random_index E t k < k"
  shows "\<exists>s'. collect E n rs s = Returns () s' \<and> asking E b s s'"
proof (cases n)
  case 0
  then show ?thesis using download_asking [OF assms] by simp
next
  case (Suc m)
  show ?thesis
  proof (cases "synChan s")
    case Nil
    then show ?thesis using download_asking [OF assms, of rs] Suc by (simp add: prog_simps)
  next
    case (Cons r rest)
    let ?s = "s\<lparr>synChan := rest\<rparr>"
    have "tip E ?s b" using assms(1) by (simp add: tip_def)
    then obtain c where c: "on_db (GetLatest (store E)) ?s = Returns (Some c) (ticked ?s)" by (rule GetLatest_tip)
    then show ?thesis
      using Cons Suc assms(1) by (simp add: prog_eval spawn_eval asking_def tip_def ticked_def)
  qed
qed

lemma empty_range:
  assumes "size' \<le> start"
  shows "handleDownloadBlockRequest E \<lparr>env_ServerIdentity = si, env_Msg = DownloadBlockRequest g start size'\<rparr> t
    = Returns (if slice_bytes g = slice_bytes (genesis_id t) then Some ''no valid blocks'' else None) t"
  using assms by (simp add: handleDownloadBlockRequest_def prog_eval GetGenesisID_on_db word_le_nat_alt)

text \<open>
  C35: Synchronisation stops at the genesis block. On a node whose latest block has height 1 or more, each
  step of \<open>processMessage\<close> returns and keeps the latest block, and every request for blocks that it sends
  asks for a range that starts at the node's own height and ends at 1 at most. So no receiver, whatever
  its own chain, sends a block back or changes its state: with the same genesis block it answers with
  the error that there are no valid blocks, with another one it ignores the request.
\<close>

theorem sync_asks_for_nothing:
  assumes "tip E s b" "0 < hb_Index b" "\<not> ps_locked (peerStorage s)" "\<forall>t k. 0 < k \<longrightarrow> random_index E t k < k"
  shows "(\<exists>ts. processMessage E n s = Returns () (s\<lparr>spawned := ts\<rparr>)) \<and>
    (\<exists>s' new. collect E n remotes s = Returns () s' \<and> tip E s' b \<and> outbox s' = outbox s @ new \<and>
    (\<forall>m\<in>set new. \<forall>g start size'. snd m = DownloadBlockRequest g start size' \<longrightarrow>
       start = hb_Index b \<and> size' \<le> 1 \<and>
       (\<forall>E' t si. handleDownloadBlockRequest (E' :: ('k, 'v) node_env) \<lparr>env_ServerIdentity = si, env_Msg = snd m\<rparr> t =
          Returns (if slice_bytes g = slice_bytes (genesis_id (t :: 'k Service)) then Some ''no valid blocks'' else None) t)))"
proof (intro conjI)
  show "\<exists>ts. processMessage E n s = Returns () (s\<lparr>spawned := ts\<rparr>)"
    by (cases "n = 0") (auto simp: processMessage_def prog_simps intro: exI [of _ "spawned s"])
  obtain s' where s': "collect E n remotes s = Returns () s'" "asking E b s s'"
    using collect_asking [of E s b n remotes] assms by blast
  then obtain new where new: "outbox s' = outbox s @ new" "\<forall>m\<in>set new. asks_from b (snd m)" and tip: "tip E s' b"
    by (auto simp: asking_def)
  have ask: "start = hb_Index b \<and> size' \<le> 1" if "m \<in> set new" "snd m = DownloadBlockRequest g start size'"
    for m g start size'
    using new(2) that by (auto simp: asks_from_def)
  moreover have "size' \<le> hb_Index b" if "size' \<le> 1" for size'
    using assms(2) that by (simp add: word_le_nat_alt word_less_nat_alt)
  ultimately show "\<exists>s' new. collect E n remotes s = Returns () s' \<and> tip E s' b \<and> outbox s' = outbox s @ new \<and>
    (\<forall>m\<in>set new. \<forall>g start size'. snd m = DownloadBlockRequest g start size' \<longrightarrow>
       start = hb_Index b \<and> size' \<le> 1 \<and>
       (\<forall>E' t si. handleDownloadBlockRequest (E' :: ('k, 'v) node_env) \<lparr>env_ServerIdentity = si, env_Msg = snd m\<rparr> t =
          Returns (if slice_bytes g = slice_bytes (genesis_id (t :: 'k Service)) then Some ''no valid blocks'' else None) t))"
    using s'(1) new(1) tip by (intro exI [of _ s'] exI [of _ new]) (fastforce simp: empty_range)
qed

text \<open>A node of height 3 whose peer has announced height 9, at the end of its wait.\<close>

lemma sync_asks_for_nothing_witness:
  "\<exists>s' new. collect sample_env 0 [\<lparr>ri_Index = 9, ri_ServerIdentity = sample_peer ''a''\<rparr>] tip_node = Returns () s' \<and>
    outbox s' = outbox tip_node @ new \<and>
    (\<forall>m\<in>set new. \<forall>g start size'. snd m = DownloadBlockRequest g start size' \<longrightarrow> start = 3 \<and> size' \<le> 1)"
proof -
  have i: "hb_Index (sample_hello []) = 3" by (simp add: sample_hello_def)
  moreover have "(0 :: u64) < 3" by simp
  moreover have "\<not> ps_locked (peerStorage tip_node)"
    by (simp add: tip_node_def new_node_def fresh_service_def)
  moreover have "\<forall>t k. 0 < k \<longrightarrow> random_index sample_env t k < k" by (simp add: sample_env_def)
  ultimately show ?thesis
    using sync_asks_for_nothing [OF tip_node_tip, of 0 "[\<lparr>ri_Index = 9, ri_ServerIdentity = sample_peer ''a''\<rparr>]"] by metis
qed

text \<open>
  A download response never adds a block. For every block of the response the handler fetches
  its own block of that height, and uses that one from there on: if it has none, which is the
  case for every block that is new to it, it dereferences nil and panics, and nothing of the
  response has been stored.
\<close>

theorem download_response_panics:
  assumes "slice_bytes reqGenesis = slice_bytes (genesis_id s)" "blockIndexMap (db s) (hb_Index b) = None"
  shows "handleDownloadBlockResponse E
      \<lparr>env_ServerIdentity = si, env_Msg = DownloadBlockResponse (Some b # bs) reqGenesis\<rparr> s = Panics NilDereference s"
proof -
  have "on_db (BlockStore.GetBlockByIndex (store E) (hb_Index b)) s = Returns (Inl ''no block found'') s"
    using assms(2) by (simp add: BlockStore.GetBlockByIndex_def prog_simps)
  with assms(1) show ?thesis
    by (simp add: handleDownloadBlockResponse_def prog_eval GetGenesisID_on_db Let_def)
qed

lemma download_response_panics_witness:
  "handleDownloadBlockResponse sample_env
      \<lparr>env_ServerIdentity = sample_peer ''a'', env_Msg = DownloadBlockResponse [Some (sample_hello [])] (Some [2])\<rparr> genesis_node
    = Panics NilDereference genesis_node"
proof -
  have "slice_bytes (Some [2]) = slice_bytes (genesis_id genesis_node)" by (simp add: genesis_node_facts)
  moreover have "blockIndexMap (db genesis_node) (hb_Index (sample_hello [])) = None"
    by (simp add: genesis_node_facts sample_hello_def)
  ultimately show ?thesis by (rule download_response_panics)
qed

end
