(* ===== verification/Format.thy ===== *)
theory Format
  imports Hex
begin

text \<open>
  What the printing of numbers and times rests on in the standard library: \<open>%d\<close> and \<open>%x\<close> of
  \<open>fmt\<close>, and \<open>time.Unix(0, n).Format("2006-01-02 15:04:05")\<close>. Each printer is injective and prints no
  line break, which the text of a block needs to be read back.
\<close>

section \<open>Numbers\<close>

fun digits :: "nat \<Rightarrow> string" where
  "digits n = (if n < 10 then [char_of (48 + n)] else digits (n div 10) @ [char_of (48 + n mod 10)])"

declare digits.simps [simp del]

definition show_int :: "int \<Rightarrow> string" where
  "show_int i = (if i < 0 then ''-'' @ digits (nat (- i)) else digits (nat i))"

text \<open>\<open>%x\<close> of an unsigned number.\<close>

fun hex_nat :: "nat \<Rightarrow> string" where
  "hex_nat n = (if n < 16 then [hex_digits ! n] else hex_nat (n div 16) @ [hex_digits ! (n mod 16)])"

declare hex_nat.simps [simp del]

text \<open>Decimal with zeros in front, up to a width: \<open>appendInt\<close> of the package \<open>time\<close>, for natural numbers.\<close>

definition padded :: "nat \<Rightarrow> nat \<Rightarrow> string" where
  "padded width n = replicate (width - length (digits n)) CHR ''0'' @ digits n"

text \<open>The value of a text of digits, with which the printers are read back.\<close>

definition value_of :: "nat \<Rightarrow> (char \<Rightarrow> nat) \<Rightarrow> string \<Rightarrow> nat" where
  "value_of base f s = foldl (\<lambda>n c. base * n + f c) 0 s"

definition decimal :: "char \<Rightarrow> nat" where
  "decimal c = of_char c - 48"

lemma value_of_snoc [simp]: "value_of base f (s @ [c]) = base * value_of base f s + f c"
  by (simp add: value_of_def)

lemma of_char_digit: "n < 10 \<Longrightarrow> of_char (char_of (48 + n :: nat)) = (48 + n :: nat)"
  by simp

lemma value_digits: "value_of 10 decimal (digits n) = n"
proof (induction n rule: digits.induct)
  case (1 n)
  show ?case
  proof (cases "n < 10")
    case True
    then show ?thesis by (simp add: digits.simps [of n] value_of_def decimal_def of_char_digit)
  next
    case False
    with 1 have "value_of 10 decimal (digits (n div 10)) = n div 10" by simp
    moreover have "decimal (char_of (48 + n mod 10)) = n mod 10" by (simp add: decimal_def of_char_digit)
    ultimately show ?thesis using False by (simp add: digits.simps [of n])
  qed
qed

lemma digits_inject [simp]: "digits m = digits n \<longleftrightarrow> m = n"
  by (metis value_digits)

lemma value_zeros: "value_of 10 decimal (replicate k CHR ''0'' @ s) = value_of 10 decimal s"
proof -
  have "foldl (\<lambda>n c. 10 * n + decimal c) 0 (replicate k CHR ''0'') = 0"
    by (induction k) (simp_all add: decimal_def)
  then show ?thesis by (simp add: value_of_def)
qed

lemma padded_inject [simp]: "padded w m = padded w n \<longleftrightarrow> m = n"
  by (metis padded_def value_digits value_zeros)

lemma digit_chars: "set (digits n) \<subseteq> set ''0123456789''"
proof (induction n rule: digits.induct)
  case (1 n)
  have small: "char_of (48 + k) \<in> set ''0123456789''" if "k < 10" for k :: nat
  proof -
    have "\<forall>k\<in>set [0..<10]. char_of (48 + k) \<in> set ''0123456789''"
      by (simp add: upt_conv_Cons char_of_def bit_0)
    with that show ?thesis by simp
  qed
  show ?case using 1 small [of n] small [of "n mod 10"] by (simp add: digits.simps [of n])
qed

lemma padded_chars: "set (padded w n) \<subseteq> set ''0123456789''"
  using digit_chars [of n] by (auto simp: padded_def)

lemma digits_length: "n < 10 ^ k \<Longrightarrow> 0 < k \<Longrightarrow> length (digits n) \<le> k"
proof (induction n arbitrary: k rule: digits.induct)
  case (1 n)
  show ?case
  proof (cases "n < 10")
    case False
    obtain j where k: "k = Suc j" using 1(3) by (cases k) simp_all
    with False 1(2) have "j \<noteq> 0" by (intro notI) simp
    with k have j: "k = Suc j" "0 < j" by simp_all
    with 1(2) have "n div 10 < 10 ^ j" by (simp add: less_mult_imp_div_less mult.commute)
    with 1(1) [OF False] j False show ?thesis by (simp add: digits.simps [of n])
  qed (use 1(3) in \<open>simp add: digits.simps [of n]\<close>)
qed

lemma length_padded: "n < 10 ^ w \<Longrightarrow> 0 < w \<Longrightarrow> length (padded w n) = w"
  using digits_length [of n w] by (simp add: padded_def)

lemma value_hex_nat: "value_of 16 (\<lambda>c. the (hex_value c)) (hex_nat n) = n"
proof (induction n rule: hex_nat.induct)
  case (1 n)
  then show ?case
    by (cases "n < 16") (simp_all add: hex_nat.simps [of n] hex_value_digit, simp add: value_of_def hex_value_digit)
qed

lemma hex_nat_inject [simp]: "hex_nat m = hex_nat n \<longleftrightarrow> m = n"
  by (metis value_hex_nat)

lemma hex_digit_chars: "n < 16 \<Longrightarrow> hex_digits ! n \<in> set hex_digits"
  by (intro nth_mem) (simp add: hex_digits_def)

lemma hex_nat_chars: "set (hex_nat n) \<subseteq> set hex_digits"
proof (induction n rule: hex_nat.induct)
  case (1 n)
  then show ?case
    using hex_digit_chars [of n] hex_digit_chars [of "n mod 16"] by (simp add: hex_nat.simps [of n])
qed

lemma hex_encode_chars: "set (hex_encode bs) \<subseteq> set hex_digits"
proof -
  have "set (hex_of_byte b) \<subseteq> set hex_digits" for b
    using unat_byte_less [of b] hex_digit_chars by (simp add: hex_of_byte_def)
  then show ?thesis by (induction bs) (auto simp: hex_encode_def)
qed

lemma hex_encode_inject [simp]: "hex_encode a = hex_encode b \<longleftrightarrow> a = b"
  by (metis hex_decode_encode sum.inject(2))

section \<open>Dates\<close>

text \<open>
  The proleptic Gregorian calendar, counted from the first of January 1600: years and then months are
  taken off a number of days. All times of an \<open>int64\<close> of nanoseconds are between 1677 and 2262.
\<close>

definition leap :: "nat \<Rightarrow> bool" where
  "leap y \<longleftrightarrow> y mod 4 = 0 \<and> (y mod 100 \<noteq> 0 \<or> y mod 400 = 0)"

definition year_days :: "nat \<Rightarrow> nat" where
  "year_days y = (if leap y then 366 else 365)"

definition month_days :: "nat \<Rightarrow> nat \<Rightarrow> nat" where
  "month_days y m = (if m = 2 then if leap y then 29 else 28 else if m \<in> {4, 6, 9, 11} then 30 else 31)"

lemma days_positive [simp]: "0 < year_days y" "0 < month_days y m"
  by (simp_all add: year_days_def month_days_def)

function year_of :: "nat \<Rightarrow> nat \<Rightarrow> nat \<times> nat" where
  "year_of y d = (if d < year_days y then (y, d) else year_of (Suc y) (d - year_days y))"
  by pat_completeness auto
termination
  by (relation "measure snd") (auto simp: not_less, metis days_positive(1) diff_less less_le_trans)

function month_of :: "nat \<Rightarrow> nat \<Rightarrow> nat \<Rightarrow> nat \<times> nat" where
  "month_of y m d = (if d < month_days y m then (m, Suc d) else month_of y (Suc m) (d - month_days y m))"
  by pat_completeness auto
termination
  by (relation "measure (\<lambda>(y, m, d). d)") (auto simp: not_less, metis days_positive(2) diff_less less_le_trans)

declare year_of.simps [simp del] month_of.simps [simp del]

text \<open>The parts of a date and a time of day.\<close>

definition civil :: "nat \<Rightarrow> nat \<times> nat \<times> nat" where
  "civil d = (let (y, d) = year_of 1600 d in (y, month_of y 1 d))"

definition days_of_years :: "nat \<Rightarrow> nat \<Rightarrow> nat" where
  "days_of_years y k = sum_list (map year_days [y..<y + k])"

definition day_of_1970 :: int where
  "day_of_1970 = int (days_of_years 1600 370)"

definition clock_parts :: "int \<Rightarrow> nat \<times> nat \<times> nat" where
  "clock_parts t = (nat (t div 3600), nat (t div 60 mod 60), nat (t mod 60))"

text \<open>
  \<open>Format("2006-01-02 15:04:05")\<close> of the instant of \<open>n\<close> nanoseconds, in a zone that is \<open>zone t\<close> seconds ahead
  of UTC at the Unix second \<open>t\<close>.
\<close>

definition local_second :: "(int \<Rightarrow> int) \<Rightarrow> int \<Rightarrow> int" where
  "local_second zone n = n div 1000000000 + zone (n div 1000000000)"

definition show_date :: "int \<Rightarrow> string" where
  "show_date t =
     (let (y, m, d) = civil (nat (t div 86400 + day_of_1970)); (hh, mm, ss) = clock_parts (t mod 86400)
      in padded 4 y @ ''-'' @ padded 2 m @ ''-'' @ padded 2 d @ '' '' @
         padded 2 hh @ '':'' @ padded 2 mm @ '':'' @ padded 2 ss)"

definition format_time :: "(int \<Rightarrow> int) \<Rightarrow> u64 \<Rightarrow> string" where
  "format_time zone n = show_date (local_second zone (sint n))"

text \<open>What was taken off can be put back, so no two days share a date.\<close>

lemma year_of_back:
  "year_of y d = (y', d') \<Longrightarrow> y \<le> y' \<and> d = sum_list (map year_days [y..<y']) + d' \<and> d' < year_days y'"
proof (induction y d rule: year_of.induct)
  case (1 y d)
  show ?case
  proof (cases "d < year_days y")
    case True
    with 1(2) show ?thesis by (simp add: year_of.simps [of y d])
  next
    case False
    with 1 have "Suc y \<le> y' \<and> d - year_days y = sum_list (map year_days [Suc y..<y']) + d' \<and> d' < year_days y'"
      by (simp add: year_of.simps [of y d])
    with False show ?thesis by (auto simp: upt_conv_Cons)
  qed
qed

lemma month_of_back:
  "month_of y m d = (m', d') \<Longrightarrow> m \<le> m' \<and> Suc d = sum_list (map (month_days y) [m..<m']) + d'"
proof (induction y m d rule: month_of.induct)
  case (1 y m d)
  show ?case
  proof (cases "d < month_days y m")
    case True
    with 1(2) show ?thesis by (simp add: month_of.simps [of y m d])
  next
    case False
    with 1 have "Suc m \<le> m' \<and> Suc (d - month_days y m) = sum_list (map (month_days y) [Suc m..<m']) + d'"
      by (simp add: month_of.simps [of y m d])
    with False show ?thesis by (auto simp: upt_conv_Cons)
  qed
qed

lemma civil_inject [simp]: "civil d = civil d' \<longleftrightarrow> d = d'"
proof
  obtain y e y' e' where years: "year_of 1600 d = (y, e)" "year_of 1600 d' = (y', e')" by fastforce
  obtain m f m' f' where months: "month_of y 1 e = (m, f)" "month_of y' 1 e' = (m', f')" by fastforce
  assume "civil d = civil d'"
  then have same: "y = y'" "m = m'" "f = f'" unfolding civil_def years Let_def prod.case months by blast+
  have "Suc e = Suc e'"
    using month_of_back [OF months(1)] month_of_back [OF months(2)] unfolding same by (metis)
  then show "d = d'"
    using year_of_back [OF years(1)] year_of_back [OF years(2)] unfolding same by (metis Suc_inject)
qed simp

lemma clock_parts_inject:
  assumes "0 \<le> t" "0 \<le> t'"
  shows "clock_parts t = clock_parts t' \<longleftrightarrow> t = t'"
proof
  have sixty: "60 * 60 = (3600 :: int)" by simp
  have hours: "u div 3600 = u div 60 div 60" for u :: int
    unfolding sixty [symmetric] by (rule zdiv_zmult2_eq) (rule zero_le_numeral)
  have nonneg: "0 \<le> u div 3600" if "0 \<le> u" for u :: int
    using that by (rule div_int_pos_iff [THEN iffD2, OF disjI2, OF disjI2, OF disjI1, OF conjI, OF _ zero_le_numeral])
  assume eq: "clock_parts t = clock_parts t'"
  have "t div 3600 = t' div 3600"
    using eq nonneg [OF assms(1)] nonneg [OF assms(2)] unfolding clock_parts_def prod.inject by (metis nat_eq_iff2)
  moreover have "t div 60 mod 60 = t' div 60 mod 60" "t mod 60 = t' mod 60"
    using eq unfolding clock_parts_def prod.inject by (metis eq_nat_nat_iff pos_mod_sign zero_less_numeral)+
  ultimately have "t div 60 = t' div 60" "t mod 60 = t' mod 60"
    unfolding hours by (metis div_mult_mod_eq)+
  then show "t = t'" by (metis div_mult_mod_eq)
qed simp

lemma split_at: "c \<notin> set a \<Longrightarrow> c \<notin> set b \<Longrightarrow> a @ c # x = b @ c # y \<longleftrightarrow> a = b \<and> x = y"
  by (induction a arbitrary: b) (case_tac b; auto)+

lemma not_in_padded: "c \<notin> set ''0123456789'' \<Longrightarrow> c \<notin> set (padded w n)"
  using padded_chars by blast

lemma show_date_inject:
  assumes "0 \<le> t div 86400 + day_of_1970" "0 \<le> t' div 86400 + day_of_1970"
  shows "show_date t = show_date t' \<longleftrightarrow> t = t'"
proof
  obtain y m d where date: "civil (nat (t div 86400 + day_of_1970)) = (y, m, d)" by (rule prod_cases3)
  obtain y' m' d' where date': "civil (nat (t' div 86400 + day_of_1970)) = (y', m', d')" by (rule prod_cases3)
  assume "show_date t = show_date t'"
  then have same: "(y, m, d) = (y', m', d')" and parts: "clock_parts (t mod 86400) = clock_parts (t' mod 86400)"
    by (simp_all add: show_date_def date date' clock_parts_def split_at not_in_padded)
  have days: "nat (t div 86400 + day_of_1970) = nat (t' div 86400 + day_of_1970)"
    using date date' same civil_inject by metis
  have "t mod 86400 = t' mod 86400"
    using parts by (rule clock_parts_inject [THEN iffD1, rotated 2]) (rule pos_mod_sign, rule zero_less_numeral)+
  moreover have "t div 86400 + day_of_1970 = t' div 86400 + day_of_1970"
    using days by (rule eq_nat_nat_iff [OF assms, THEN iffD1])
  ultimately show "t = t'" by (metis add_right_cancel div_mult_mod_eq)
qed simp

lemma show_date_line: "CHR 0x0A \<notin> set (show_date t)"
  by (simp add: show_date_def clock_parts_def not_in_padded split: prod.split)

lemma days_of_years_Suc: "days_of_years y (Suc k) = year_days y + days_of_years (Suc y) k"
proof -
  have "[y..<y + Suc k] = y # [Suc y..<Suc y + k]" by (simp add: upt_conv_Cons del: upt_Suc)
  then show ?thesis unfolding days_of_years_def by simp
qed

lemma year_of_skip: "year_of y (days_of_years y k + d) = year_of (y + k) d"
proof (induction k arbitrary: y)
  case (Suc k)
  from Suc [of "Suc y"] show ?case by (subst year_of.simps) (simp add: days_of_years_Suc)
qed (simp add: days_of_years_def)

lemma epoch: "show_date 0 = ''1970-01-01 00:00:00''"
proof -
  have "year_of 1600 (days_of_years 1600 370) = year_of 1970 0"
    using year_of_skip [of 1600 370 0] by simp
  then have "year_of 1600 (nat day_of_1970) = (1970, 0)"
    by (simp add: day_of_1970_def year_of.simps [of 1970 0])
  then show ?thesis
    by (simp add: show_date_def civil_def clock_parts_def month_of.simps padded_def digits.simps char_of_def bit_0)
qed

lemma day_of_1970_late: "135050 \<le> day_of_1970"
proof -
  have "365 * k \<le> days_of_years y k" for y k
  proof (induction k arbitrary: y)
    case (Suc k)
    from Suc [of "Suc y"] show ?case by (simp add: days_of_years_Suc year_days_def)
  qed simp
  from this [of 370 1600] show ?thesis by (simp add: day_of_1970_def)
qed

text \<open>Every \<open>int64\<close> of nanoseconds is on the calendar, in a zone that is at most a day off.\<close>

lemma on_calendar:
  assumes "\<bar>zone (sint n div 1000000000)\<bar> \<le> 86400"
  shows "0 \<le> local_second zone (sint (n :: u64)) div 86400 + day_of_1970"
proof -
  have "- (2 ^ 63) \<le> sint n" using sint_greater_eq [of n] by simp
  then have "(- (2 ^ 63)) div 1000000000 \<le> sint n div 1000000000" by (rule zdiv_mono1) simp
  then have "- 9300000000 \<le> local_second zone (sint n)" using assms by (simp add: local_second_def)
  then have "(- 9300000000) div 86400 \<le> local_second zone (sint n) div 86400" by (rule zdiv_mono1) simp
  with day_of_1970_late show ?thesis by simp
qed

lemma format_time_inject:
  assumes "\<And>t. \<bar>zone t\<bar> \<le> 86400" "\<And>t. \<bar>zone' t\<bar> \<le> 86400"
  shows "format_time zone n = format_time zone' n' \<longleftrightarrow> local_second zone (sint n) = local_second zone' (sint n')"
  unfolding format_time_def by (rule show_date_inject [OF on_calendar on_calendar]) (rule assms)+

end
