(* ===== verification/Consensus.thy ===== *)
theory Consensus
  imports Sync Format
begin

text \<open>
  service/service.go, service/clock.go: how the members of the consensus group elect the next
  block: who is a member or the leader, the timers, the block messages, the signature and proxy
  messages, the genesis block, and the calls of the miner.
\<close>

section \<open>Membership\<close>

text \<open>
  The loop of \<open>getLatestPublicKeyMap\<close>. The block fetched in it is a new variable \<open>tmpBlock\<close>, which is
  only compared with nil: the outer one, \<open>b\<close> here, stays the latest block.
\<close>

primrec member_keys :: "('k, 'v) node_env \<Rightarrow> nat \<Rightarrow> NewLeaderHelloBlock \<Rightarrow> (string \<rightharpoonup> bool) \<Rightarrow>
    ('k, string \<rightharpoonup> bool) node" where
  "member_keys E 0 b m = ret m"
| "member_keys E (Suc n) b m =
     (let m = m(hb_PublicKey b \<mapsto> True) in
      if length (slice_bytes (hb_PrevBlock b)) = 0 then ret m
      else bnd (on_db (GetByID (store E) (hb_PrevBlock b))) (\<lambda>tmpBlock.
        if tmpBlock = None then ret m else member_keys E n b m))"

definition getLatestPublicKeyMap :: "('k, 'v) node_env \<Rightarrow> ('k, string \<rightharpoonup> bool) node" where
  "getLatestPublicKeyMap E =
     bnd (on_db (GetLatest (store E))) (\<lambda>latestBlock.
     case latestBlock of
       None \<Rightarrow> ret Map.empty
     | Some l \<Rightarrow> bnd (on_db (copy_hello (store E) l)) (\<lambda>tmpBlock. member_keys E COSI_MEMBERS tmpBlock Map.empty))"

definition isLeader :: "('k, 'v) node_env \<Rightarrow> ('k, bool) node" where
  "isLeader E =
     bnd (on_db (GetLatest (store E))) (\<lambda>latest.
     case latest of
       None \<Rightarrow> ret False
     | Some l \<Rightarrow>
         bnd (deref (hb_Block l)) (\<lambda>d.
         case df_OrderBlocks d of
           [] \<Rightarrow> ret False
         | p # _ \<Rightarrow> bnd (deref p) (\<lambda>b. bnd (publicKey E) (\<lambda>key. ret (bh_PublicKey (b_Header b) = key)))))"

primrec member_walk :: "('k, 'v) node_env \<Rightarrow> nat \<Rightarrow> NewLeaderHelloBlock option \<Rightarrow> ('k, bool) node" where
  "member_walk E 0 pointer = ret False"
| "member_walk E (Suc n) pointer =
     (case pointer of
        None \<Rightarrow> ret False
      | Some b \<Rightarrow>
          bnd (publicKey E) (\<lambda>key.
          if hb_PublicKey b = key then ret True
          else bnd (on_db (GetByID (store E) (hb_PrevBlock b))) (\<lambda>prev. member_walk E n prev)))"

definition isBFTMember :: "('k, 'v) node_env \<Rightarrow> ('k, bool) node" where
  "isBFTMember E = bnd (on_db (GetLatest (store E))) (\<lambda>pointer. member_walk E COSI_MEMBERS pointer)"

section \<open>The estimate of the network delay\<close>

text \<open>The test \<open>preIndex < 0\<close> is on an unsigned number.\<close>

definition calcDelta :: "('k, 'v) node_env \<Rightarrow> ('k, u64 result) node" where
  "calcDelta E =
     bnd (on_db (GetLatest (store E))) (\<lambda>latest.
     bnd (deref latest) (\<lambda>latestBlock.
     bnd (gets (\<lambda>s. of_int (pc_Size (privateClock s)))) (\<lambda>sz :: u64.
     let preIndex = hb_Index latestBlock - sz; div' = sz in
     if div' = 0 then ret (Inl ''size could not be zero'')
     else
       let (preIndex, div') = (if preIndex < 0 then (0, hb_Index latestBlock) else (preIndex, div')) in
       bnd (on_db (BlockStore.GetBlockByIndex (store E) preIndex)) (\<lambda>r.
       case r of
         Inl err \<Rightarrow> ret (Inl err)
       | Inr block \<Rightarrow>
           bnd (deref block) (\<lambda>b.
           if div' = 0 then panics DivideByZero
           else let globalClock = (hb_Timestamp latestBlock - hb_Timestamp b) div div' in
             bnd (on_clock Clock) (\<lambda>privateClock.
             if privateClock = 0 then ret (Inl ''private clock could not be zero'')
             else ret (Inr (globalClock div privateClock))))))))"

section \<open>The gateways of the group\<close>

text \<open>
  \<open>bftMemberGroup\<close> skips the addresses that parse (the test of \<open>err\<close> is inverted), and for the
  others goes on with the nil identity and reads its \<open>Public\<close>.
\<close>

definition group_address :: "('k, 'v) node_env \<Rightarrow> string \<Rightarrow> ('k, unit) node" where
  "group_address E addr =
     (case ConvertPeerURL (urls E) addr of
        Inr si \<Rightarrow> ret ()
      | Inl err \<Rightarrow> bnd (deref (None :: ServerIdentity option)) (\<lambda>si.
          bnd (PublicString si) (\<lambda>key.
          bnd (gets (\<lambda>s. peerNodeMap (proxyStorage s) key)) (\<lambda>entry.
          seqp (whenp (entry = None) (modifies (\<lambda>s. s\<lparr>proxyStorage := (proxyStorage s)
                  \<lparr>peerNodeMap := (peerNodeMap (proxyStorage s))(key \<mapsto> si)\<rparr>\<rparr>)))
            (bnd (SendRaw E si (TunnelMessage ''Test tunnel Message'')) (\<lambda>err. ret ()))))))"

primrec stale_keys :: "('k, 'v) node_env \<Rightarrow> string list \<Rightarrow> ('k, string list) node" where
  "stale_keys E [] = ret []"
| "stale_keys E (key # keys) =
     bnd (getLatestPublicKeyMap E) (\<lambda>memberMap.
     bnd (stale_keys E keys) (\<lambda>rest. ret (if memberMap key = None then key # rest else rest)))"

definition bftMemberGroup :: "('k, 'v) node_env \<Rightarrow> NewLeaderHelloBlock \<Rightarrow> ('k, unit) node" where
  "bftMemberGroup E block = with_proxies (
     seqp (each (group_address E) (hb_Addresses block))
       (bnd (gets (\<lambda>s. peerNodeMap (proxyStorage s))) (\<lambda>m.
        bnd (stale_keys E (key_order E (dom m))) (\<lambda>deletionKey.
        each (\<lambda>key. modifies (\<lambda>s. s\<lparr>proxyStorage := (proxyStorage s)
                \<lparr>peerNodeMap := (peerNodeMap (proxyStorage s))(key := None)\<rparr>\<rparr>)) deletionKey))))"

section \<open>The miner\<close>

definition startMiner :: "('k, 'v) node_env \<Rightarrow> NewLeaderHelloBlock \<Rightarrow> ('k, unit) node" where
  "startMiner E block =
     bnd (deref (hb_Block block)) (\<lambda>d.
     case df_OrderBlocks d of
       [] \<Rightarrow> ret ()
     | p # _ \<Rightarrow>
         bnd (deref p) (\<lambda>powBlock.
         let header = Header_Copy (b_Header powBlock);
             templateBlock = NewBlock\<lparr>b_Header := header\<lparr>bh_PrevBlock := slice_copy (bh_PrevBlock header) (hb_Hash block)\<rparr>\<rparr>
         in on_miner (Start (Some templateBlock))))"

definition stopMiner :: "('k, unit) node" where
  "stopMiner = on_miner Stop"

definition minerCallback :: "('k, 'v) node_env \<Rightarrow> Block \<Rightarrow> ('k, unit) node" where
  "minerCallback E block = BroadcastBlock E (PBlock block) CandidateBlock"

section \<open>Timers\<close>

text \<open>
  \<open>startTimer\<close> until it has found \<open>timerRunning\<close> not set, and from there until it sleeps for a minute. The
  field has no lock: other goroutines may run between the test and the assignment.
\<close>

definition startTimer :: "('k, 'v) node_env \<Rightarrow> NewLeaderHelloBlock \<Rightarrow> ('k, unit) node" where
  "startTimer E block =
     seqp (spawn (MemberGroup block))
     (seqp (spawn (StartMiner block))
     (bnd (isBFTMember E) (\<lambda>member.
      if \<not> member then ret ()
      else bnd (gets timerRunning) (\<lambda>running.
        if running then ret () else spawn (ArmTimer block)))))"

definition armTimer :: "NewLeaderHelloBlock \<Rightarrow> ('k, unit) node" where
  "armTimer block = seqp (modifies (\<lambda>s. s\<lparr>timerRunning := True\<rparr>)) (spawn (TimerFired block))"

text \<open>The rest of \<open>startTimer\<close>, up to the leader's own sleep.\<close>

definition timerFired :: "('k, 'v) node_env \<Rightarrow> NewLeaderHelloBlock \<Rightarrow> ('k, unit) node" where
  "timerFired E block =
     seqp stopMiner
     (seqp (modifies (\<lambda>s. s\<lparr>timerRunning := False\<rparr>))
     (bnd (isBFTMember E) (\<lambda>member.
      if \<not> member then ret ()
      else seqp (spawn (ProposeBlocks block))
        (bnd (isLeader E) (\<lambda>leader. whenp leader (spawn LeaderCounts))))))"

definition proposeBlocks :: "('k, 'v) node_env \<Rightarrow> NewLeaderHelloBlock \<Rightarrow> ('k, unit) node" where
  "proposeBlocks E block =
     (if length (hb_Addresses block) = 0 then ret ()
      else bnd (gets buffer) (\<lambda>bb.
        if Buffer_Len bb = 0 then spawn (StartTimer block)
        else each (\<lambda>addr.
          case ConvertPeerURL (urls E) addr of
            Inl err \<Rightarrow> ret ()
          | Inr si \<Rightarrow>
              bnd (gets buffer) (\<lambda>bb.
              bnd (SendRaw E si (ProxyRequest (Some (map Some (Buffer_List (key_order E (dom (blockMap bb))) bb))))) (\<lambda>err.
              ret ()))) (hb_Addresses block)))"

definition read_clock :: "('k, 'v) node_env \<Rightarrow> ('k, u64) node" where
  "read_clock E = on_db (bnd (gets clock_reads) (\<lambda>n. seqp (modifies tick) (ret (time_at (store E) n))))"

text \<open>What the leader does half a minute later.\<close>

definition leaderCounts :: "('k, 'v) node_env \<Rightarrow> ('k, unit) node" where
  "leaderCounts E =
     bnd (on_db (GetLatest (store E))) (\<lambda>latest.
     case latest of
       None \<Rightarrow> ret ()
     | Some l \<Rightarrow>
         let memberLen = (of_nat COSI_MEMBERS :: u64);
             memberLen = (if hb_Index l < memberLen then hb_Index l else memberLen)
         in bnd (gets buffer) (\<lambda>bb.
            let blocks = HalfMore (key_order E (dom (blockMap bb))) memberLen bb in
            if length blocks = 0 then ret ()
            else bnd (read_clock E) (\<lambda>now.
              let deFork = NewDeForkBlock now (map Some blocks) in
              seqp (BroadcastBlock E (PDeFork deFork) RefererBlock) (spawn (NewLeader deFork)))))"

text \<open>\<open>startNewLeaderHelloBlock\<close> until it sleeps, and the block it makes then.\<close>

definition startNewLeaderHelloBlock :: "('k, 'v) node_env \<Rightarrow> DeForkBlock \<Rightarrow> ('k, unit) node" where
  "startNewLeaderHelloBlock E block =
     (case df_OrderBlocks block of
        [] \<Rightarrow> panics IndexOutOfRange
      | p # _ \<Rightarrow>
          bnd (deref p) (\<lambda>leaderBlock.
          bnd (publicKey E) (\<lambda>key.
          if bh_PublicKey (b_Header leaderBlock) \<noteq> key then ret ()
          else bnd (on_db (GetLatest (store E))) (\<lambda>latest.
            case latest of
              None \<Rightarrow> ret ()
            | Some l \<Rightarrow> spawn (LeaderReady l (bh_PublicKey (b_Header leaderBlock)) block)))))"

definition leaderReady :: "('k, 'v) node_env \<Rightarrow> NewLeaderHelloBlock \<Rightarrow> string \<Rightarrow> DeForkBlock \<Rightarrow> ('k, unit) node" where
  "leaderReady E latest key block =
     bnd (on_db (copy_hello (store E) latest)) (\<lambda>tmp.
     bnd (read_clock E) (\<lambda>now.
     let tmp = tmp\<lparr>hb_Index := hb_Index tmp + 1, hb_Timestamp := now,
           hb_PrevBlock := slice_copy (hb_PrevBlock tmp) (hb_Hash tmp),
           hb_PublicKey := key, hb_Block := Some block\<rparr>
     in case Hello_CalculateHash tmp of
          Inl err \<Rightarrow> ret ()
        | Inr hash \<Rightarrow>
            let tmp = tmp\<lparr>hb_Hash := slice_copy (hb_Hash tmp) (Some hash)\<rparr> in
            seqp (bnd (on_db (Store (store E) (Some tmp))) (\<lambda>_. ret ()))
            (seqp (on_db (UpdateLatest (Some tmp)))
            (seqp (BroadcastBlock E (PHello tmp) NewLeaderHello) (spawn (StartTimer tmp))))))"

section \<open>Messages\<close>

definition handleCandidate :: "('k, 'v) node_env \<Rightarrow> Block \<Rightarrow> ('k, unit) node" where
  "handleCandidate E block =
     bnd (gets timerRunning) (\<lambda>running.
     whenp running
       (bnd (gets buffer) (\<lambda>bb.
        whenp (\<not> Buffer_in (b_Hash block) bb)
          (bnd (Block_Copy (newCollection (store E)) (Some block)) (\<lambda>copy.
           bnd (deref copy) (\<lambda>signBlock.
           bnd (publicKey E) (\<lambda>key.
           bnd (Block_Sign (newCollection (store E)) key signBlock) (\<lambda>signBlock.
           seqp (on_buffer (modifies (Buffer_Put signBlock)))
             (spawn (Broadcast (PBlock block) CandidateBlock))))))))))"

definition handleReferer :: "('k, 'v) node_env \<Rightarrow> DeForkBlock \<Rightarrow> ('k, unit) node" where
  "handleReferer E block =
     bnd (gets deForkBlock) (\<lambda>current.
     whenp (case current of None \<Rightarrow> True | Some d \<Rightarrow> slice_bytes (df_Hash d) \<noteq> slice_bytes (df_Hash block))
       (bnd (calcDelta E) (\<lambda>r.
        seqp (case r of Inr d \<Rightarrow> modifies (\<lambda>s. s\<lparr>ds := d\<rparr>) | Inl err \<Rightarrow> ret ())
        (seqp (modifies (\<lambda>s. s\<lparr>deForkBlock := Some block\<rparr>))
        (seqp (spawn (Broadcast (PDeFork block) RefererBlock))
        (bnd (isLeader E) (\<lambda>leader. whenp leader (spawn (NewLeader block)))))))))"

definition handleHello :: "('k, 'v) node_env \<Rightarrow> NewLeaderHelloBlock \<Rightarrow> ('k, unit) node" where
  "handleHello E block =
     bnd (on_db (GetByID (store E) (hb_Hash block))) (\<lambda>known.
     if known \<noteq> None then ret ()
     else bnd (on_db (BlockStore.GetBlockByIndex (store E) (hb_Index block))) (\<lambda>r.
       if (case r of Inr (Some b) \<Rightarrow> True | _ \<Rightarrow> False) then ret ()
       else
         seqp (bnd (on_db (Store (store E) (Some block))) (\<lambda>_. ret ()))
         (seqp (on_db (UpdateLatest (Some block)))
         (seqp (spawn (Broadcast (PHello block) NewLeaderHello)) (spawn (StartTimer block))))))"

definition handleBlockMessage :: "('k, 'v) node_env \<Rightarrow> Envelope \<Rightarrow> ('k, go_error option) node" where
  "handleBlockMessage E env =
     (case env_Msg env of
        BlockMessage type p \<Rightarrow>
          (case p of
             None \<Rightarrow> ret (Some ''Block could no be empty'')
           | Some block \<Rightarrow>
               if type = CandidateBlock then
                 (case block of PBlock b \<Rightarrow> seqp (handleCandidate E b) (ret None) | _ \<Rightarrow> panics TypeAssertion)
               else if type = RefererBlock then
                 (case block of PDeFork b \<Rightarrow> seqp (handleReferer E b) (ret None) | _ \<Rightarrow> panics TypeAssertion)
               else if type = NewLeaderHello then
                 seqp (modifies (\<lambda>s. s\<lparr>deForkBlock := None\<rparr>))
                   (case block of PHello b \<Rightarrow> seqp (handleHello E b) (ret None) | _ \<Rightarrow> panics TypeAssertion)
               else if type = TxBlock then ret None
               else ret (Some (''type '' @ [CHR 0x27] @ show_int type @ [CHR 0x27] @ '' not handled'')))
      | _ \<Rightarrow> ret (Some (cast_error E (self E) ''BlockMessage'')))"

definition handleSignatureRequest :: "('k, 'v) node_env \<Rightarrow> Envelope \<Rightarrow> ('k, go_error option) node" where
  "handleSignatureRequest E env =
     (case env_Msg env of
        SignatureRequest blocks \<Rightarrow>
          bnd (on_db (GetLatest (store E))) (\<lambda>latest.
          if latest = None then ret (Some ''Blockchain no active'')
          else seqp (each (\<lambda>p. bnd (deref p) (\<lambda>block. on_buffer (Buffer_Set (newCollection (store E)) block))) blocks)
                 (ret None))
      | _ \<Rightarrow> ret (Some (cast_error E (self E) ''SignatureRequest'')))"

text \<open>
  The two response channels have no buffer and the tree has no receiver for them, so the send
  never completes. \<open>handleProxyResponse\<close> casts to \<open>SignatureResponse\<close>.
\<close>

definition handleSignatureResponse :: "('k, 'v) node_env \<Rightarrow> Envelope \<Rightarrow> ('k, go_error option) node" where
  "handleSignatureResponse E env =
     (case env_Msg env of
        SignatureResponse _ _ \<Rightarrow> bnd (PublicString (env_ServerIdentity env)) (\<lambda>key. hangs)
      | _ \<Rightarrow> ret (Some (cast_error E (self E) ''SignatureResponse'')))"

definition handleProxyResponse :: "('k, 'v) node_env \<Rightarrow> Envelope \<Rightarrow> ('k, go_error option) node" where
  "handleProxyResponse E env =
     (case env_Msg env of
        SignatureResponse _ _ \<Rightarrow> bnd (PublicString (env_ServerIdentity env)) (\<lambda>key. hangs)
      | _ \<Rightarrow> ret (Some (cast_error E (self E) ''SignatureRequest'')))"

definition handleProxyRequest :: "('k, 'v) node_env \<Rightarrow> Envelope \<Rightarrow> ('k, go_error option) node" where
  "handleProxyRequest E env =
     (case env_Msg env of
        ProxyRequest req \<Rightarrow>
          (case req of
             None \<Rightarrow> ret (Some ''ProxyRequest blocks is nil'')
           | Some blocks \<Rightarrow>
               bnd (getLatestPublicKeyMap E) (\<lambda>memberMap.
               seqp (each (\<lambda>key.
                 bnd (gets (\<lambda>s. peerNodeMap (proxyStorage s) key)) (\<lambda>entry.
                 case entry of
                   None \<Rightarrow> ret ()
                 | Some peer \<Rightarrow>
                     bnd (PublicString (env_ServerIdentity env)) (\<lambda>a.
                     bnd (PublicString peer) (\<lambda>b.
                     if a = b then ret ()
                     else bnd (SendRaw E peer (SignatureRequest blocks)) (\<lambda>err. ret ())))))
                 (key_order E (dom memberMap)))
               (ret None)))
      | _ \<Rightarrow> ret (Some (cast_error E (env_ServerIdentity env) ''ProxyRequest'')))"

definition CreateGenesisBlock :: "('k, 'v) node_env \<Rightarrow> ('k, NewLeaderHelloBlock result) node" where
  "CreateGenesisBlock E = with_chain (
     bnd (on_db (GetLatest (store E))) (\<lambda>latest.
     if latest \<noteq> None then ret (Inl ''you have already joined blockchain'')
     else
       let genesisBlock = genesis_block E in
       seqp (bnd (on_db (Store (store E) (Some genesisBlock))) (\<lambda>_. ret ()))
       (seqp (on_db (UpdateLatest (Some genesisBlock)))
       (seqp (BroadcastBlock E (PHello genesisBlock) NewLeaderHello)
       (seqp (spawn (StartTimer genesisBlock)) (ret (Inr genesisBlock)))))))"

section \<open>Who is a member\<close>

text \<open>
  The stored chain under the hash \<open>prev\<close>: \<open>bs\<close> are the blocks found by following \<open>PrevBlock\<close>, down
  to a hash that is not in the bucket.
\<close>

primrec linked :: "('k, 'v) node_env \<Rightarrow> 'k Service \<Rightarrow> NewLeaderHelloBlock list \<Rightarrow> slice \<Rightarrow> bool" where
  "linked E s [] prev \<longleftrightarrow> (\<exists>k. bucket (db s) = Some k \<and> bucket_get (store E) k (slice_bytes prev) = None)"
| "linked E s (b # bs) prev \<longleftrightarrow> stored (store E) (db s) (slice_bytes prev) b \<and> linked E s bs (hb_PrevBlock b)"

lemma linked_ticked [simp]: "linked E (ticked s) bs prev = linked E s bs prev"
  by (induction bs arbitrary: prev) simp_all

lemma GetByID_missing:
  assumes "bucket (db s) = Some k" "bucket_get (store E) k h = None"
  shows "on_db (GetByID (store E) (Some h)) s = Returns None s"
  using assms by (simp add: GetByID_def getFromTx_def prog_simps)

text \<open>A block in memory that stands for the stored block \<open>b\<close>.\<close>

definition copy_of :: "NewLeaderHelloBlock \<Rightarrow> NewLeaderHelloBlock \<Rightarrow> bool" where
  "copy_of c b \<longleftrightarrow> same_block c b \<and> hb_PrevBlock c = Some (slice_bytes (hb_PrevBlock b)) \<and>
     hb_Hash c = Some (slice_bytes (hb_Hash b)) \<and> (hello_ok c \<longleftrightarrow> \<not> signed_order b) \<and>
     (signed_order c \<longleftrightarrow> signed_order b) \<and> full c"

lemma GetByID_copy:
  assumes "stored (store E) (db s) h b"
  obtains c where "on_db (GetByID (store E) (Some h)) s = Returns (Some c) (ticked s)" "copy_of c b"
  using GetByID_stored [OF assms] by (auto simp: prog_simps ticked_def fresh_copy_def copy_of_def)

lemma GetLatest_copy:
  assumes "tip E s b"
  obtains c where "on_db (GetLatest (store E)) s = Returns (Some c) (ticked s)" "copy_of c b" "hb_Block c \<noteq> None"
  using GetLatest_stored [of "db s" "slice_bytes (hb_Hash b)" "store E" b] assms
  by (auto simp: tip_def prog_simps ticked_def fresh_copy_def copy_of_def)

lemma member_walk_linked:
  assumes "si_Public (self E) = Some me" "copy_of c b" "linked E s bs (hb_PrevBlock b)"
  shows "\<exists>s'. member_walk E n (Some c) s = Returns (me \<in> hb_PublicKey ` set (take n (b # bs))) s' \<and>
    s'\<lparr>db := db s\<rparr> = s"
  using assms(2,3)
proof (induction n arbitrary: c b bs s)
  case 0
  then show ?case by (simp add: prog_simps)
next
  case (Suc n)
  have key: "hb_PublicKey c = hb_PublicKey b" and prev: "hb_PrevBlock c = Some (slice_bytes (hb_PrevBlock b))"
    using Suc.prems(1) by (simp_all add: copy_of_def same_block_def)
  show ?case
  proof (cases "hb_PublicKey b = me")
    case True
    then show ?thesis by (simp add: prog_eval publicKey_eval assms(1) key)
  next
    case other: False
    show ?thesis
    proof (cases bs)
      case Nil
      then obtain k where "bucket (db s) = Some k" "bucket_get (store E) k (slice_bytes (hb_PrevBlock b)) = None"
        using Suc.prems(2) by auto
      from GetByID_missing [of s k E, OF this]
      have "member_walk E (Suc n) (Some c) s = Returns False s"
        using other by (cases n) (simp_all add: prog_eval publicKey_eval assms(1) key prev)
      with other Nil show ?thesis by auto
    next
      case (Cons b' bs')
      then have st: "stored (store E) (db s) (slice_bytes (hb_PrevBlock b)) b'" "linked E s bs' (hb_PrevBlock b')"
        using Suc.prems(2) by auto
      from st(1) obtain c' where
        c': "on_db (GetByID (store E) (Some (slice_bytes (hb_PrevBlock b)))) s = Returns (Some c') (ticked s)" "copy_of c' b'"
        by (rule GetByID_copy)
      from st(2) have "linked E (ticked s) bs' (hb_PrevBlock b')" by simp
      from Suc.IH [OF c'(2) this] obtain s' where
        "member_walk E n (Some c') (ticked s) = Returns (me \<in> hb_PublicKey ` set (take n (b' # bs'))) s'"
        "s'\<lparr>db := db (ticked s)\<rparr> = ticked s" by blast
      then show ?thesis
        using other Cons c'(1)
        by (intro exI [of _ s']) (auto simp: prog_eval publicKey_eval assms(1) key prev ticked_def
            dest: arg_cong [of _ _ "\<lambda>t. t\<lparr>db := db s\<rparr>"])
    qed
  qed
qed

lemma isBFTMember_linked:
  assumes "si_Public (self E) = Some me" "tip E s b" "linked E s bs (hb_PrevBlock b)"
  shows "\<exists>s'. isBFTMember E s = Returns (me \<in> hb_PublicKey ` set (take 11 (b # bs))) s' \<and> s'\<lparr>db := db s\<rparr> = s"
proof -
  obtain c where c: "on_db (GetLatest (store E)) s = Returns (Some c) (ticked s)" "copy_of c b"
    using assms(2) by (rule GetLatest_copy)
  have "linked E (ticked s) bs (hb_PrevBlock b)" using assms(3) by simp
  from member_walk_linked [OF assms(1) c(2) this, of COSI_MEMBERS] obtain s' where
    "member_walk E COSI_MEMBERS (Some c) (ticked s) = Returns (me \<in> hb_PublicKey ` set (take COSI_MEMBERS (b # bs))) s'"
    "s'\<lparr>db := db (ticked s)\<rparr> = ticked s" by blast
  with c(1) show ?thesis
    by (intro exI [of _ s']) (auto simp: isBFTMember_def prog_eval COSI_MEMBERS_def ticked_def
        dest: arg_cong [of _ _ "\<lambda>t. t\<lparr>db := db s\<rparr>"])
qed

text \<open>
  C32: Who belongs to the group. On a chain whose stored blocks, from the latest one down along
  \<open>PrevBlock\<close>, are \<open>b # bs\<close>, \<open>isBFTMember\<close> is true exactly if one of the first eleven was made by
  this node's key; apart from reading the clock it changes nothing.
\<close>

theorem isBFTMember_spec:
  assumes "si_Public (self E) = Some me" "tip E s b" "linked E s bs (hb_PrevBlock b)"
  shows "\<exists>s'. isBFTMember E s = Returns (me \<in> hb_PublicKey ` set (take 11 (b # bs))) s' \<and> s'\<lparr>db := db s\<rparr> = s"
  using assms by (rule isBFTMember_linked)

lemma member_keys_const:
  assumes "copy_of c b" "linked E s bs (hb_PrevBlock b)"
  shows "\<exists>s'. member_keys E (Suc n) c m s = Returns (m(hb_PublicKey b \<mapsto> True)) s'"
  using assms(2)
proof (induction n arbitrary: m s)
  case 0
  have key: "hb_PublicKey c = hb_PublicKey b" and prev: "hb_PrevBlock c = Some (slice_bytes (hb_PrevBlock b))"
    using assms(1) by (simp_all add: copy_of_def same_block_def)
  have "\<exists>r s'. on_db (GetByID (store E) (Some (slice_bytes (hb_PrevBlock b)))) s = Returns r s'"
    using 0 GetByID_missing [of s _ E] GetByID_copy [of E s] by (cases bs) (auto, metis)
  then show ?case by (auto simp: prog_eval Let_def key prev fun_upd_def)
next
  case (Suc n)
  have key: "hb_PublicKey c = hb_PublicKey b" and prev: "hb_PrevBlock c = Some (slice_bytes (hb_PrevBlock b))"
    using assms(1) by (simp_all add: copy_of_def same_block_def)
  show ?case
  proof (cases bs)
    case Nil
    with Suc.prems GetByID_missing [of s _ E] show ?thesis
      by (auto simp: prog_eval Let_def key prev fun_upd_def)
  next
    case (Cons b' bs')
    with Suc.prems have "stored (store E) (db s) (slice_bytes (hb_PrevBlock b)) b'" by simp
    then obtain c' where c': "on_db (GetByID (store E) (Some (slice_bytes (hb_PrevBlock b)))) s = Returns (Some c') (ticked s)"
      by (rule GetByID_copy)
    from Suc.prems have "linked E (ticked s) bs (hb_PrevBlock b)" by simp
    from Suc.IH [OF this, of "m(hb_PublicKey b \<mapsto> True)"]
    have rest: "\<exists>s'. member_keys E (Suc n) c (m(hb_PublicKey b \<mapsto> True)) (ticked s) = Returns (m(hb_PublicKey b \<mapsto> True)) s'"
      by (simp only: fun_upd_upd)
    have "member_keys E (Suc (Suc n)) c m s =
       (if slice_bytes (hb_PrevBlock b) = [] then Returns (m(hb_PublicKey b \<mapsto> True)) s
        else member_keys E (Suc n) c (m(hb_PublicKey b \<mapsto> True)) (ticked s))"
      using c' by (subst member_keys.simps(2))
        (simp add: prog_eval Let_def key prev del: member_keys.simps fun_upd_apply)
    with rest show ?thesis by metis
  qed
qed

text \<open>
  C33: What the gateways take for the group. \<open>getLatestPublicKeyMap\<close> is meant to collect the makers of
  the last eleven blocks, but the variable it walks with is shadowed: on any stored chain with an
  unsigned latest block it returns the maker of the latest block alone. If the latest block has
  a signed elected block, copying it panics.
\<close>

theorem getLatestPublicKeyMap_latest_only:
  assumes "tip E s b" "linked E s bs (hb_PrevBlock b)"
  shows "if signed_order b then \<exists>s'. getLatestPublicKeyMap E s = Panics NilDereference s'
    else \<exists>s'. getLatestPublicKeyMap E s = Returns [hb_PublicKey b \<mapsto> True] s'"
proof -
  obtain c where c: "on_db (GetLatest (store E)) s = Returns (Some c) (ticked s)" "copy_of c b"
    using assms(1) by (rule GetLatest_copy)
  show ?thesis
  proof (cases "signed_order b")
    case True
    then have "\<not> hello_ok c" using c(2) by (simp add: copy_of_def)
    then have "on_db (copy_hello (store E) c) (ticked s) = Panics NilDereference (ticked (ticked s))"
      by (rule copy_hello_on_db(2))
    with c(1) True show ?thesis by (simp add: getLatestPublicKeyMap_def prog_eval)
  next
    case False
    then have "hello_ok c" using c(2) by (simp add: copy_of_def)
    from Hello_Copy_same [OF this, of "newCollection (store E)" "time_at (store E) (clock_reads (db (ticked s)))" "tick (db (ticked s))"]
    obtain d where d: "on_db (copy_hello (store E) c) (ticked s) = Returns d (ticked (ticked s))"
        "same_block d c" "hb_PrevBlock d = fresh_copy (hb_PrevBlock c)" "hb_Hash d = fresh_copy (hb_Hash c)"
        "hello_ok d \<longleftrightarrow> \<not> signed_order c" "signed_order d \<longleftrightarrow> signed_order c" "full d \<longleftrightarrow> full c"
      by (auto simp: copy_hello_def prog_simps ticked_def)
    then have "copy_of d b" using c(2) False by (auto simp: copy_of_def same_block_def fresh_copy_def)
    moreover have "linked E (ticked (ticked s)) bs (hb_PrevBlock b)" using assms(2) by simp
    ultimately obtain s' where "member_keys E (Suc 10) d Map.empty (ticked (ticked s)) = Returns [hb_PublicKey b \<mapsto> True] s'"
      using member_keys_const [of d b E "ticked (ticked s)" bs 10 Map.empty] by auto
    moreover have "COSI_MEMBERS = Suc 10" by (simp add: COSI_MEMBERS_def)
    ultimately show ?thesis using c(1) d(1) False
      by (simp add: getLatestPublicKeyMap_def prog_eval del: member_keys.simps)
  qed
qed

lemma tip_node_linked: "linked sample_env tip_node [] (hb_PrevBlock (sample_hello []))"
  by (simp add: tip_node_def sample_env_def mem_env_def mem_db_def NewBlockDB_def sample_hello_def)

lemma isBFTMember_spec_witness:
  "\<exists>s'. isBFTMember sample_env tip_node = Returns False s'"
proof -
  have me: "si_Public (self sample_env) = Some ''me''" by (simp add: sample_env_def sample_peer_def)
  have "hb_PublicKey (sample_hello []) = ''key''" by (simp add: sample_hello_def)
  with isBFTMember_spec [OF me tip_node_tip tip_node_linked] show ?thesis by auto
qed

lemma getLatestPublicKeyMap_latest_only_witness:
  "\<exists>s'. getLatestPublicKeyMap sample_env tip_node = Returns [''key'' \<mapsto> True] s'"
proof -
  have "\<not> signed_order (sample_hello [])" "hb_PublicKey (sample_hello []) = ''key''"
    by (simp_all add: signed_order_def sample_hello_def NewDeForkBlock_def)
  with getLatestPublicKeyMap_latest_only [OF tip_node_tip tip_node_linked] show ?thesis by simp
qed

section \<open>The estimate of the network delay\<close>

lemma on_clock_Clock: "on_clock Clock s \<noteq> Returns d s'"
  by (simp add: on_eval' Clock_blocks)

lemma calcDelta_no_value: "calcDelta E s \<noteq> Returns (Inr d) s'"
  by (auto simp: on_clock_Clock calcDelta_def prog_eval Let_def deref_def
      split: outcome.splits sum.splits option.splits if_splits)

lemma calcDelta_short_chain:
  assumes a: "tip E s b" "pc_Size (privateClock s) = 11" "blockIndexMap (db s) (hb_Index b - 11) = None"
  shows "calcDelta E s = Returns (Inl ''no block found'') (ticked s)"
proof -
  obtain c where c: "on_db (GetLatest (store E)) s = Returns (Some c) (ticked s)" "copy_of c b"
    using a(1) by (blast intro: GetLatest_copy)
  have index: "hb_Index c = hb_Index b" using c(2) by (simp add: copy_of_def same_block_def)
  have "on_db (BlockStore.GetBlockByIndex (store E) (hb_Index b - 11)) (ticked s) = Returns (Inl ''no block found'') (ticked s)"
    using a by (simp add: BlockStore.GetBlockByIndex_def prog_simps ticked_def)
  moreover have "\<not> hb_Index b - 11 < 0" by simp
  ultimately show ?thesis
    using a c(1) index by (simp add: calcDelta_def prog_eval Let_def ticked_def del: word_not_simps)
qed

text \<open>
  No delay is ever estimated. Whatever the state, \<open>calcDelta\<close> returns no value: when it gets as
  far as the private clock it blocks on the clock's mutex. And as \<open>preIndex\<close> is unsigned, on a chain
  lower than the window it wraps round: if that index is not in the map, the result is the error
  of \<open>GetBlockByIndex\<close>.
\<close>

theorem calcDelta_fails:
  "(\<forall>d s'. calcDelta E s \<noteq> Returns (Inr d) s') \<and>
   (tip E s b \<and> pc_Size (privateClock s) = 11 \<and> blockIndexMap (db s) (hb_Index b - 11) = None \<longrightarrow>
     calcDelta E s = Returns (Inl ''no block found'') (ticked s))"
  using calcDelta_no_value calcDelta_short_chain by blast

lemma calcDelta_fails_witness:
  "calcDelta sample_env tip_node = Returns (Inl ''no block found'') (ticked tip_node)"
proof -
  have "pc_Size (privateClock tip_node) = 11"
    by (simp add: tip_node_def new_node_def fresh_service_def newPrivateClock_def COSI_MEMBERS_def)
  moreover have "blockIndexMap (db tip_node) (hb_Index (sample_hello []) - 11) = None"
    by (simp add: tip_node_def sample_hello_def mem_db_def NewBlockDB_def)
  ultimately show ?thesis
    using calcDelta_fails [of sample_env tip_node "sample_hello []"] tip_node_tip by blast
qed

section \<open>The leader's block\<close>

text \<open>The storage takes every block whose hash is a key that bbolt accepts.\<close>

definition fits :: "bytes \<Rightarrow> bool" where
  "fits h \<longleftrightarrow> h \<noteq> [] \<and> length h \<le> 32768"

lemma fits_go_copy [simp]: "fits (go_copy h h') \<longleftrightarrow> fits h"
  by (metis fits_def length_0_conv length_go_copy)

definition writable :: "('k, 'v) db_env \<Rightarrow> bool" where
  "writable E \<longleftrightarrow> (\<forall>b d. bucket d \<noteq> None \<longrightarrow> fits (slice_bytes (hb_Hash b)) \<longrightarrow>
     (\<exists>ids d'. StoreBlocks E [Some b] d = Returns (ids, None) d'))"

lemma accept_on_db:
  assumes "storage (store E)" "writable (store E)" "bucket (db s) \<noteq> None" "\<not> latestMutex (db s)"
    and "hello_ok b" "hb_Hash b = Some h" "fits h"
  obtains s' where "seqp (bnd (on_db (Store (store E) (Some b))) (\<lambda>_. ret ())) (on_db (UpdateLatest (Some b))) s = Returns () s'"
    "tip E s' b" "s'\<lparr>db := db s\<rparr> = s" "blockIndexMap (db s') = (blockIndexMap (db s))(hb_Index b \<mapsto> Some h)"
proof -
  obtain ids d' where d': "StoreBlocks (store E) [Some b] (db s) = Returns (ids, None) d'"
    using assms(2,3,6,7) unfolding writable_def by fastforce
  note st = storage.Store_stored [OF assms(1) d' assms(3)]
  have block: "hb_Block b \<noteq> None" using assms(5) by (auto simp: hello_ok_copyable)
  obtain k' where k': "d' = (db s)\<lparr>bucket := Some k'\<rparr>" using st(4) [OF block] by blast
  let ?s' = "s\<lparr>db := indexed d' b\<rparr>"
  have "seqp (bnd (on_db (Store (store E) (Some b))) (\<lambda>_. ret ())) (on_db (UpdateLatest (Some b))) s = Returns () ?s'"
    using d' k' assms(4) by (simp add: prog_simps Store_def UpdateLatest_eval)
  moreover have "tip E ?s' b"
    using st(1) block k' assms(4,6) by (simp add: tip_def)
  moreover have "blockIndexMap (db ?s') = (blockIndexMap (db s))(hb_Index b \<mapsto> Some h)"
    using k' assms(6) by simp
  ultimately show thesis using that by simp
qed

lemma accept_then: "seqp p (seqp q r) = seqp (seqp p q) r"
  by (rule ext) (simp add: prog_eval(3) split: outcome.split)

lemma leaderReady_makes:
  assumes "storage (store E)" "writable (store E)" "tip E s b" "\<not> signed_order b"
    and "copy_of l b" "list_all copyable (df_OrderBlocks block)" "fits (slice_bytes (hb_Hash b))"
  obtains new s' where "leaderReady E l key block s = Returns () s'" "tip E s' new"
    "hb_Index new = hb_Index b + 1" "hb_PublicKey new = key" "hb_Block new = Some block"
    "slice_bytes (hb_PrevBlock new) = go_copy (slice_bytes (hb_PrevBlock b)) (slice_bytes (hb_Hash b))"
    "length (slice_bytes (hb_Hash b)) = 32 \<Longrightarrow> Hello_CalculateHash new = Inr (slice_bytes (hb_Hash new))"
    "outbox s' = outbox s @ map (\<lambda>p. (p, BlockMessage NewLeaderHello (Some (PHello new))))
      (peer_list E (peerNodeMap (peerStorage s)))"
    "spawned s' = spawned s @ [StartTimer new]"
proof -
  have "hello_ok l" using assms(4,5) by (simp add: copy_of_def)
  from Hello_Copy_same [OF this, of "newCollection (store E)" "time_at (store E) (clock_reads (db s))" "tick (db s)"]
  obtain t where t: "on_db (copy_hello (store E) l) s = Returns t (ticked s)" "same_block t l"
      "hb_PrevBlock t = fresh_copy (hb_PrevBlock l)" "hb_Hash t = fresh_copy (hb_Hash l)"
    by (auto simp: copy_hello_def prog_simps ticked_def)
  let ?prev = "slice_bytes (hb_PrevBlock b)" and ?hash = "slice_bytes (hb_Hash b)"
  define now where "now = time_at (store E) (clock_reads (db (ticked s)))"
  define u where "u = t\<lparr>hb_Index := hb_Index t + 1, hb_Timestamp := now,
     hb_PrevBlock := slice_copy (hb_PrevBlock t) (hb_Hash t), hb_PublicKey := key, hb_Block := Some block\<rparr>"
  define h where "h = sha256 (hello_preimage u)"
  define new where "new = u\<lparr>hb_Hash := slice_copy (hb_Hash u) (Some h)\<rparr>"
  have slices: "hb_PrevBlock t = Some ?prev" "hb_Hash t = Some ?hash" "hb_Index t = hb_Index b"
    using t assms(5) by (simp_all add: copy_of_def same_block_def fresh_copy_def)
  have prev: "hb_PrevBlock new = Some (go_copy ?prev ?hash)" and newhash: "hb_Hash new = Some (go_copy ?hash h)"
    by (simp_all add: new_def u_def slices slice_copy_def)
  have ok: "hello_ok new" using assms(6) by (simp add: new_def u_def hello_ok_copyable)
  have ne: "fits (go_copy ?hash h)" using assms(7) by simp
  let ?s2 = "ticked (ticked s)"
  have db2: "bucket (db ?s2) \<noteq> None" "\<not> latestMutex (db ?s2)"
    using assms(3) by (auto simp: tip_def stored_def)
  obtain s3 where s3: "seqp (bnd (on_db (Store (store E) (Some new))) (\<lambda>_. ret ())) (on_db (UpdateLatest (Some new))) ?s2 = Returns () s3"
      "tip E s3 new" "s3\<lparr>db := db ?s2\<rparr> = ?s2"
    using accept_on_db [OF assms(1,2) db2 ok newhash ne] by metis
  have frame: "outbox s3 = outbox s" "peerStorage s3 = peerStorage s" "spawned s3 = spawned s"
    using arg_cong [OF s3(3), of outbox] arg_cong [OF s3(3), of peerStorage] arg_cong [OF s3(3), of spawned]
    by (simp_all add: ticked_def)
  let ?s' = "(sent (peer_list E (peerNodeMap (peerStorage s))) (BlockMessage NewLeaderHello (Some (PHello new))) s3)
    \<lparr>spawned := spawned s @ [StartTimer new]\<rparr>"
  have clock: "read_clock E (ticked s) = Returns now ?s2"
    by (simp add: read_clock_def prog_simps now_def ticked_def)
  have "seqp (bnd (on_db (Store (store E) (Some new))) (\<lambda>_. ret ())) (seqp (on_db (UpdateLatest (Some new)))
      (seqp (BroadcastBlock E (PHello new) NewLeaderHello) (spawn (StartTimer new)))) ?s2 = Returns () ?s'"
    using s3(1) by (simp add: accept_then prog_eval(2,3) broadcast_eval spawn_eval frame) (simp add: sent_def frame)
  then have "leaderReady E l key block s = Returns () ?s'"
    by (simp only: leaderReady_def prog_eval(2) t(1) clock outcome.case Let_def u_def [symmetric]
        Hello_CalculateHash_eq h_def [symmetric] sum.case new_def [symmetric])
  moreover have "tip E ?s' new" using s3(2) by (simp add: tip_def sent_def)
  moreover have "Hello_CalculateHash new = Inr (slice_bytes (hb_Hash new))" if "length ?hash = 32"
  proof -
    have "hello_preimage new = hello_preimage u" by (simp add: new_def hello_preimage_def)
    moreover have "length h = length ?hash" using that by (simp add: h_def length_sha256)
    ultimately show ?thesis by (simp add: Hello_CalculateHash_eq newhash go_copy_same_length h_def)
  qed
  ultimately show thesis
    by (intro that [of ?s' new]) (simp_all add: prev sent_def frame, simp_all add: new_def u_def slices)
qed

text \<open>
  C14: The block a leader makes. From an unsigned latest block \<open>b\<close> and a de-fork block whose blocks can
  be copied, \<open>startNewLeaderHelloBlock\<close> makes and stores the block of the next height, with the
  leader's key and the de-fork block, as the new latest block, broadcasts it, and starts the next
  timer. Previous hash and hash are written over the old ones in place: if both have the same
  length the previous hash is the hash of \<open>b\<close>, and if \<open>b\<close> has a 32-byte hash the new hash is
  the block's \<open>CalculateHash\<close>; but after a block with an empty \<open>PrevBlock\<close> (a genesis block)
  it stays empty.
\<close>

theorem leader_makes_block:
  assumes "storage (store E)" "writable (store E)" "tip E s b" "\<not> signed_order b"
    and "copy_of l b" "list_all copyable (df_OrderBlocks block)" "fits (slice_bytes (hb_Hash b))"
  shows "\<exists>new s'. leaderReady E l key block s = Returns () s' \<and> tip E s' new \<and>
    hb_Index new = hb_Index b + 1 \<and> hb_PublicKey new = key \<and> hb_Block new = Some block \<and>
    slice_bytes (hb_PrevBlock new) = go_copy (slice_bytes (hb_PrevBlock b)) (slice_bytes (hb_Hash b)) \<and>
    (length (slice_bytes (hb_PrevBlock b)) = length (slice_bytes (hb_Hash b)) \<longrightarrow>
       slice_bytes (hb_PrevBlock new) = slice_bytes (hb_Hash b)) \<and>
    (length (slice_bytes (hb_Hash b)) = 32 \<longrightarrow> Hello_CalculateHash new = Inr (slice_bytes (hb_Hash new))) \<and>
    outbox s' = outbox s @ map (\<lambda>p. (p, BlockMessage NewLeaderHello (Some (PHello new))))
      (peer_list E (peerNodeMap (peerStorage s))) \<and>
    spawned s' = spawned s @ [StartTimer new]"
  by (rule leaderReady_makes [OF assms, of key]) (metis go_copy_same_length)

lemma mem_writable: "writable mem_env"
  by (auto simp: writable_def fits_def StoreBlocks_def storeToTx_def prog_simps mem_env_def mem_put_def)

lemma sample_env_store: "store sample_env = mem_env"
  by (simp add: sample_env_def)

lemma leader_makes_block_witness:
  "\<exists>l s1 new s'. on_db (GetLatest (store sample_env)) tip_node = Returns (Some l) s1 \<and>
    leaderReady sample_env l ''me'' (NewDeForkBlock 9 [Some signed_once]) tip_node = Returns () s' \<and>
    tip sample_env s' new \<and> hb_Index new = 4 \<and> slice_bytes (hb_PrevBlock new) = [2] \<and> signed_order new"
proof -
  obtain l where l: "on_db (GetLatest (store sample_env)) tip_node = Returns (Some l) (ticked tip_node)"
      "copy_of l (sample_hello [])"
    using tip_node_tip by (rule GetLatest_copy)
  have 1: "storage (store sample_env)" "writable (store sample_env)"
    by (simp_all add: sample_env_store mem.storage_axioms mem_writable)
  have 2: "\<not> signed_order (sample_hello [])" "fits (slice_bytes (hb_Hash (sample_hello [])))"
    "hb_Index (sample_hello []) = 3"
    "slice_bytes (hb_PrevBlock (sample_hello [])) = [1]" "slice_bytes (hb_Hash (sample_hello [])) = [2]"
    by (simp_all add: signed_order_def sample_hello_def NewDeForkBlock_def fits_def)
  have 3: "list_all copyable (df_OrderBlocks (NewDeForkBlock 9 [Some signed_once]))"
    by (simp add: NewDeForkBlock_def copyable_def signed_once_def signatures_ok_def)
  from leader_makes_block [OF 1 tip_node_tip 2(1) l(2) 3 2(2), of "''me''"] obtain new s' where
    r: "leaderReady sample_env l ''me'' (NewDeForkBlock 9 [Some signed_once]) tip_node = Returns () s'"
      "tip sample_env s' new" "hb_Index new = hb_Index (sample_hello []) + 1"
      "hb_Block new = Some (NewDeForkBlock 9 [Some signed_once])"
      "slice_bytes (hb_PrevBlock new) = go_copy (slice_bytes (hb_PrevBlock (sample_hello []))) (slice_bytes (hb_Hash (sample_hello [])))"
    by blast
  have "signed_order new" by (simp add: signed_order_def r(4) NewDeForkBlock_def signed_def signed_once_def)
  with l(1) r 2 show ?thesis by (auto simp: go_copy_def)
qed

text \<open>
  The chain ends with its first signed block. If the latest block has a signed elected block,
  which is so after every \<open>startNewLeaderHelloBlock\<close> of a block that gathered signatures, then the
  \<open>latest\<close> that the next \<open>startNewLeaderHelloBlock\<close> fetches cannot be copied: making the next
  block panics, whatever the key, the elected blocks and the state by then.
\<close>

theorem no_block_after_signed:
  assumes "tip E s b" "signed_order b"
  shows "\<exists>c. on_db (GetLatest (store E)) s = Returns (Some c) (ticked s) \<and>
    (\<forall>key block t. leaderReady E c key block t = Panics NilDereference (ticked t))"
proof -
  obtain c where c: "on_db (GetLatest (store E)) s = Returns (Some c) (ticked s)" "copy_of c b"
    using assms(1) by (rule GetLatest_copy)
  have "\<not> hello_ok c" using c(2) assms(2) by (simp add: copy_of_def)
  then have "on_db (copy_hello (store E) c) t = Panics NilDereference (ticked t)" for t
    by (rule copy_hello_on_db(2))
  with c(1) show ?thesis by (simp add: leaderReady_def prog_eval)
qed

definition signed_node :: "(bytes \<times> Message) list Service" where
  "signed_node = new_node\<lparr>db := indexed (mem_db\<lparr>bucket := Some [([2], MsgHello signed_sample)]\<rparr>) signed_sample\<rparr>"

lemma signed_node_tip: "tip sample_env signed_node signed_sample" "signed_order signed_sample"
  by (simp_all add: tip_def signed_node_def stored_def full_def sample_env_def mem_env_def mem_db_def NewBlockDB_def hello_ok_def
      signed_sample_def sample_hello_def NewDeForkBlock_def signed_order_def signed_def signed_once_def signatures_ok_def)

lemma no_block_after_signed_witness:
  "\<exists>c. on_db (GetLatest (store sample_env)) signed_node = Returns (Some c) (ticked signed_node) \<and>
    leaderReady sample_env c ''me'' (NewDeForkBlock 0 []) signed_node = Panics NilDereference (ticked signed_node)"
  using no_block_after_signed [OF signed_node_tip] by blast

section \<open>Block messages\<close>

lemma Block_Copy_unsigned:
  "b_Collections b = [] \<Longrightarrow> Block_Copy mk (Some b) s =
     Returns (Some \<lparr>b_Header = Header_Copy (b_Header b), b_Hash = fresh_copy (b_Hash b), b_Collections = []\<rparr>) s"
  by (simp add: prog_simps signatures_ok_def signers_def)

lemma go_string_fresh [simp]: "go_string (fresh_copy h) = go_string h"
  by (simp add: go_string_def)

lemma candidate_buffered:
  assumes "si_Public (self E) = Some me" "timerRunning s" "\<not> Buffer_in (b_Hash b) (buffer s)" "b_Collections b = []"
  defines "c \<equiv> \<lparr>b_Header = Header_Copy (b_Header b), b_Hash = fresh_copy (b_Hash b),
    b_Collections = [Some (newCollection (store E) me)]\<rparr>"
  shows "handleBlockMessage E \<lparr>env_ServerIdentity = si, env_Msg = BlockMessage CandidateBlock (Some (PBlock b))\<rparr> s
    = Returns None (s\<lparr>buffer := (buffer s)\<lparr>blockMap := (blockMap (buffer s))(go_string (b_Hash b) \<mapsto> c)\<rparr>,
        spawned := spawned s @ [Broadcast (PBlock b) CandidateBlock]\<rparr>)"
  using assms by (simp add: handleBlockMessage_def handleCandidate_def prog_eval whenp_eval Block_Copy_unsigned
      publicKey_eval Block_Sign_eval signatures_ok_def signers_def on_eval spawn_eval Buffer_Put_def)

text \<open>
  C37: Candidates. A candidate block has no effect when no timer runs or the buffer has its hash.
  Otherwise an unsigned one is buffered under its hash, with the same \<open>CalculateHash\<close> and exactly
  this node's signature, and its broadcast is started; a signed one, as other members send it,
  makes the handler panic, because \<open>Sign\<close> meets the nil entries that \<open>Copy\<close> has made.
\<close>

theorem candidate_handling:
  assumes "si_Public (self E) = Some me"
  shows "(\<not> timerRunning s \<or> Buffer_in (b_Hash b) (buffer s) \<longrightarrow>
      handleBlockMessage E \<lparr>env_ServerIdentity = si, env_Msg = BlockMessage CandidateBlock (Some (PBlock b))\<rparr> s
        = Returns None s) \<and>
    (timerRunning s \<and> \<not> Buffer_in (b_Hash b) (buffer s) \<and> b_Collections b = [] \<longrightarrow>
      (\<exists>c. handleBlockMessage E \<lparr>env_ServerIdentity = si, env_Msg = BlockMessage CandidateBlock (Some (PBlock b))\<rparr> s
        = Returns None (s\<lparr>buffer := (buffer s)\<lparr>blockMap := (blockMap (buffer s))(go_string (b_Hash b) \<mapsto> c)\<rparr>,
            spawned := spawned s @ [Broadcast (PBlock b) CandidateBlock]\<rparr>) \<and>
       b_Collections c = [Some (newCollection (store E) me)] \<and> Block_CalculateHash c = Block_CalculateHash b)) \<and>
    (timerRunning s \<and> \<not> Buffer_in (b_Hash b) (buffer s) \<and> signatures_ok b \<and> b_Collections b \<noteq> [] \<longrightarrow>
      handleBlockMessage E \<lparr>env_ServerIdentity = si, env_Msg = BlockMessage CandidateBlock (Some (PBlock b))\<rparr> s
        = Panics NilDereference s)"
proof (intro conjI impI)
  assume "\<not> timerRunning s \<or> Buffer_in (b_Hash b) (buffer s)"
  then show "handleBlockMessage E \<lparr>env_ServerIdentity = si, env_Msg = BlockMessage CandidateBlock (Some (PBlock b))\<rparr> s
      = Returns None s"
    by (auto simp: handleBlockMessage_def handleCandidate_def prog_simps)
next
  assume a: "timerRunning s \<and> \<not> Buffer_in (b_Hash b) (buffer s) \<and> b_Collections b = []"
  let ?c = "\<lparr>b_Header = Header_Copy (b_Header b), b_Hash = fresh_copy (b_Hash b),
    b_Collections = [Some (newCollection (store E) me)]\<rparr>"
  have "Block_CalculateHash ?c = Block_CalculateHash b"
    by (simp add: Block_CalculateHash_eq block_preimage_def Let_def Header_Copy_def)
  with a assms show "\<exists>c. handleBlockMessage E
      \<lparr>env_ServerIdentity = si, env_Msg = BlockMessage CandidateBlock (Some (PBlock b))\<rparr> s
        = Returns None (s\<lparr>buffer := (buffer s)\<lparr>blockMap := (blockMap (buffer s))(go_string (b_Hash b) \<mapsto> c)\<rparr>,
            spawned := spawned s @ [Broadcast (PBlock b) CandidateBlock]\<rparr>) \<and>
       b_Collections c = [Some (newCollection (store E) me)] \<and> Block_CalculateHash c = Block_CalculateHash b"
    using candidate_buffered [of E me s b si] by (intro exI [of _ ?c]) simp
next
  assume a: "timerRunning s \<and> \<not> Buffer_in (b_Hash b) (buffer s) \<and> signatures_ok b \<and> b_Collections b \<noteq> []"
  then obtain c cs where cs: "b_Collections b = c # cs" by (cases "b_Collections b") auto
  with a assms show "handleBlockMessage E
      \<lparr>env_ServerIdentity = si, env_Msg = BlockMessage CandidateBlock (Some (PBlock b))\<rparr> s = Panics NilDereference s"
    by (simp add: handleBlockMessage_def handleCandidate_def prog_simps Block_Sign_nil_first)
qed

lemma candidate_handling_witness:
  "handleBlockMessage sample_env
      \<lparr>env_ServerIdentity = sample_peer ''a'', env_Msg = BlockMessage CandidateBlock (Some (PBlock signed_once))\<rparr>
      (new_node\<lparr>timerRunning := True\<rparr>)
    = Panics NilDereference (new_node\<lparr>timerRunning := True\<rparr>)"
proof -
  have "si_Public (self sample_env) = Some ''me''" by (simp add: sample_env_def sample_peer_def)
  moreover have "\<not> Buffer_in (b_Hash signed_once) (buffer (new_node\<lparr>timerRunning := True\<rparr>))"
    by (simp add: Buffer_in_def new_node_def fresh_service_def newBlockBuffer_def)
  moreover have "signatures_ok signed_once" "b_Collections signed_once \<noteq> []"
    by (simp_all add: signed_once_def signatures_ok_def)
  ultimately show ?thesis
    using candidate_handling [of sample_env "''me''" "new_node\<lparr>timerRunning := True\<rparr>" signed_once] by simp
qed

end
