(* ===== verification/Acceptance.thy ===== *)
theory Acceptance
  imports Consensus
begin

text \<open>
  What a node takes in: the lemmas on the genesis block, on the leader's blocks and de-fork
  blocks of block messages, on the template of the miner, and on the responses nobody reads.
  The handlers themselves are in Consensus.
\<close>

section \<open>The genesis block\<close>

lemma GetLatest_empty:
  "\<not> latestMutex (db s) \<Longrightarrow> latestBlockID (db s) = None \<Longrightarrow> on_db (GetLatest (store E)) s = Returns None s"
  by (simp add: prog_simps GetLatest_none)

lemma CreateGenesis_accepted:
  assumes "storage (store E)" "writable (store E)" "bucket (db s) \<noteq> None" "\<not> latestMutex (db s)"
    and "latestBlockID (db s) = None" "\<not> createBlockChainMutex s"
    and "hello_ok (genesis_block E)" "hb_Hash (genesis_block E) = Some h" "fits h"
  obtains s1 where "CreateGenesisBlock E s = Returns (Inr (genesis_block E)) s1" "tip E s1 (genesis_block E)"
    "outbox s1 = outbox s @ map (\<lambda>p. (p, BlockMessage NewLeaderHello (Some (PHello (genesis_block E)))))
      (peer_list E (peerNodeMap (peerStorage s)))"
    "spawned s1 = spawned s @ [StartTimer (genesis_block E)]" "\<not> createBlockChainMutex s1"
    "timerRunning s1 = timerRunning s" "buffer s1 = buffer s" "the_miner s1 = the_miner s"
proof -
  let ?g = "genesis_block E" and ?s = "put_chain_locked True s"
  obtain s2 where s2: "seqp (bnd (on_db (Store (store E) (Some ?g))) (\<lambda>_. ret ())) (on_db (UpdateLatest (Some ?g))) ?s = Returns () s2"
      "tip E s2 ?g" "s2\<lparr>db := db ?s\<rparr> = ?s"
    using accept_on_db [OF assms(1,2) _ _ assms(7,8,9), of ?s] assms(3,4) by auto
  have frame: "outbox s2 = outbox s" "peerStorage s2 = peerStorage s" "spawned s2 = spawned s" "createBlockChainMutex s2"
    "timerRunning s2 = timerRunning s" "buffer s2 = buffer s" "the_miner s2 = the_miner s"
    using arg_cong [OF s2(3), of outbox] arg_cong [OF s2(3), of peerStorage] arg_cong [OF s2(3), of spawned]
      arg_cong [OF s2(3), of createBlockChainMutex] arg_cong [OF s2(3), of timerRunning]
      arg_cong [OF s2(3), of buffer] arg_cong [OF s2(3), of the_miner] by simp_all
  let ?s1 = "(sent (peer_list E (peerNodeMap (peerStorage s))) (BlockMessage NewLeaderHello (Some (PHello ?g))) s2)
    \<lparr>spawned := spawned s @ [StartTimer ?g], createBlockChainMutex := False\<rparr>"
  have latest: "on_db (GetLatest (store E)) ?s = Returns None ?s" by (rule GetLatest_empty) (use assms(4,5) in simp_all)
  have "CreateGenesisBlock E s = Returns (Inr ?g) ?s1"
    using assms(6) latest s2(1)
    by (simp add: CreateGenesisBlock_def with_chain_def lock_eval prog_eval(2) Let_def accept_then)
      (simp add: prog_eval broadcast_eval spawn_eval frame sent_def)
  moreover have "tip E ?s1 ?g" using s2(2) by (simp add: tip_def sent_def)
  ultimately show thesis by (rule that) (simp_all add: sent_def frame)
qed

lemma GenesisBlock_again:
  assumes "tip E s b" "\<not> createBlockChainMutex s"
  shows "CreateGenesisBlock E s = Returns (Inl ''you have already joined blockchain'') (ticked s)"
proof -
  have "tip E (put_chain_locked True s) b" using assms(1) by (simp add: tip_def)
  then obtain c where "on_db (GetLatest (store E)) (put_chain_locked True s) = Returns (Some c) (ticked (put_chain_locked True s))"
    by (rule GetLatest_tip)
  with assms(2) show ?thesis by (simp add: CreateGenesisBlock_def with_chain_def lock_eval prog_eval ticked_def)
qed

text \<open>
  A chain is started once. On a node without a latest block, with both mutexes free,
  \<open>CreateGenesisBlock\<close> returns the genesis block, which is then stored as the latest block,
  broadcast to every peer and given a timer. A second call is refused and leaves the chain
  alone.
\<close>

theorem CreateGenesisBlock_once:
  assumes "storage (store E)" "writable (store E)" "bucket (db s) \<noteq> None" "\<not> latestMutex (db s)"
    and "latestBlockID (db s) = None" "\<not> createBlockChainMutex s"
    and "hello_ok (genesis_block E)" "hb_Hash (genesis_block E) = Some h" "fits h"
  shows "\<exists>s1. CreateGenesisBlock E s = Returns (Inr (genesis_block E)) s1 \<and> tip E s1 (genesis_block E) \<and>
    outbox s1 = outbox s @ map (\<lambda>p. (p, BlockMessage NewLeaderHello (Some (PHello (genesis_block E)))))
      (peer_list E (peerNodeMap (peerStorage s))) \<and>
    spawned s1 = spawned s @ [StartTimer (genesis_block E)] \<and>
    CreateGenesisBlock E s1 = Returns (Inl ''you have already joined blockchain'') (ticked s1)"
proof -
  let ?g = "genesis_block E"
  obtain s1 where s1: "CreateGenesisBlock E s = Returns (Inr ?g) s1" "tip E s1 ?g"
    "outbox s1 = outbox s @ map (\<lambda>p. (p, BlockMessage NewLeaderHello (Some (PHello ?g))))
      (peer_list E (peerNodeMap (peerStorage s)))"
    "spawned s1 = spawned s @ [StartTimer ?g]" "\<not> createBlockChainMutex s1"
    using assms by (rule CreateGenesis_accepted) blast
  have "CreateGenesisBlock E s1 = Returns (Inl ''you have already joined blockchain'') (ticked s1)"
    using s1(2,5) by (rule GenesisBlock_again)
  with s1 show ?thesis by blast
qed

lemma CreateGenesisBlock_once_witness:
  "\<exists>s1. CreateGenesisBlock sample_env new_node = Returns (Inr (sample_hello [])) s1 \<and>
    CreateGenesisBlock sample_env s1 = Returns (Inl ''you have already joined blockchain'') (ticked s1)"
proof -
  have g: "genesis_block sample_env = sample_hello []" by (simp add: sample_env_def)
  have 1: "storage (store sample_env)" "writable (store sample_env)"
    by (simp_all add: sample_env_store mem.storage_axioms mem_writable)
  have 2: "bucket (db new_node) \<noteq> None" "\<not> latestMutex (db new_node)" "latestBlockID (db new_node) = None"
    "\<not> createBlockChainMutex new_node"
    by (simp_all add: new_node_def fresh_service_def NewBlockDB_def)
  have 3: "hello_ok (genesis_block sample_env)" "hb_Hash (genesis_block sample_env) = Some [2]" "fits [2]"
    by (simp_all add: g sample_hello_def hello_ok_def NewDeForkBlock_def fits_def)
  from CreateGenesisBlock_once [OF 1 2 3] show ?thesis by (auto simp: g)
qed

section \<open>Leader blocks from other nodes\<close>

text \<open>The node has the block: under its hash, or under another hash at its height.\<close>

definition known_block :: "('k, 'v) node_env \<Rightarrow> 'k Service \<Rightarrow> NewLeaderHelloBlock \<Rightarrow> bool" where
  "known_block E s b \<longleftrightarrow> (\<exists>h. hb_Hash b = Some h \<and>
     ((\<exists>b'. stored (store E) (db s) h b') \<or>
      (\<exists>k. bucket (db s) = Some k \<and> bucket_get (store E) k h = None) \<and> (\<exists>b'. serves E s (hb_Index b) b')))"

definition new_block :: "('k, 'v) node_env \<Rightarrow> 'k Service \<Rightarrow> NewLeaderHelloBlock \<Rightarrow> bool" where
  "new_block E s b \<longleftrightarrow> (\<exists>h k. hb_Hash b = Some h \<and> fits h \<and> bucket (db s) = Some k \<and>
     bucket_get (store E) k h = None \<and> blockIndexMap (db s) (hb_Index b) = None)"

lemma handleHello_known:
  assumes "known_block E s b"
  shows "handleHello E b s = Returns () (ticked s)"
proof -
  obtain h where h: "hb_Hash b = Some h" using assms by (auto simp: known_block_def)
  show ?thesis
  proof (cases "\<exists>b'. stored (store E) (db s) h b'")
    case True
    then obtain b' c where "on_db (GetByID (store E) (Some h)) s = Returns (Some c) (ticked s)"
      by (metis GetByID_on_db)
    then show ?thesis by (simp add: handleHello_def prog_eval h)
  next
    case False
    then obtain k b' where k: "bucket (db s) = Some k" "bucket_get (store E) k h = None" "serves E s (hb_Index b) b'"
      using assms h by (auto simp: known_block_def)
    from k(3) obtain c where
      "on_db (BlockStore.GetBlockByIndex (store E) (hb_Index b)) s = Returns (Inr (Some c)) (ticked s)"
      by (rule GetBlockByIndex_served)
    with GetByID_missing [of s k E h, OF k(1,2)] show ?thesis by (simp add: handleHello_def prog_eval h)
  qed
qed

lemma known_run:
  assumes "known_block E s b"
  shows "handleBlockMessage E \<lparr>env_ServerIdentity = si, env_Msg = BlockMessage NewLeaderHello (Some (PHello b))\<rparr> s
    = Returns None (ticked (s\<lparr>deForkBlock := None\<rparr>))"
proof -
  have "known_block E (s\<lparr>deForkBlock := None\<rparr>) b"
    using assms by (simp add: known_block_def serves_def)
  from handleHello_known [OF this] show ?thesis
    by (simp add: handleBlockMessage_def block_types prog_eval)
qed

text \<open>
  The first block of a height wins. A leader's block whose hash is stored already, or whose
  height has another stored block, is dropped: apart from clearing the pending de-fork block
  (and reading the clock) the handler changes nothing, sends nothing and starts nothing. There
  is no comparison of competing blocks and no reorganisation.
\<close>

theorem hello_known_dropped:
  assumes "known_block E s b"
  shows "handleBlockMessage E \<lparr>env_ServerIdentity = si, env_Msg = BlockMessage NewLeaderHello (Some (PHello b))\<rparr> s
    = Returns None (ticked (s\<lparr>deForkBlock := None\<rparr>))"
  using assms by (rule known_run)

lemma hello_known_dropped_witness:
  "handleBlockMessage sample_env
      \<lparr>env_ServerIdentity = sample_peer ''a'',
       env_Msg = BlockMessage NewLeaderHello (Some (PHello ((sample_hello [''tls://fork:1''])\<lparr>hb_Hash := Some [7]\<rparr>)))\<rparr> tip_node
    = Returns None (ticked (tip_node\<lparr>deForkBlock := None\<rparr>))"
proof -
  have "stored (store sample_env) (db tip_node) [2] (sample_hello [])"
    using tip_node_tip by (simp add: tip_def sample_hello_def)
  then have "serves sample_env tip_node 3 (sample_hello [])"
    by (simp add: serves_def) (simp add: tip_node_def sample_hello_def)
  moreover have "bucket (db tip_node) = Some [([2], MsgHello (sample_hello []))]"
    by (simp add: tip_node_def)
  ultimately have "known_block sample_env tip_node ((sample_hello [''tls://fork:1''])\<lparr>hb_Hash := Some [7]\<rparr>)"
    by (auto simp: known_block_def sample_env_def mem_env_def) (auto simp: sample_hello_def)
  then show ?thesis by (rule hello_known_dropped)
qed

text \<open>
  C15: A new leader's block is taken on faith. A block with a fresh hash and a height that is not in
  the index is stored as the latest block, forwarded to all peers and given a timer, whatever its
  signatures, its previous block and its height: the node does not check that it extends the
  chain it has. The same message again is dropped.
\<close>

theorem hello_accepted:
  assumes "storage (store E)" "writable (store E)" "\<not> latestMutex (db s)" "hello_ok b" "new_block E s b"
  shows "\<exists>s1. handleBlockMessage E \<lparr>env_ServerIdentity = si, env_Msg = BlockMessage NewLeaderHello (Some (PHello b))\<rparr> s
      = Returns None s1 \<and> tip E s1 b \<and> deForkBlock s1 = None \<and> outbox s1 = outbox s \<and>
    spawned s1 = spawned s @ [Broadcast (PHello b) NewLeaderHello, StartTimer b] \<and>
    (\<forall>i. blockIndexMap (db s1) i = (if i = hb_Index b then Some (hb_Hash b) else blockIndexMap (db s) i)) \<and>
    handleBlockMessage E \<lparr>env_ServerIdentity = si', env_Msg = BlockMessage NewLeaderHello (Some (PHello b))\<rparr> s1
      = Returns None (ticked s1)"
proof -
  obtain h k where h: "hb_Hash b = Some h" "fits h" "bucket (db s) = Some k" "bucket_get (store E) k h = None"
      "blockIndexMap (db s) (hb_Index b) = None"
    using assms(5) by (auto simp: new_block_def)
  let ?s = "s\<lparr>deForkBlock := None\<rparr>"
  have byid: "on_db (GetByID (store E) (Some h)) ?s = Returns None ?s"
    by (rule GetByID_missing [of _ k]) (use h in simp_all)
  have byindex: "on_db (BlockStore.GetBlockByIndex (store E) (hb_Index b)) ?s = Returns (Inl ''no block found'') ?s"
    using h(5) by (simp add: BlockStore.GetBlockByIndex_def prog_simps)
  obtain s2 where s2: "seqp (bnd (on_db (Store (store E) (Some b))) (\<lambda>_. ret ())) (on_db (UpdateLatest (Some b))) ?s = Returns () s2"
      "tip E s2 b" "s2\<lparr>db := db ?s\<rparr> = ?s" "blockIndexMap (db s2) = (blockIndexMap (db ?s))(hb_Index b \<mapsto> Some h)"
    using accept_on_db [OF assms(1,2) _ _ assms(4) h(1,2), of ?s] assms(3) h(3) by auto
  have frame: "outbox s2 = outbox s" "spawned s2 = spawned s" "deForkBlock s2 = None"
    using arg_cong [OF s2(3), of outbox] arg_cong [OF s2(3), of spawned] arg_cong [OF s2(3), of deForkBlock] by simp_all
  let ?s1 = "s2\<lparr>spawned := spawned s @ [Broadcast (PHello b) NewLeaderHello, StartTimer b]\<rparr>"
  have "handleHello E b ?s = Returns () ?s1"
    using byid byindex s2(1)
    by (simp add: handleHello_def h(1) prog_eval(2) accept_then) (simp add: prog_eval spawn_eval frame)
  then have run: "handleBlockMessage E \<lparr>env_ServerIdentity = si, env_Msg = BlockMessage NewLeaderHello (Some (PHello b))\<rparr> s
      = Returns None ?s1"
    by (simp add: handleBlockMessage_def block_types prog_eval)
  have tip1: "tip E ?s1 b" using s2(2) by (simp add: tip_def)
  then have "known_block E ?s1 b" by (auto simp: known_block_def tip_def h(1))
  moreover have same: "?s1\<lparr>deForkBlock := None\<rparr> = ?s1" using frame(3) by (cases s2) simp
  ultimately have again: "handleBlockMessage E \<lparr>env_ServerIdentity = si', env_Msg = BlockMessage NewLeaderHello (Some (PHello b))\<rparr> ?s1
      = Returns None (ticked ?s1)"
    using known_run [of E ?s1 b si'] by (simp only: same)
  show ?thesis
    using run tip1 again by (intro exI [of _ ?s1]) (auto simp: frame s2(4) h(1))
qed

lemma hello_accepted_witness:
  "\<exists>s1. handleBlockMessage sample_env
      \<lparr>env_ServerIdentity = sample_peer ''a'', env_Msg = BlockMessage NewLeaderHello (Some (PHello (sample_hello [])))\<rparr> new_node
    = Returns None s1 \<and> tip sample_env s1 (sample_hello []) \<and>
    spawned s1 = [Broadcast (PHello (sample_hello [])) NewLeaderHello, StartTimer (sample_hello [])]"
proof -
  have 1: "storage (store sample_env)" "writable (store sample_env)"
    by (simp_all add: sample_env_store mem.storage_axioms mem_writable)
  have 2: "\<not> latestMutex (db new_node)" "hello_ok (sample_hello [])" "new_block sample_env new_node (sample_hello [])"
    and spawned: "spawned new_node = []"
    by (simp_all add: new_block_def fits_def new_node_def fresh_service_def NewBlockDB_def sample_env_def mem_env_def
        sample_hello_def hello_ok_def NewDeForkBlock_def)
  from hello_accepted [OF 1 2] spawned show ?thesis by fastforce
qed

section \<open>De-fork blocks from other nodes\<close>

lemma isLeader_tip:
  assumes "si_Public (self E) = Some me" "tip E s b" "elected b = Some es"
  shows "isLeader E s = Returns (es \<noteq> [] \<and> hd es = me) (ticked s)"
proof -
  obtain c where c: "on_db (GetLatest (store E)) s = Returns (Some c) (ticked s)" "copy_of c b" "hb_Block c \<noteq> None"
    using assms(2) by (rule GetLatest_copy)
  then obtain d where d: "hb_Block c = Some d" by auto
  have full: "full c" and es: "elected c = Some es" using c(2) assms(3) by (simp_all add: copy_of_def same_block_def)
  show ?thesis
  proof (cases es)
    case Nil
    with full es d have "df_OrderBlocks d = []"
      by (cases "df_OrderBlocks d"; cases "hd (df_OrderBlocks d)") (auto simp: full_def elected_def)
    with Nil show ?thesis using c(1) d by (simp add: isLeader_def prog_eval)
  next
    case (Cons k ks)
    obtain p ps where "df_OrderBlocks d = Some p # ps" "bh_PublicKey (b_Header p) = k"
      using full d es [unfolded Cons] by (rule full_first)
    with Cons show ?thesis using c(1) d assms(1) by (simp add: isLeader_def prog_eval publicKey_eval)
  qed
qed

text \<open>
  C38: One de-fork block per height. With none pending, on a chain lower than the clock window, a
  de-fork block becomes the pending one, its broadcast starts, and the node that mined the first
  elected block of its latest block starts to make the next one. While a de-fork block is
  pending every other one is dropped without effect, as all of them have a nil hash.
\<close>

theorem referer_handling:
  assumes "si_Public (self E) = Some me" "df_Hash block = None"
  shows "(\<forall>d. deForkBlock s = Some d \<and> df_Hash d = None \<longrightarrow>
      handleBlockMessage E \<lparr>env_ServerIdentity = si, env_Msg = BlockMessage RefererBlock (Some (PDeFork block))\<rparr> s
        = Returns None s) \<and>
    (deForkBlock s = None \<and> tip E s b \<and> pc_Size (privateClock s) = 11 \<and>
       blockIndexMap (db s) (hb_Index b - 11) = None \<and> elected b = Some es \<longrightarrow>
     (\<exists>s1. handleBlockMessage E \<lparr>env_ServerIdentity = si, env_Msg = BlockMessage RefererBlock (Some (PDeFork block))\<rparr> s
        = Returns None s1 \<and> deForkBlock s1 = Some block \<and> ds s1 = ds s \<and>
      spawned s1 = spawned s @ Broadcast (PDeFork block) RefererBlock #
        (if es \<noteq> [] \<and> hd es = me then [NewLeader block] else [])))"
proof (intro conjI allI impI)
  fix d assume "deForkBlock s = Some d \<and> df_Hash d = None"
  then show "handleBlockMessage E \<lparr>env_ServerIdentity = si, env_Msg = BlockMessage RefererBlock (Some (PDeFork block))\<rparr> s
      = Returns None s"
    using assms(2) by (simp add: handleBlockMessage_def block_types handleReferer_def prog_eval whenp_eval)
next
  assume a: "deForkBlock s = None \<and> tip E s b \<and> pc_Size (privateClock s) = 11 \<and>
       blockIndexMap (db s) (hb_Index b - 11) = None \<and> elected b = Some es"
  then have delta: "calcDelta E s = Returns (Inl ''no block found'') (ticked s)"
    using calcDelta_short_chain by blast
  let ?s = "(ticked s)\<lparr>deForkBlock := Some block, spawned := spawned s @ [Broadcast (PDeFork block) RefererBlock]\<rparr>"
  have "tip E ?s b" using a tip_cong [of ?s "ticked s" E b] by simp
  then have "isLeader E ?s = Returns (es \<noteq> [] \<and> hd es = me) (ticked ?s)"
    by (rule isLeader_tip [OF assms(1)]) (use a in simp_all)
  then show "\<exists>s1. handleBlockMessage E \<lparr>env_ServerIdentity = si, env_Msg = BlockMessage RefererBlock (Some (PDeFork block))\<rparr> s
        = Returns None s1 \<and> deForkBlock s1 = Some block \<and> ds s1 = ds s \<and>
      spawned s1 = spawned s @ Broadcast (PDeFork block) RefererBlock #
        (if es \<noteq> [] \<and> hd es = me then [NewLeader block] else [])"
    using a delta
    by (simp add: handleBlockMessage_def block_types handleReferer_def prog_eval whenp_eval spawn_eval ticked_def)
qed

lemma referer_handling_witness:
  "\<exists>s1. handleBlockMessage sample_env
      \<lparr>env_ServerIdentity = sample_peer ''a'', env_Msg = BlockMessage RefererBlock (Some (PDeFork (NewDeForkBlock 1 [])))\<rparr> tip_node
    = Returns None s1 \<and> deForkBlock s1 = Some (NewDeForkBlock 1 []) \<and>
    handleBlockMessage sample_env
      \<lparr>env_ServerIdentity = sample_peer ''b'', env_Msg = BlockMessage RefererBlock (Some (PDeFork (NewDeForkBlock 2 [])))\<rparr> s1
    = Returns None s1"
proof -
  have me: "si_Public (self sample_env) = Some ''me''" by (simp add: sample_env_def sample_peer_def)
  have nil: "df_Hash (NewDeForkBlock t []) = None" for t by (simp add: NewDeForkBlock_def)
  have "deForkBlock tip_node = None" "pc_Size (privateClock tip_node) = 11"
    by (simp_all add: tip_node_def new_node_def fresh_service_def newPrivateClock_def COSI_MEMBERS_def)
  moreover have "blockIndexMap (db tip_node) (hb_Index (sample_hello []) - 11) = None" "elected (sample_hello []) = Some []"
    by (simp_all add: tip_node_def sample_hello_def mem_db_def NewBlockDB_def elected_def NewDeForkBlock_def)
  ultimately obtain s1 where s1: "handleBlockMessage sample_env
      \<lparr>env_ServerIdentity = sample_peer ''a'', env_Msg = BlockMessage RefererBlock (Some (PDeFork (NewDeForkBlock 1 [])))\<rparr> tip_node
    = Returns None s1" "deForkBlock s1 = Some (NewDeForkBlock 1 [])"
    using referer_handling [OF me nil [of 1], of tip_node "sample_peer ''a''" "sample_hello []" "[]"] tip_node_tip by blast
  with referer_handling [OF me nil [of 2], of s1 "sample_peer ''b''"] nil [of 1] show ?thesis by blast
qed

section \<open>The template of the miner\<close>

text \<open>
  What is mined after a leader's block. If it elected a block and the miner is stopped, the miner
  is started on an unsigned, unhashed block with the header of the first elected block; its
  previous hash is overwritten in place by the hash of the leader's block, so it is that hash
  when both have the same length, and stays empty when the elected block had none. While the
  miner runs, nothing changes.
\<close>

theorem startMiner_template:
  assumes "hb_Block block = Some d" "df_OrderBlocks d = Some p # ps"
  shows "if started (the_miner s) then startMiner E block s = Returns () s
    else \<exists>t s'. startMiner E block s = Returns () s' \<and> started (the_miner s') \<and> miner_block (the_miner s') = Some t \<and>
      b_Collections t = [] \<and> b_Hash t = Some [] \<and>
      (\<exists>prev. b_Header t = (b_Header p)\<lparr>bh_Data := fresh_copy (bh_Data (b_Header p)), bh_PrevBlock := prev\<rparr> \<and>
         slice_bytes prev = go_copy (slice_bytes (bh_PrevBlock (b_Header p))) (slice_bytes (hb_Hash block))) \<and>
      (length (slice_bytes (bh_PrevBlock (b_Header p))) = length (slice_bytes (hb_Hash block)) \<longrightarrow>
         slice_bytes (bh_PrevBlock (b_Header t)) = slice_bytes (hb_Hash block))"
  using assms
  by (auto simp: startMiner_def prog_simps Let_def Start_def Header_Copy_def NewBlock_def slice_copy_def fresh_copy_def
      go_copy_same_length)

lemma startMiner_template_witness:
  "\<exists>t s'. startMiner sample_env signed_sample new_node = Returns () s' \<and> miner_block (the_miner s') = Some t \<and>
    b_Collections t = [] \<and> slice_bytes (bh_PrevBlock (b_Header t)) = []"
proof -
  have "\<not> started (the_miner new_node)" by (simp add: new_node_def fresh_service_def New_def)
  moreover have "hb_Block signed_sample = Some (NewDeForkBlock 5 [Some signed_once])"
    "df_OrderBlocks (NewDeForkBlock 5 [Some signed_once]) = Some signed_once # []"
    by (simp_all add: signed_sample_def NewDeForkBlock_def)
  moreover have "slice_bytes (bh_PrevBlock (b_Header signed_once)) = []" by (simp add: signed_once_def NewBlock_def)
  ultimately show ?thesis
    using startMiner_template [of signed_sample _ signed_once "[]" new_node sample_env] by auto
qed

section \<open>Responses\<close>

text \<open>
  Responses are lost. The handlers of signature and proxy responses send on channels without
  buffer that nothing receives from, so every well-formed response blocks its handler for ever;
  and a \<open>ProxyResponse\<close> is refused by its own handler, which expects a \<open>SignatureResponse\<close>.
\<close>

theorem responses_lost:
  assumes "si_Public si = Some key"
  shows "handleSignatureResponse E \<lparr>env_ServerIdentity = si, env_Msg = SignatureResponse k m\<rparr> s = Blocks s \<and>
    handleProxyResponse E \<lparr>env_ServerIdentity = si, env_Msg = SignatureResponse k m\<rparr> s = Blocks s \<and>
    handleProxyResponse E \<lparr>env_ServerIdentity = si, env_Msg = ProxyResponse k m\<rparr> s =
      Returns (Some (cast_error E (self E) ''SignatureRequest'')) s"
  using assms by (simp add: handleSignatureResponse_def handleProxyResponse_def prog_simps)

lemma responses_lost_witness:
  "handleSignatureResponse sample_env
     \<lparr>env_ServerIdentity = sample_peer ''a'', env_Msg = SignatureResponse ''a'' Map.empty\<rparr> new_node = Blocks new_node"
  using responses_lost [of "sample_peer ''a''" "''a''" sample_env "''a''" Map.empty new_node]
  by (simp add: sample_peer_def)

end
