(* ===== verification/Runs.thy ===== *)
theory Runs
  imports Acceptance Solver
begin

text \<open>
  service/service.go as a whole: which handler serves which message (\<open>init\<close> and \<open>newService\<close>), the
  client calls, the goroutines, and the runs of a node that these make up. An invariant of a node
  is an interpretation of the locale \<open>node_invariant\<close>; what holds in all runs follows from it.
\<close>

section \<open>What reaches the handlers\<close>

text \<open>
  The message types that \<open>init\<close> registers with the network library. Only these can be sent and
  received; \<open>TunnelMessage\<close> is not among them.
\<close>

fun registered :: "Msg \<Rightarrow> bool" where
  "registered (TunnelMessage _) = False"
| "registered _ = True"

text \<open>
  The table that \<open>newService\<close> builds with \<open>RegisterProcessorFunc\<close>. The handler of tunnel messages
  is registered under \<open>tunnelMessageId\<close>, which is never set.
\<close>

definition dispatch :: "('k, 'v) node_env \<Rightarrow> Envelope \<Rightarrow> ('k, go_error option) node" where
  "dispatch E env =
     (case env_Msg env of
        HandshakeMessage _ _ _ \<Rightarrow> handleHandshakeMessage E env
      | PingMessage _ \<Rightarrow> handlePingMessage E env
      | TunnelMessage _ \<Rightarrow> handleTunnelMessage E env
      | BlockMessage _ _ \<Rightarrow> handleBlockMessage E env
      | DownloadBlockRequest _ _ _ \<Rightarrow> handleDownloadBlockRequest E env
      | DownloadBlockResponse _ _ \<Rightarrow> handleDownloadBlockResponse E env
      | SignatureRequest _ \<Rightarrow> handleSignatureRequest E env
      | SignatureResponse _ _ \<Rightarrow> handleSignatureResponse E env
      | ProxyRequest _ \<Rightarrow> handleProxyRequest E env
      | ProxyResponse _ _ \<Rightarrow> handleProxyResponse E env
      | AddressMessage _ \<Rightarrow> handleAddressMessage E env)"

text \<open>The client calls that \<open>newService\<close> registers, and their replies.\<close>

datatype request =
    ReqPeer string "ServerIdentity list"
  | ReqProxy string "string list"
  | ReqGenesisBlock
  | ReqBlockByID slice
  | ReqBlockByIndex u64
  | ReqLatestBlock

datatype reply =
    PeerReply "ServerIdentity list"
  | ProxyReply "string list"
  | BlockReply "NewLeaderHelloBlock option"

definition reply_with :: "('a \<Rightarrow> reply) \<Rightarrow> ('k, 'a result) node \<Rightarrow> ('k, reply result) node" where
  "reply_with f m = bnd m (\<lambda>r. ret (map_sum id f r))"

text \<open>A walk of \<open>GetBlockByIndex\<close> that never ends keeps the mutex for good, like a blocked one.\<close>

definition block_by_index :: "('k, 'v) node_env \<Rightarrow> u64 \<Rightarrow> ('k, NewLeaderHelloBlock option result) node" where
  "block_by_index E i = (\<lambda>s. case BlockByIndex E i s of None \<Rightarrow> Blocks (put_chain_locked True s) | Some out \<Rightarrow> out)"

primrec serve :: "('k, 'v) node_env \<Rightarrow> request \<Rightarrow> ('k, reply result) node" where
  "serve E (ReqPeer command nodes) = reply_with PeerReply (Peer E command nodes)"
| "serve E (ReqProxy command nodes) = reply_with ProxyReply (Proxy E command nodes)"
| "serve E ReqGenesisBlock = reply_with (\<lambda>b. BlockReply (Some b)) (CreateGenesisBlock E)"
| "serve E (ReqBlockByID value) = reply_with BlockReply (GetBlockByID E value)"
| "serve E (ReqBlockByIndex i) = reply_with BlockReply (block_by_index E i)"
| "serve E ReqLatestBlock = reply_with BlockReply (GetLatestBlock E)"

text \<open>\<open>mainLoop\<close> waits for \<open>proposalChan\<close>, on which nothing sends.\<close>

definition mainLoop :: "('k, unit) node" where
  "mainLoop = hangs"

primrec run_task :: "('k, 'v) node_env \<Rightarrow> task \<Rightarrow> ('k, unit) node" where
  "run_task E (Broadcast block type) = BroadcastBlock E block type"
| "run_task E (BroadcastAddress addresses) = BroadcastAddressTx E addresses"
| "run_task E (AddPeers peers needConn) = AddPeerServerIdentity E peers needConn"
| "run_task E (RemovePeers peers) = RemovePeerServerIdentity peers"
| "run_task E (MemberGroup block) = bftMemberGroup E block"
| "run_task E (StartMiner block) = startMiner E block"
| "run_task E (StartTimer block) = startTimer E block"
| "run_task E (ArmTimer block) = armTimer block"
| "run_task E (TimerFired block) = timerFired E block"
| "run_task E (ProposeBlocks block) = proposeBlocks E block"
| "run_task E LeaderCounts = leaderCounts E"
| "run_task E (NewLeader block) = startNewLeaderHelloBlock E block"
| "run_task E (LeaderReady latest key block) = leaderReady E latest key block"
| "run_task E (ProcessMessage n) = processMessage E n"
| "run_task E (Collecting n remotes) = collect E n remotes"
| "run_task E MainLoop = mainLoop"

section \<open>Runs\<close>

definition remove_task :: "nat \<Rightarrow> 'k Service \<Rightarrow> 'k Service" where
  "remove_task i s = s\<lparr>spawned := take i (spawned s) @ drop (Suc i) (spawned s)\<rparr>"

text \<open>
  What the goroutines of the miner do by themselves: everything but the calls of \<open>Start\<close> and \<open>Stop\<close>,
  which are the node's, and the find of a block, which calls back. A generator that works on \<open>b\<close> finds
  any block that \<open>generateBlocks\<close> can return for it, over all clocks and polls of the quit channel.
\<close>

primrec scheduled :: "event \<Rightarrow> bool" where
  "scheduled (EvStart b) = False"
| "scheduled EvStop = False"
| "scheduled (EvWorker i) = True"
| "scheduled (EvGenerator i solved) = (\<not> solved)"

definition finds :: "Block \<Rightarrow> Block \<Rightarrow> bool" where
  "finds b block \<longleftrightarrow> (\<exists>quit now k. generateBlocks quit now k b = Some (Some block))"

text \<open>
  One step of a node: a message arrives, a client calls, a goroutine that was started runs (up to
  its next cut), a generator of the miner finds a block (perhaps just when its channel is closed),
  or a goroutine of the miner moves. A step that blocks or panics leaves what it has written so far.
  A panic ends a Go process unless something recovers it; here the node may go on, so what holds in
  all runs holds in both cases.
\<close>

inductive node_step :: "('k, 'v) node_env \<Rightarrow> (Msg \<Rightarrow> bool) \<Rightarrow> 'k Service \<Rightarrow> 'k Service \<Rightarrow> bool" for E ok where
  deliver: "registered (env_Msg env) \<Longrightarrow> ok (env_Msg env) \<Longrightarrow> node_step E ok s (final_state (dispatch E env s))"
| call: "node_step E ok s (final_state (serve E req s))"
| goroutine: "i < length (spawned s) \<Longrightarrow>
    node_step E ok s (final_state (run_task E (spawned s ! i) (remove_task i s)))"
| find: "i < length (generators (the_miner s)) \<Longrightarrow> generators (the_miner s) ! i = GRunning inner (Some b) \<Longrightarrow>
    finds b block \<Longrightarrow>
    node_step E ok s (final_state (seqp (on_miner (generator_step i True)) (minerCallback E block) s))"
| mining: "scheduled e \<Longrightarrow> node_step E ok s (final_state (on_miner (event_prog e) s))"

inductive node_runs :: "('k, 'v) node_env \<Rightarrow> (Msg \<Rightarrow> bool) \<Rightarrow> 'k Service \<Rightarrow> 'k Service \<Rightarrow> bool" for E ok s where
  start: "node_runs E ok s s"
| step: "node_runs E ok s s' \<Longrightarrow> node_step E ok s' s'' \<Longrightarrow> node_runs E ok s s''"

inductive_cases node_stepE: "node_step E ok s s'"

lemma node_step_mono: "node_step E ok s s' \<Longrightarrow> (\<And>msg. ok msg \<Longrightarrow> ok' msg) \<Longrightarrow> node_step E ok' s s'"
  by (induction rule: node_step.induct) (simp_all add: node_step.intros)

lemma node_runs_any: "node_runs E ok s s' \<Longrightarrow> node_runs E (\<lambda>_. True) s s'"
  by (induction rule: node_runs.induct) (auto intro: node_runs.intros node_step_mono)

text \<open>What every operation of a node must respect for \<open>I\<close> to hold in all runs.\<close>

locale node_invariant =
  fixes E :: "('k, 'v) node_env" and ok :: "Msg \<Rightarrow> bool" and I :: "'k Service \<Rightarrow> bool"
  assumes dispatch_keeps: "registered (env_Msg env) \<Longrightarrow> ok (env_Msg env) \<Longrightarrow> keeps I (dispatch E env)"
    and serve_keeps: "keeps I (serve E req)"
    and task_keeps: "I s \<Longrightarrow> i < length (spawned s) \<Longrightarrow>
      I (final_state (run_task E (spawned s ! i) (remove_task i s)))"
    and find_keeps: "I s \<Longrightarrow> i < length (generators (the_miner s)) \<Longrightarrow>
      generators (the_miner s) ! i = GRunning inner (Some b) \<Longrightarrow> finds b block \<Longrightarrow>
      I (final_state (seqp (on_miner (generator_step i True)) (minerCallback E block) s))"
    and mining_keeps: "scheduled e \<Longrightarrow> keeps I (on_miner (event_prog e))"
begin

lemma step_keeps: "node_step E ok s s' \<Longrightarrow> I s \<Longrightarrow> I s'"
  by (induction rule: node_step.induct)
    (auto intro: keepsD [OF dispatch_keeps] keepsD [OF serve_keeps] task_keeps
      find_keeps keepsD [OF mining_keeps])

lemma runs_keep: "node_runs E ok s s' \<Longrightarrow> I s \<Longrightarrow> I s'"
  by (induction rule: node_runs.induct) (auto intro: step_keeps)

end

text \<open>The definitions that proofs about handlers unfold, and facts about removed tasks.\<close>

lemmas client_defs = Peer_def Proxy_def CreateGenesisBlock_def GetBlockByID_def GetLatestBlock_def
  with_peers_def with_proxies_def with_chain_def reply_with_def

lemmas message_defs = handleHandshakeMessage_def handlePingMessage_def handleTunnelMessage_def
  handleBlockMessage_def handleDownloadBlockRequest_def handleDownloadBlockResponse_def
  handleSignatureRequest_def handleSignatureResponse_def handleProxyRequest_def
  handleProxyResponse_def handleAddressMessage_def handleCandidate_def handleReferer_def handleHello_def

lemma remove_task_simps [simp]:
  "db (remove_task i s) = db s" "proxyStorage (remove_task i s) = proxyStorage s"
  "outbox (remove_task i s) = outbox s" "timerRunning (remove_task i s) = timerRunning s"
  "spawned (remove_task i s) = take i (spawned s) @ drop (Suc i) (spawned s)"
  "buffer (remove_task i s) = buffer s"
  by (simp_all add: remove_task_def)

lemma set_remove_task: "set (spawned (remove_task i s)) \<subseteq> set (spawned s)"
  using set_take_subset [of i "spawned s"] set_drop_subset [of "Suc i" "spawned s"] by auto

end
