(* ===== verification/Frames.thy ===== *)
theory Frames
  imports Runs
begin

text \<open>
  The operations of a node that change nothing a given invariant is about. A predicate on the state
  that survives the small updates listed in the locale \<open>node_frame\<close> survives every handler, call
  and goroutine that is built from them; the invariants of the development interpret it and
  add what is special to them.
\<close>

section \<open>Small rules\<close>

lemma keeps_on:
  assumes "\<And>s. I s \<Longrightarrow> I (upd (final_state (m (sel s))) s)"
  shows "keeps I (zoom sel upd m)"
proof (rule keepsI)
  fix s assume "I s"
  then have "I (upd (final_state (m (sel s))) s)" by (rule assms)
  then show "I (final_state (zoom sel upd m s))" by (cases "m (sel s)") (simp_all add: zoom_eval)
qed

lemma deref_None [simp]: "deref None = panics NilDereference"
  by (simp add: deref_def)

lemma bnd_panics [simp]: "bnd (panics p) f = panics p"
  by (rule ext) (simp add: prog_eval)

lemma final_state_case [simp]:
  "final_state (case out of Returns a s \<Rightarrow> Returns (f a s) (g s) | Panics p s \<Rightarrow> Panics p (g s) | Blocks s \<Rightarrow> Blocks (g s)) =
     g (final_state out)"
  by (cases out) simp_all

lemma final_state_ret [simp]:
  "final_state (case out of Returns a s \<Rightarrow> ret (f a) s | Panics p s \<Rightarrow> Panics p s | Blocks s \<Rightarrow> Blocks s) = final_state out"
  by (cases out) (simp_all add: ret_def)

lemma keeps_on_buffer: "(\<And>s b. I s \<Longrightarrow> I (s\<lparr>buffer := b\<rparr>)) \<Longrightarrow> keeps I (on_buffer m)"
  unfolding on_buffer_def by (rule keeps_on) blast

lemma keeps_on_clock: "(\<And>s c. I s \<Longrightarrow> I (s\<lparr>privateClock := c\<rparr>)) \<Longrightarrow> keeps I (on_clock m)"
  unfolding on_clock_def by (rule keeps_on) blast

lemma keeps_on_miner: "(\<And>s c. I s \<Longrightarrow> I (s\<lparr>the_miner := c\<rparr>)) \<Longrightarrow> keeps I (on_miner m)"
  unfolding on_miner_def by (rule keeps_on) blast

lemma keeps_on_db: "(\<And>s. I s \<Longrightarrow> I (s\<lparr>db := final_state (m (db s))\<rparr>)) \<Longrightarrow> keeps I (on_db m)"
  unfolding on_db_def by (rule keeps_on) blast

text \<open>Reading something and going on with it.\<close>

lemma keeps_bnd_with:
  assumes "keeps I m" "\<And>s a s'. I s \<Longrightarrow> m s = Returns a s' \<Longrightarrow> P a" "\<And>a. P a \<Longrightarrow> keeps I (f a)"
  shows "keeps I (bnd m f)"
proof (rule keepsI)
  fix s assume I: "I s"
  show "I (final_state (bnd m f s))"
    using keepsD [OF assms(1) I] assms(2) [OF I] keepsD [OF assms(3)] by (cases "m s") (simp_all add: prog_simps)
qed

text \<open>What reading the database leaves behind.\<close>

lemma copy_hello_state: "final_state (copy_hello E b d) = tick d"
proof (cases "hello_ok b")
  case True
  from Hello_Copy_same [OF this, of "newCollection E" "time_at E (clock_reads d)" "tick d"] show ?thesis
    by (auto simp: copy_hello_def prog_simps)
qed (simp add: copy_hello_def prog_simps Hello_Copy_stuck)

lemma GetByID_state: "final_state (GetByID E h d) \<in> {d, tick d}"
proof (cases h)
  case (Some key)
  have "final_state (getFromTx E (Some key) d) \<in> {d, tick d}"
    by (cases "bucket d")
      (auto simp: getFromTx_def prog_simps copy_hello_state split: option.split sum.split Message.split)
  then show ?thesis using Some by (cases "getFromTx E (Some key) d") (simp_all add: GetByID_def prog_simps)
qed (simp add: prog_simps)

lemma GetBlockByIndex_state: "final_state (BlockStore.GetBlockByIndex E i d) \<in> {d, tick d}"
proof (cases "blockIndexMap d i")
  case (Some h)
  then show ?thesis
    using GetByID_state [of E h d]
    by (cases "GetByID E h d") (simp_all add: BlockStore.GetBlockByIndex_def prog_simps)
qed (simp add: BlockStore.GetBlockByIndex_def prog_simps)

lemma GetLatest_state:
  "final_state (GetLatest E d) \<in> {d, tick d, put_latestMutex True d, put_latestMutex True (tick d)}"
proof (cases "latestMutex d")
  case False
  then have free: "d\<lparr>latestMutex := False\<rparr> = d" "tick d\<lparr>latestMutex := False\<rparr> = tick d" by (simp_all add: tick_def)
  show ?thesis
    using GetByID_state [of E "latestBlockID d" "put_latestMutex True d"] False free
    by (cases "GetByID E (latestBlockID d) (put_latestMutex True d)") (auto simp: GetLatest_def prog_simps tick_def)
qed (simp add: GetLatest_def prog_simps)

text \<open>The handshake handler waits for itself.\<close>

lemma acquire_then_GetLatest:
  "seqp (on_db (acquire latestMutex put_latestMutex)) (bnd (on_db (GetLatest E)) f) =
     seqp (on_db (acquire latestMutex put_latestMutex)) hangs"
  by (rule ext) (simp add: prog_simps GetLatest_def)

text \<open>What the buffer gets for a candidate block \<open>b\<close>: its copy with this node's signature.\<close>

definition countersigned :: "('k, 'v) node_env \<Rightarrow> Block \<Rightarrow> Block \<Rightarrow> bool" where
  "countersigned E b c \<longleftrightarrow> (\<exists>me. si_Public (self E) = Some me \<and>
     c = \<lparr>b_Header = Header_Copy (b_Header b), b_Hash = fresh_copy (b_Hash b),
          b_Collections = [Some (newCollection (store E) me)]\<rparr>)"

lemma handleCandidate_cases:
  obtains "final_state (handleCandidate E b s) = s"
  | c where "b_Collections b = []" "countersigned E b c" "\<not> Buffer_in (b_Hash c) (buffer s)"
      "final_state (handleCandidate E b s) =
        s\<lparr>buffer := Buffer_Put c (buffer s), spawned := spawned s @ [Broadcast (PBlock b) CandidateBlock]\<rparr>"
proof (cases "timerRunning s \<and> \<not> Buffer_in (b_Hash b) (buffer s) \<and> si_Public (self E) \<noteq> None")
  case open_buffer: True
  then obtain me where me: "si_Public (self E) = Some me" by auto
  show thesis
  proof (cases "b_Collections b")
    case Nil
    from open_buffer me that(2) [OF Nil] show thesis
      by (simp add: handleCandidate_def prog_eval whenp_eval Block_Copy_unsigned [OF Nil] publicKey_eval Block_Sign_eval
          signatures_ok_def signers_def on_eval spawn_eval countersigned_def Buffer_in_def go_string_def)
  next
    case (Cons c cs)
    show thesis
    proof (cases "signatures_ok b")
      case True
      with open_buffer me Cons show thesis
        by (intro that(1)) (simp add: handleCandidate_def prog_simps Block_Sign_nil_first)
    next
      case False
      with open_buffer show thesis by (intro that(1)) (simp add: handleCandidate_def prog_simps)
    qed
  qed
qed (auto intro!: that(1) simp: handleCandidate_def prog_simps split: option.split)

section \<open>The frame\<close>

text \<open>Messages and tasks that carry no block and no request for a signature, and the requests for blocks.\<close>

fun harmless_message :: "Msg \<Rightarrow> bool" where
  "harmless_message (BlockMessage _ (Some _)) = False"
| "harmless_message (HandshakeMessage _ (Some _) _) = False"
| "harmless_message (DownloadBlockResponse _ _) = False"
| "harmless_message (TunnelMessage _) = False"
| "harmless_message (SignatureRequest _) = False"
| "harmless_message (SignatureResponse _ _) = False"
| "harmless_message (ProxyResponse _ _) = False"
| "harmless_message _ = True"

fun harmless_task :: "task \<Rightarrow> bool" where
  "harmless_task (Broadcast _ _) = False"
| "harmless_task (NewLeader _) = False"
| "harmless_task (LeaderReady _ _ _) = False"
| "harmless_task _ = True"

locale node_frame =
  fixes E :: "('k, 'v) node_env" and I :: "'k Service \<Rightarrow> bool"
    and sendable :: "Msg \<Rightarrow> bool" and startable :: "task \<Rightarrow> bool"
    and storable :: "NewLeaderHelloBlock \<Rightarrow> bool" and candidate :: "Block \<Rightarrow> bool"
  assumes send: "sendable msg \<Longrightarrow> I s \<Longrightarrow> I (s\<lparr>outbox := outbox s @ [(si, msg)]\<rparr>)"
    and begins: "startable t \<Longrightarrow> I s \<Longrightarrow> I (s\<lparr>spawned := spawned s @ [t]\<rparr>)"
    and harmless: "harmless_message msg \<Longrightarrow> sendable msg" "harmless_task t \<Longrightarrow> startable t"
    and greets: "I s \<Longrightarrow> on_db (GetLatest (store E)) s = Returns latest s' \<Longrightarrow> sendable (HandshakeMessage g latest a)"
    and answers: "I s \<Longrightarrow> collect_blocks E rounds start s = Returns blocks s' \<Longrightarrow> sendable (DownloadBlockResponse blocks g)"
    and candidates: "candidate b \<Longrightarrow> sendable (BlockMessage CandidateBlock (Some (PBlock b)))"
      "candidate b \<Longrightarrow> startable (Broadcast (PBlock b) CandidateBlock)"
    and lock_peers_frame: "I s \<Longrightarrow> I (put_ps_locked x s)"
    and put_peer_frame: "I s \<Longrightarrow> si_Public si = Some key \<Longrightarrow> I (put_peer key si s)"
    and drop_peer_frame: "I s \<Longrightarrow> I (drop_peer key s)"
    and proxies_frame: "I s \<Longrightarrow> peerNodeMap ps \<subseteq>\<^sub>m peerNodeMap (proxyStorage s) \<Longrightarrow> I (s\<lparr>proxyStorage := ps\<rparr>)"
    and addresses_frame: "I s \<Longrightarrow> I (s\<lparr>addressMap := m\<rparr>)"
    and chan_frame: "I s \<Longrightarrow> I (s\<lparr>synChan := c\<rparr>)"
    and done_frame: "I s \<Longrightarrow> I (s\<lparr>synDone := d\<rparr>)"
    and mutex_frame: "I s \<Longrightarrow> I (s\<lparr>createBlockChainMutex := x\<rparr>)"
    and fork_frame: "I s \<Longrightarrow> I (s\<lparr>deForkBlock := f\<rparr>)"
    and ds_frame: "I s \<Longrightarrow> I (s\<lparr>ds := n\<rparr>)"
    and buffered_frame: "I s \<Longrightarrow> candidate b \<Longrightarrow> countersigned E b b' \<Longrightarrow>
      \<not> Buffer_in (b_Hash b') (buffer s) \<Longrightarrow> I (s\<lparr>buffer := Buffer_Put b' (buffer s)\<rparr>)"
    and clock_frame: "I s \<Longrightarrow> I (s\<lparr>privateClock := k\<rparr>)"
    and start_frame: "I s \<Longrightarrow> b_Collections b = [] \<Longrightarrow>
      I (s\<lparr>the_miner := final_state (Start (Some b) (the_miner s))\<rparr>)"
    and stop_frame: "I s \<Longrightarrow> I (s\<lparr>the_miner := final_state (Stop (the_miner s))\<rparr>)"
    and db_frame: "I s \<Longrightarrow> I (s\<lparr>db := tick (db s)\<rparr>)"
    and lock_frame: "I s \<Longrightarrow> I (s\<lparr>db := put_latestMutex True (db s)\<rparr>)"
    and update_frame: "keeps I (on_db (UpdateLatest p))"
    and store_frame: "storable h \<Longrightarrow> keeps I (on_db (Store (store E) (Some h)))"
begin

text \<open>Primitives.\<close>

lemma keeps_send: "sendable msg \<Longrightarrow> keeps I (SendRaw E si msg)"
  by (rule keepsI) (simp add: prog_simps send)

lemma keeps_send_all: "sendable msg \<Longrightarrow> keeps I (send_all E msg sis)"
  unfolding send_all_def by (intro keeps_intros keeps_send)

lemma keeps_broadcast: "sendable (BlockMessage ty (Some p)) \<Longrightarrow> keeps I (BroadcastBlock E p ty)"
  unfolding BroadcastBlock_def by (intro keeps_intros keeps_send_all)

lemma keeps_spawn: "startable t \<Longrightarrow> keeps I (spawn t)"
  by (rule keepsI) (simp add: prog_simps begins)

lemma proxy_lock [simp]: "I s \<Longrightarrow> I (put_proxy_locked x s)"
  by (rule proxies_frame) simp_all

lemma proxy_delete [simp]:
  "I s \<Longrightarrow> I (s\<lparr>proxyStorage := (proxyStorage s)\<lparr>peerNodeMap := (peerNodeMap (proxyStorage s))(k := None)\<rparr>\<rparr>)"
  by (rule proxies_frame) (simp_all add: map_le_def)

lemma frame_simps [simp]:
  "I s \<Longrightarrow> I (put_ps_locked x s)" "I s \<Longrightarrow> I (s\<lparr>addressMap := m\<rparr>)" "I s \<Longrightarrow> I (s\<lparr>synChan := c\<rparr>)"
  "I s \<Longrightarrow> I (s\<lparr>synDone := d\<rparr>)" "I s \<Longrightarrow> I (s\<lparr>createBlockChainMutex := x\<rparr>)" "I s \<Longrightarrow> I (s\<lparr>deForkBlock := f\<rparr>)"
  "I s \<Longrightarrow> I (s\<lparr>ds := n\<rparr>)" "I s \<Longrightarrow> I (drop_peer key s)"
  by (simp_all add: lock_peers_frame addresses_frame chan_frame done_frame mutex_frame fork_frame ds_frame
      drop_peer_frame)

lemma db_frames [simp]:
  "I s \<Longrightarrow> I (s\<lparr>db := tick (db s)\<rparr>)" "I s \<Longrightarrow> I (s\<lparr>db := put_latestMutex True (db s)\<rparr>)"
  "I s \<Longrightarrow> I (s\<lparr>db := put_latestMutex True (tick (db s))\<rparr>)" "I s \<Longrightarrow> I (s\<lparr>db := db s\<rparr>)"
  using lock_frame [of "s\<lparr>db := tick (db s)\<rparr>"] by (simp_all add: db_frame lock_frame)

lemma keeps_db:
  "keeps I (on_db (copy_hello (store E) b))" "keeps I (on_db (GetByID (store E) h))"
  "keeps I (on_db (BlockStore.GetBlockByIndex (store E) i))" "keeps I (on_db (GetLatest (store E)))"
  "keeps I (on_db GetGenesisID)" "keeps I (read_clock E)" "keeps I (on_db (acquire latestMutex put_latestMutex))"
proof -
  show "keeps I (on_db (copy_hello (store E) b))"
    by (rule keeps_on_db) (simp add: copy_hello_state)
  show "keeps I (on_db (GetByID (store E) h))"
  proof (rule keeps_on_db)
    fix s assume "I s"
    then show "I (s\<lparr>db := final_state (GetByID (store E) h (db s))\<rparr>)"
      using GetByID_state [of "store E" h "db s"] by auto
  qed
  show "keeps I (on_db (BlockStore.GetBlockByIndex (store E) i))"
  proof (rule keeps_on_db)
    fix s assume "I s"
    then show "I (s\<lparr>db := final_state (BlockStore.GetBlockByIndex (store E) i (db s))\<rparr>)"
      using GetBlockByIndex_state [of "store E" i "db s"] by auto
  qed
  show "keeps I (on_db (GetLatest (store E)))"
  proof (rule keeps_on_db)
    fix s assume "I s"
    then show "I (s\<lparr>db := final_state (GetLatest (store E) (db s))\<rparr>)"
      using GetLatest_state [of "store E" "db s"] by auto
  qed
qed (auto intro!: keeps_on_db simp: prog_simps read_clock_def)

lemma keeps_identity: "keeps I (PublicString si)" "keeps I (publicKey E)"
  by (simp_all add: PublicString_def publicKey_def keeps_intros)

lemma keeps_clock: "keeps I (on_clock m)"
  by (intro keeps_on_clock clock_frame)

lemmas primitives = keeps_intros keeps_send keeps_send_all keeps_broadcast keeps_spawn keeps_db keeps_identity
  keeps_clock update_frame harmless

text \<open>Peers and gateways.\<close>

lemma keeps_loops:
  "keeps I (select_peers known ps)"
  "keeps I (delete_proxies as)"
  "keeps I (fresh_addresses as)"
proof -
  show "keeps I (select_peers known ps)" by (induction ps) (auto intro!: primitives)
  show "keeps I (delete_proxies as)" by (induction as) (auto intro!: primitives)
  show "keeps I (fresh_addresses as)" by (induction as) (auto intro!: primitives)
qed

lemma keeps_ping: "keeps I (ping_and_add E needConn p)"
proof -
  have "keeps I (bnd (Urls.PublicString p) (\<lambda>key. modifies (put_peer key p)))"
    by (rule keepsI) (auto simp: prog_eval PublicString_eval put_peer_frame split: option.split)
  then show ?thesis unfolding ping_and_add_def by (auto intro!: primitives)
qed

lemma keeps_peers:
  "keeps I (Peer E command nodes)"
  "keeps I (Proxy E command addresses)"
  "keeps I (AddPeerServerIdentity E peers needConn)"
  "keeps I (RemovePeerServerIdentity peers)"
  "keeps I (handlePingMessage E env)"
  "keeps I (handleAddressMessage E env)"
  "keeps I (BroadcastAddressTx E addresses)"
  unfolding client_defs message_defs AddPeerServerIdentity_def RemovePeerServerIdentity_def
    drop_known_def BroadcastAddressTx_def
  by (auto intro!: primitives keeps_loops keeps_ping split: Msg.split)

text \<open>Questions, handshakes and downloads.\<close>

lemma keeps_greet: "keeps I (greet E peer)"
proof -
  have "keeps I (bnd (on_db (GetLatest (store E))) (\<lambda>latest.
      bnd (SendRaw E peer (HandshakeMessage g latest True)) (\<lambda>err. ret ())))" for g
  proof (rule keeps_bnd_with [where P = "\<lambda>latest. sendable (HandshakeMessage g latest True)"])
    show "sendable (HandshakeMessage g latest True)" if "I s" "on_db (GetLatest (store E)) s = Returns latest s'" for s latest s'
      using that by (rule greets)
  qed (auto intro!: primitives)
  then show ?thesis unfolding greet_def by (rule keeps_bnd [OF keeps_db(5)])
qed

lemma keeps_chain:
  "keeps I (GetBlockByID E value)"
  "keeps I (GetLatestBlock E)"
  "keeps I (handshake E)"
  unfolding client_defs handshake_def by (auto intro!: primitives keeps_greet split: option.split)

lemma keeps_handshake: "keeps I (handleHandshakeMessage E env)"
  unfolding message_defs acquire_then_GetLatest sync_chan_send_def
  by (auto intro!: primitives simp: Let_def split: Msg.split)

lemma keeps_sync_loops:
  "keeps I (try_remotes E n remotes)"
  "keeps I (collect_blocks E n index)"
proof -
  show "keeps I (try_remotes E n remotes)"
    by (induction n arbitrary: remotes) (auto intro!: primitives simp: Let_def)
  show "keeps I (collect_blocks E n index)"
    by (induction n arbitrary: index) (auto intro!: primitives split: sum.split)
qed

lemma keeps_sync:
  "keeps I (processMessage E n)"
  "keeps I (collect E n remotes)"
  "keeps I (handleDownloadBlockRequest E env)"
proof -
  show "keeps I (processMessage E n)" unfolding processMessage_def by (auto intro!: primitives)
  have "keeps I (download E rs)" for rs
    unfolding download_def by (auto intro!: primitives keeps_sync_loops keeps_chain)
  then show "keeps I (collect E n remotes)"
    by (cases n) (auto intro!: primitives split: list.split)
  have answer: "keeps I (bnd (collect_blocks E n i) (\<lambda>blocks.
      if length blocks = 0 then ret (Some err) else SendRaw E si (DownloadBlockResponse blocks g)))" for n i err si g
  proof (rule keeps_bnd_with [where P = "\<lambda>blocks. sendable (DownloadBlockResponse blocks g)"])
    show "sendable (DownloadBlockResponse blocks g)" if "I s" "collect_blocks E n i s = Returns blocks s'" for s blocks s'
      using that by (rule answers)
  qed (auto intro!: primitives keeps_sync_loops)
  show "keeps I (handleDownloadBlockRequest E env)"
    unfolding handleDownloadBlockRequest_def
    by (auto intro!: keeps_bnd [OF keeps_db(5)] keeps_ret answer split: Msg.split simp del: length_0_conv)
qed

text \<open>Membership and the consensus group.\<close>

lemma keeps_member_loops:
  "keeps I (member_keys E n b m)"
  "keeps I (member_walk E n pointer)"
proof -
  show "keeps I (member_keys E n b m)"
    by (induction n arbitrary: m) (auto intro!: primitives simp: Let_def)
  show "keeps I (member_walk E n pointer)"
    by (induction n arbitrary: pointer) (auto intro!: primitives split: option.split)
qed

lemma keeps_members:
  "keeps I (getLatestPublicKeyMap E)"
  "keeps I (isLeader E)"
  "keeps I (isBFTMember E)"
  "keeps I (calcDelta E)"
  unfolding getLatestPublicKeyMap_def isLeader_def isBFTMember_def calcDelta_def
  by (auto intro!: primitives keeps_member_loops simp: Let_def split: option.split list.split sum.split)

lemma keeps_stale: "keeps I (stale_keys E keys)"
  by (induction keys) (auto intro!: primitives keeps_members)

lemma keeps_group: "keeps I (bftMemberGroup E block)"
  unfolding bftMemberGroup_def group_address_def with_proxies_def
  by (auto intro!: primitives keeps_stale split: sum.split)

lemma keeps_mining:
  "keeps I (startMiner E block)"
  "keeps I stopMiner"
  "keeps I (proposeBlocks E block)"
proof -
  have start: "keeps I (on_miner (Start (Some t)))" if "b_Collections t = []" for t
    unfolding on_miner_def using start_frame [OF _ that] by (rule keeps_on)
  then show "keeps I (startMiner E block)"
    unfolding startMiner_def Let_def by (intro keeps_intros) (auto intro!: keeps_intros start simp: NewBlock_def split: list.split)
  show "keeps I stopMiner"
    unfolding stopMiner_def on_miner_def using stop_frame by (rule keeps_on)
  show "keeps I (proposeBlocks E block)"
    unfolding proposeBlocks_def by (auto intro!: primitives simp: Let_def split: sum.split)
qed

lemma keeps_callback: "candidate block \<Longrightarrow> keeps I (minerCallback E block)"
  unfolding minerCallback_def by (intro keeps_broadcast candidates)

text \<open>Blocks and signatures.\<close>

lemma keeps_candidate:
  assumes "candidate block"
  shows "keeps I (handleCandidate E block)"
proof (rule keepsI)
  fix s assume s: "I s"
  show "I (final_state (handleCandidate E block s))"
  proof (cases rule: handleCandidate_cases [of E block s])
    case (2 c)
    from begins [OF candidates(2) [OF assms] buffered_frame [OF s assms 2(2,3)]] 2(4) show ?thesis by simp
  qed (use s in simp)
qed

lemma keeps_referer:
  assumes "startable (Broadcast (PDeFork block) RefererBlock)" "startable (NewLeader block)"
  shows "keeps I (handleReferer E block)"
  unfolding message_defs using assms
  by (auto intro!: primitives keeps_members split: sum.split)

lemma keeps_hello:
  assumes "startable (Broadcast (PHello block) NewLeaderHello)" "storable block"
  shows "keeps I (handleHello E block)"
  unfolding message_defs using assms store_frame [OF assms(2)] by (auto intro!: primitives)

lemma keeps_block_message:
  assumes "\<And>ty d. env_Msg env = BlockMessage ty (Some (PDeFork d)) \<Longrightarrow>
      startable (Broadcast (PDeFork d) RefererBlock) \<and> startable (NewLeader d)"
    and "\<And>ty b. env_Msg env = BlockMessage ty (Some (PHello b)) \<Longrightarrow>
      startable (Broadcast (PHello b) NewLeaderHello) \<and> storable b"
    and "\<And>ty b. env_Msg env = BlockMessage ty (Some (PBlock b)) \<Longrightarrow> candidate b"
  shows "keeps I (handleBlockMessage E env)"
  unfolding handleBlockMessage_def using assms
  by (auto intro!: keeps_intros keeps_candidate keeps_referer keeps_hello fork_frame
      split: Msg.split option.split payload.split)

lemma keeps_signatures:
  "keeps I (handleSignatureResponse E env)"
  "keeps I (handleProxyResponse E env)"
  unfolding message_defs by (auto intro!: primitives split: Msg.split)

lemma keeps_genesis:
  assumes "storable (genesis_block E)" "sendable (BlockMessage NewLeaderHello (Some (PHello (genesis_block E))))"
  shows "keeps I (CreateGenesisBlock E)"
  unfolding client_defs using assms store_frame [OF assms(1)] by (auto intro!: primitives simp: Let_def)

text \<open>The call that may walk for ever.\<close>

lemma seek_keeps:
  assumes "seek E i p s = Some out" "I s"
  shows "I (final_state out)"
proof -
  have "E' = E \<longrightarrow> I s \<longrightarrow> I (final_state out)" if "seek E' i p s = Some out" for E' i p s out
  proof (rule seek.raw_induct [where P = "\<lambda>E' i p s out. E' = E \<longrightarrow> I s \<longrightarrow> I (final_state out)", OF _ that])
    fix rec :: "('k, 'v) node_env \<Rightarrow> u64 \<Rightarrow> NewLeaderHelloBlock option \<Rightarrow> 'k Service \<Rightarrow>
       (NewLeaderHelloBlock option result, 'k Service) outcome option" and E' i p s out
    assume IH: "\<And>E' i p s out. rec E' i p s = Some out \<Longrightarrow> E' = E \<longrightarrow> I s \<longrightarrow> I (final_state out)"
      and eq: "(case p of
          None \<Rightarrow> Some (Panics NilDereference s)
        | Some b \<Rightarrow>
            if hb_Index b \<noteq> i then
              (case on_db (GetByID (store E') (hb_Hash b)) s of
                 Returns None s' \<Rightarrow> Some (Returns (Inl ''No such block'') s')
               | Returns (Some b') s' \<Rightarrow> rec E' i (Some b') s'
               | Panics p s' \<Rightarrow> Some (Panics p s')
               | Blocks s' \<Rightarrow> Some (Blocks s'))
            else Some (Returns (Inr p) s)) = Some out"
    show "E' = E \<longrightarrow> I s \<longrightarrow> I (final_state out)"
    proof (intro impI)
      assume E': "E' = E" and s: "I s"
      have fetch: "I (final_state (on_db (GetByID (store E) h) s))" for h
        using keepsD [OF keeps_db(2) s] .
      show "I (final_state out)"
        using eq s E' fetch IH
        by (auto split: option.splits if_splits outcome.splits) (metis final_state.simps)+
    qed
  qed
  with assms show ?thesis by blast
qed

lemma keeps_block_by_index: "keeps I (block_by_index E i)"
proof -
  have body: "I (final_state out)" if "index_body E i s = Some out" "I s" for s out
  proof -
    have latest: "I (final_state (on_db (GetLatest (store E)) t))" if "I t" for t
      using keepsD [OF keeps_db(4) that] .
    have entry: "I (final_state (on_db (BlockStore.GetBlockByIndex (store E) i) t))" if "I t" for t
      using keepsD [OF keeps_db(3) that] .
    have walk: "I (final_state out)"
      if "(case on_db (GetLatest (store E)) t of
             Returns latest u \<Rightarrow> seek E i latest u | Panics p u \<Rightarrow> Some (Panics p u) | Blocks u \<Rightarrow> Some (Blocks u)) = Some out" "I t"
      for t
      using that(1) latest [OF that(2)] by (auto split: outcome.splits dest: seek_keeps)
    have lookup: "I (final_state out)"
      if "(case on_db (BlockStore.GetBlockByIndex (store E) i) t of
             Returns (Inr b) u \<Rightarrow> Some (Returns (Inr b) u)
           | Returns (Inl err) u \<Rightarrow>
               (case on_db (GetLatest (store E)) u of
                  Returns latest v \<Rightarrow> seek E i latest v
                | Panics p v \<Rightarrow> Some (Panics p v)
                | Blocks v \<Rightarrow> Some (Blocks v))
           | Panics p u \<Rightarrow> Some (Panics p u)
           | Blocks u \<Rightarrow> Some (Blocks u)) = Some out" "I t" for t
    proof (cases "on_db (BlockStore.GetBlockByIndex (store E) i) t")
      case (Returns r u)
      then show ?thesis using that entry [OF that(2)] walk [of u] by (cases r) auto
    qed (use that entry [OF that(2)] in auto)
    show ?thesis
    proof (cases "on_db (GetLatest (store E)) s")
      case (Returns p s1)
      then show ?thesis
        using that latest [OF that(2)] lookup [of s1]
        by (cases p) (auto simp: index_body_def split: if_splits)
    qed (use that latest [OF that(2)] in \<open>auto simp: index_body_def\<close>)
  qed
  show ?thesis
  proof (rule keepsI)
    fix s assume "I s"
    then show "I (final_state (block_by_index E i s))"
      using body [of "put_chain_locked True s"]
      by (cases "index_body E i (put_chain_locked True s)") (auto simp: block_by_index_def BlockByIndex_def prog_simps split: outcome.split)
  qed
qed

text \<open>Operations whose messages or tasks an invariant may have to look at.\<close>

lemma keeps_proxy_request:
  assumes "\<And>blocks. sendable (SignatureRequest blocks)"
  shows "keeps I (handleProxyRequest E env)"
  unfolding message_defs using keeps_send [OF assms]
  by (auto intro!: keeps_intros keeps_identity keeps_members split: Msg.split option.split)

text \<open>Without gateways a proxy request asks nobody.\<close>

lemma keeps_proxy_request_silent:
  assumes "\<And>s. I s \<Longrightarrow> peerNodeMap (proxyStorage s) = Map.empty"
  shows "keeps I (handleProxyRequest E env)"
proof -
  have "keeps I (bnd (gets (\<lambda>s. peerNodeMap (proxyStorage s) key)) (case_option (ret ()) f))" for key f
    by (rule keepsI) (simp add: prog_simps assms)
  then have loop: "keeps I (each (\<lambda>key. bnd (gets (\<lambda>s. peerNodeMap (proxyStorage s) key)) (case_option (ret ()) f)) keys)"
    for f and keys :: "string list" by (intro keeps_each)
  show ?thesis
  proof (cases "env_Msg env")
    case (ProxyRequest req)
    then show ?thesis
      by (cases req) (auto simp: handleProxyRequest_def intro!: keeps_bnd keeps_seqp keeps_ret keeps_members loop)
  qed (simp_all add: handleProxyRequest_def keeps_intros)
qed

lemma keeps_timers:
  assumes "\<And>s x. I s \<Longrightarrow> I (s\<lparr>timerRunning := x\<rparr>)"
  shows "keeps I (startTimer E block)" and "keeps I (timerFired E block)" and "keeps I (armTimer block)"
  unfolding startTimer_def timerFired_def armTimer_def
  by (auto intro!: primitives keeps_members keeps_mining assms)

lemma keeps_leader_counts:
  assumes "\<And>d. sendable (BlockMessage RefererBlock (Some (PDeFork d)))" "\<And>d. startable (NewLeader d)"
  shows "keeps I (leaderCounts E)"
  unfolding leaderCounts_def using assms keeps_broadcast [OF assms(1)] keeps_spawn [OF assms(2)]
  by (auto intro!: keeps_intros keeps_db simp: Let_def split: option.split)

lemma keeps_new_leader:
  assumes "\<And>l key. startable (LeaderReady l key d)"
  shows "keeps I (startNewLeaderHelloBlock E d)"
  unfolding startNewLeaderHelloBlock_def using keeps_spawn [OF assms]
  by (auto intro!: keeps_intros keeps_db keeps_identity split: list.split option.split)

lemma keeps_leader_ready:
  assumes "\<And>b. sendable (BlockMessage NewLeaderHello (Some (PHello b)))" "\<And>b. storable b"
  shows "keeps I (leaderReady E l key d)"
  unfolding leaderReady_def using keeps_broadcast [OF assms(1)] store_frame [OF assms(2)]
  by (auto intro!: keeps_intros keeps_db update_frame keeps_spawn harmless simp: Let_def split: sum.split)

lemma keeps_download_response:
  assumes "\<And>b. storable b"
  shows "keeps I (handleDownloadBlockResponse E env)"
proof -
  have store: "keeps I (on_db (Store (store E) p))" if "p \<noteq> None" for p
    using store_frame [OF assms] that by auto
  have deref_store: "keeps I (bnd (deref p) (\<lambda>b. f b (on_db (Store (store E) p))))"
    if "\<And>b m. keeps I m \<Longrightarrow> keeps I (f b m)" for p :: "NewLeaderHelloBlock option" and f :: "NewLeaderHelloBlock \<Rightarrow> ('k, slice) node \<Rightarrow> ('k, u64) node"
    using that store by (cases p) (auto intro!: keeps_intros)
  have loop: "keeps I (override_blocks E ps i)" for ps i
    by (induction ps arbitrary: i)
      (auto intro!: keeps_intros keeps_db deref_store [where f = "\<lambda>b m. seqp (bnd m (\<lambda>_. ret ())) (_ b)"] simp: Let_def)
  show ?thesis
    unfolding handleDownloadBlockResponse_def
    by (auto intro!: keeps_intros keeps_db update_frame keeps_chain loop split: Msg.split)
qed

end

section \<open>Invariants that do not look at the buffer, the miner or the peers\<close>

locale loose_frame =
  fixes E :: "('k, 'v) node_env" and I :: "'k Service \<Rightarrow> bool"
    and sendable :: "Msg \<Rightarrow> bool" and startable :: "task \<Rightarrow> bool"
    and storable :: "NewLeaderHelloBlock \<Rightarrow> bool"
  assumes send_law: "sendable msg \<Longrightarrow> I s \<Longrightarrow> I (s\<lparr>outbox := outbox s @ [(si, msg)]\<rparr>)"
    and begins_law: "startable t \<Longrightarrow> I s \<Longrightarrow> I (s\<lparr>spawned := spawned s @ [t]\<rparr>)"
    and harmless_law: "harmless_message msg \<Longrightarrow> sendable msg" "harmless_task t \<Longrightarrow> startable t"
    and greets_law: "I s \<Longrightarrow> on_db (GetLatest (store E)) s = Returns latest s' \<Longrightarrow> sendable (HandshakeMessage g latest a)"
    and answers_law: "I s \<Longrightarrow> collect_blocks E rounds start s = Returns blocks s' \<Longrightarrow> sendable (DownloadBlockResponse blocks g)"
    and candidates_law: "sendable (BlockMessage CandidateBlock (Some (PBlock b)))"
      "startable (Broadcast (PBlock b) CandidateBlock)"
    and peers_law: "I s \<Longrightarrow> I (s\<lparr>peerStorage := ps\<rparr>)"
    and proxies_law: "I s \<Longrightarrow> peerNodeMap ps \<subseteq>\<^sub>m peerNodeMap (proxyStorage s) \<Longrightarrow> I (s\<lparr>proxyStorage := ps\<rparr>)"
    and addresses_law: "I s \<Longrightarrow> I (s\<lparr>addressMap := m\<rparr>)"
    and chan_law: "I s \<Longrightarrow> I (s\<lparr>synChan := c\<rparr>)"
    and done_law: "I s \<Longrightarrow> I (s\<lparr>synDone := d\<rparr>)"
    and mutex_law: "I s \<Longrightarrow> I (s\<lparr>createBlockChainMutex := x\<rparr>)"
    and fork_law: "I s \<Longrightarrow> I (s\<lparr>deForkBlock := f\<rparr>)"
    and ds_law: "I s \<Longrightarrow> I (s\<lparr>ds := n\<rparr>)"
    and buffer_law: "I s \<Longrightarrow> I (s\<lparr>buffer := bb\<rparr>)"
    and clock_law: "I s \<Longrightarrow> I (s\<lparr>privateClock := k\<rparr>)"
    and miner_law: "I s \<Longrightarrow> I (s\<lparr>the_miner := w\<rparr>)"
    and db_law: "I s \<Longrightarrow> I (s\<lparr>db := tick (db s)\<rparr>)"
    and lock_law: "I s \<Longrightarrow> I (s\<lparr>db := put_latestMutex True (db s)\<rparr>)"
    and update_law: "keeps I (on_db (UpdateLatest p))"
    and store_law: "storable h \<Longrightarrow> keeps I (on_db (Store (store E) (Some h)))"
begin

lemma as_node_frame: "node_frame E I sendable startable storable (\<lambda>_. True)"
  by unfold_locales
    (simp_all add: send_law begins_law harmless_law greets_law answers_law candidates_law peers_law proxies_law addresses_law chan_law done_law
      mutex_law fork_law ds_law buffer_law clock_law miner_law db_law lock_law update_law store_law
      put_peer_def drop_peer_def)

lemma keeps_miner [simp]: "keeps I (on_miner m)"
  by (intro keeps_on_miner miner_law)

lemma keeps_signature_request [simp]: "keeps I (handleSignatureRequest E env)"
  unfolding message_defs
  by (auto intro!: keeps_intros node_frame.keeps_db [OF as_node_frame] keeps_on_buffer buffer_law split: Msg.split)

end

sublocale loose_frame \<subseteq> node_frame E I sendable startable storable "\<lambda>_. True"
  by (rule as_node_frame)

section \<open>Invariants that hold whatever arrives\<close>

text \<open>
  A frame that allows every block, and what is left to show for it: the answers to requests for
  signatures and to proxy requests, the flag of the timer, and the moves of the miner.
\<close>

locale open_frame = node_frame E I sendable startable "\<lambda>_. True" "\<lambda>_. True"
  for E :: "('k, 'v) node_env" and I sendable startable +
  assumes sends_blocks: "sendable (BlockMessage ty (Some p))"
    and starts: "startable (Broadcast p ty)" "startable (NewLeader d)" "startable (LeaderReady l key d)"
    and removed: "I s \<Longrightarrow> i < length (spawned s) \<Longrightarrow> I (remove_task i s)"
    and proxy_request: "keeps I (handleProxyRequest E env)"
    and signature_request: "keeps I (handleSignatureRequest E env)"
    and miner_moves: "keeps I (on_miner (worker_step i))" "keeps I (on_miner (generator_step i solved))"
    and timer_flag: "I s \<Longrightarrow> I (s\<lparr>timerRunning := x\<rparr>)"
begin

lemma run_task_keeps: "keeps I (run_task E t)"
  by (cases t) (auto intro!: keeps_broadcast keeps_peers keeps_group keeps_mining keeps_leader_counts keeps_new_leader
      keeps_leader_ready keeps_sync keeps_timers sends_blocks starts timer_flag keeps_intros simp: mainLoop_def)

lemma serve_all: "keeps I (serve E req)"
  by (cases req) (auto intro!: keeps_intros keeps_peers keeps_chain keeps_genesis sends_blocks keeps_block_by_index
      simp: reply_with_def simp del: bnd_panics)

lemma dispatch_all:
  assumes "registered (env_Msg env)"
  shows "keeps I (dispatch E env)"
  unfolding dispatch_def using assms
  by (auto intro!: keeps_peers keeps_handshake keeps_block_message keeps_sync keeps_signatures keeps_download_response
      proxy_request signature_request starts split: Msg.split)

end

sublocale open_frame \<subseteq> node_invariant E "\<lambda>_. True" I
proof
  show "keeps I (dispatch E env)" if "registered (env_Msg env)" for env
    using that by (rule dispatch_all)
  show "keeps I (serve E req)" for req by (rule serve_all)
  show "I (final_state (run_task E (spawned s ! i) (remove_task i s)))" if "I s" "i < length (spawned s)" for s i
    using run_task_keeps removed [OF that] by (rule keepsD)
  show "I (final_state (seqp (on_miner (generator_step i True)) (minerCallback E block) s))"
    if "I s" for s i block
    using keeps_seqp [OF miner_moves(2) keeps_callback] that by (auto dest: keepsD)
  show "keeps I (on_miner (event_prog e))" if "scheduled e" for e
    using that by (cases e) (auto intro: miner_moves)
qed

end
