(* ===== verification/Invariants.thy ===== *)
theory Invariants
  imports Frames
begin

text \<open>
  What holds in every run of a node, whatever messages, calls and schedules it meets: a node never
  learns a gateway and so never passes on a request for a signature, and after the first handshake the
  chain of a node stands still.
\<close>

lemma StoreBlocks_state: "\<exists>bk. final_state (StoreBlocks E ps d) = d\<lparr>bucket := bk\<rparr>"
proof (cases "store_all E ps [] (bucket d)")
  case (Returns r bk)
  then show ?thesis
    by (cases r; cases "snd r"; cases "Option.bind bk (commit_error E)")
      (auto simp: StoreBlocks_def intro: exI [of _ "bucket d"] exI [of _ bk])
qed (auto simp: StoreBlocks_def intro: exI [of _ "bucket d"])

lemma Store_state: "\<exists>bk. final_state (Store E p d) = d\<lparr>bucket := bk\<rparr>"
  using StoreBlocks_state [of E "[p]" d]
  by (cases "StoreBlocks E [p] d") (auto simp: Store_def prog_simps split: prod.split)

text \<open>The sample node as the one that has made the genesis block.\<close>

definition maker_env :: "((bytes \<times> Message) list, Message) node_env" where
  "maker_env = sample_env\<lparr>self := sample_peer ''key''\<rparr>"

lemma maker_env_simps [simp]:
  "store maker_env = mem_env" "genesis_block maker_env = sample_hello []" "si_Public (self maker_env) = Some ''key''"
  by (simp_all add: maker_env_def sample_env_def sample_peer_def)

lemma sample_hello_facts [simp]:
  "hello_ok (sample_hello as)" "hb_Hash (sample_hello as) = Some [2]" "hb_PublicKey (sample_hello as) = ''key''"
  by (simp_all add: sample_hello_def hello_ok_def NewDeForkBlock_def)

lemma new_node_simps [simp]:
  "bucket (db new_node) = Some []" "\<not> latestMutex (db new_node)" "latestBlockID (db new_node) = None"
  "\<not> createBlockChainMutex new_node" "spawned new_node = []" "\<not> timerRunning new_node"
  "genesis_id new_node = None"
  by (simp_all add: new_node_def fresh_service_def NewBlockDB_def genesis_id_def genesis_of_def)

lemma maker_genesis:
  obtains s1 where "node_runs maker_env ok new_node s1" "tip maker_env s1 (sample_hello [])"
    "spawned s1 = [StartTimer (sample_hello [])]" "\<not> timerRunning s1"
proof -
  have "fits [2]" by (simp add: fits_def)
  then obtain s1 where "CreateGenesisBlock maker_env new_node = Returns (Inr (genesis_block maker_env)) s1"
      "tip maker_env s1 (genesis_block maker_env)" "spawned s1 = spawned new_node @ [StartTimer (genesis_block maker_env)]"
      "timerRunning s1 = timerRunning new_node"
    using CreateGenesis_accepted [of maker_env new_node "[2]"] mem.storage_axioms mem_writable
    by (metis maker_env_simps(1,2) new_node_simps(1-4) option.distinct(1) sample_hello_facts(1,2))
  then have s1: "CreateGenesisBlock maker_env new_node = Returns (Inr (sample_hello [])) s1" "tip maker_env s1 (sample_hello [])"
      "spawned s1 = [StartTimer (sample_hello [])]" "\<not> timerRunning s1" by simp_all
  then have "final_state (serve maker_env ReqGenesisBlock new_node) = s1" by (simp add: reply_with_def prog_simps)
  then have "node_runs maker_env ok new_node s1"
    using node_runs.step [OF node_runs.start node_step.call [where req = ReqGenesisBlock]] by metis
  with s1 that show thesis by simp
qed

section \<open>Gateways\<close>

text \<open>The messages of a node that knows no gateway.\<close>

fun ungated :: "Msg \<Rightarrow> bool" where
  "ungated (TunnelMessage _) = False"
| "ungated (SignatureRequest _) = False"
| "ungated (SignatureResponse _ _) = False"
| "ungated (ProxyResponse _ _) = False"
| "ungated _ = True"

definition no_gateways :: "'k Service \<Rightarrow> bool" where
  "no_gateways s \<longleftrightarrow> peerNodeMap (proxyStorage s) = Map.empty \<and> (\<forall>m\<in>set (outbox s). ungated (snd m))"

lemma harmless_ungated: "harmless_message msg \<Longrightarrow> ungated msg"
  by (cases msg rule: harmless_message.cases) auto

interpretation gateways: loose_frame E no_gateways ungated "\<lambda>_. True" "\<lambda>_. True" for E
proof unfold_locales
  fix s :: "'a Service" and ps :: peerStorage
  assume "no_gateways s" "peerNodeMap ps \<subseteq>\<^sub>m peerNodeMap (proxyStorage s)"
  then show "no_gateways (s\<lparr>proxyStorage := ps\<rparr>)" by (auto simp: no_gateways_def map_le_def fun_eq_iff)
next
  fix p show "keeps no_gateways (on_db (UpdateLatest p))" by (rule keeps_on_db) (simp add: no_gateways_def)
next
  fix h show "keeps no_gateways (on_db (Store (store E) (Some h)))" by (rule keeps_on_db) (simp add: no_gateways_def)
qed (auto simp: no_gateways_def harmless_ungated)

lemma proxy_request_silent: "keeps no_gateways (handleProxyRequest E env)"
  by (rule gateways.keeps_proxy_request_silent) (simp add: no_gateways_def)

interpretation gateway_runs: open_frame E no_gateways ungated "\<lambda>_. True" for E
  by unfold_locales (simp_all add: proxy_request_silent, simp_all add: no_gateways_def)

text \<open>
  C7: Nobody collects signatures. A node that starts without gateways never knows one, whatever
  registered messages arrive and however its goroutines are scheduled: the only message that
  announces a gateway is not registered, and \<open>bftMemberGroup\<close> never gets as far. So it never asks
  anyone for a signature, and sends no response to such a request.
\<close>

theorem no_signature_requests:
  assumes "node_runs E ok (fresh_service bk) s"
  shows "dom (peerNodeMap (proxyStorage s)) = {} \<and>
    (\<forall>si blocks key m. (si, SignatureRequest blocks) \<notin> set (outbox s) \<and>
       (si, SignatureResponse key m) \<notin> set (outbox s) \<and> (si, ProxyResponse key m) \<notin> set (outbox s))"
proof -
  from node_runs_any [OF assms] have "no_gateways s"
    by (rule gateway_runs.runs_keep) (simp add: no_gateways_def fresh_service_def)
  then show ?thesis by (force simp: no_gateways_def)
qed

lemma no_signature_requests_witness:
  "\<exists>s. node_runs maker_env (\<lambda>_. True) (fresh_service (Some [])) s \<and> spawned s \<noteq> [] \<and>
    dom (peerNodeMap (proxyStorage s)) = {}"
proof -
  obtain s1 where s1: "node_runs maker_env (\<lambda>_. True) new_node s1" "spawned s1 = [StartTimer (sample_hello [])]"
    by (rule maker_genesis)
  from s1(1) have "node_runs maker_env (\<lambda>_. True) (fresh_service (Some [])) s1" by (simp add: new_node_def)
  with no_signature_requests [OF this] s1(2) show ?thesis by auto
qed

section \<open>Signatures of a buffered block\<close>

text \<open>An entry of the buffer: the block it was once, or that block with one more signature under its key.\<close>

definition gained :: "('k, 'v) node_env \<Rightarrow> string \<Rightarrow> Block \<Rightarrow> blockBuffer \<Rightarrow> bool" where
  "gained E key b bb \<longleftrightarrow> (\<exists>c. blockMap bb key = Some c \<and>
     (c = b \<or> has_signer key (b_Collections c) \<and> c = b\<lparr>b_Collections := b_Collections b @ [Some (newCollection (store E) key)]\<rparr>))"

lemma gained_put: "gained E key b bb \<Longrightarrow> \<not> Buffer_in (b_Hash c) bb \<Longrightarrow> gained E key b (Buffer_Put c bb)"
  by (auto simp: gained_def Buffer_Put_def Buffer_in_def)

lemma gained_set:
  assumes "signer (newCollection (store E))" "gained E key b bb"
  shows "gained E key b (final_state (Buffer_Set (newCollection (store E)) block bb))"
proof (cases "blockMap bb (go_string (b_Hash block))")
  case None
  then show ?thesis using assms(2) by (auto simp: Buffer_Set_def prog_simps gained_def Buffer_Put_def)
next
  case (Some old)
  have own: "c_PublicKey (newCollection (store E) key) = key" using signer.key_of_new [OF assms(1)] .
  show ?thesis
  proof (cases rule: Block_Sign_cases [of "newCollection (store E)" "go_string (b_Hash block)" old bb])
    case 3
    with Some assms(2) own show ?thesis
      by (cases "go_string (b_Hash block) = key") (auto simp: Buffer_Set_def prog_simps gained_def has_signer_def)
  qed (use Some assms(2) in \<open>auto simp: Buffer_Set_def prog_simps gained_def\<close>)
qed

lemma gained_request:
  assumes "signer (newCollection (store E))"
  shows "keeps (\<lambda>s. gained E key b (buffer s)) (on_buffer (Buffer_Set (newCollection (store E)) block))"
  unfolding on_buffer_def by (rule keeps_on) (simp add: gained_set [OF assms])

definition votes :: "('k, 'v) node_env \<Rightarrow> string \<Rightarrow> Block \<Rightarrow> 'k Service \<Rightarrow> bool" where
  "votes E key b s \<longleftrightarrow> (signer (newCollection (store E)) \<longrightarrow> gained E key b (buffer s))"

interpretation ballot: node_frame E "votes E key b" "\<lambda>_. True" "\<lambda>_. True" "\<lambda>_. True" "\<lambda>_. True" for E key b
proof unfold_locales
  fix p show "keeps (votes E key b) (on_db (UpdateLatest p))" by (rule keeps_on_db) (simp add: votes_def)
next
  fix h show "keeps (votes E key b) (on_db (Store (store E) (Some h)))" by (rule keeps_on_db) (simp add: votes_def)
qed (simp_all add: votes_def gained_put put_peer_def drop_peer_def)

lemma votes_request: "keeps (votes E key b) (handleSignatureRequest E env)"
proof (cases "signer (newCollection (store E))")
  case True
  then have "votes E key b = (\<lambda>s. gained E key b (buffer s))" by (simp add: votes_def fun_eq_iff)
  then have "keeps (votes E key b) (on_buffer (Buffer_Set (newCollection (store E)) block))" for block
    using gained_request [OF True] by simp
  then show ?thesis
    unfolding handleSignatureRequest_def by (auto intro!: keeps_intros ballot.keeps_db split: Msg.split)
next
  case False
  then show ?thesis by (simp add: keeps_def votes_def)
qed

interpretation ballot_runs: open_frame E "votes E key b" "\<lambda>_. True" "\<lambda>_. True" for E key b
proof unfold_locales
  show "keeps (votes E key b) (handleProxyRequest E env)" for env by (rule ballot.keeps_proxy_request) simp
  show "keeps (votes E key b) (on_miner (worker_step i))" for i by (rule keeps_on_miner) (simp add: votes_def)
  show "keeps (votes E key b) (on_miner (generator_step i solved))" for i solved
    by (rule keeps_on_miner) (simp add: votes_def)
qed (simp_all add: votes_request, simp_all add: votes_def)

text \<open>
  C36: Votes do not gather. In any run of a node, whatever blocks arrive in candidates and in signature
  requests, a buffered block stays under its key with the signatures it has now and at most one more; that
  one is made with the key of the buffer, the hash, instead of the key of a member. So a block that
  has come with fewer than \<open>memberLen\<close> signatures is never among those that \<open>HalfMore(memberLen)\<close> selects,
  and a candidate, which the node itself buffers with one signature, is not from two members on.
\<close>

theorem votes_do_not_gather:
  assumes "signer (newCollection (store E))" "blockMap (buffer s) key = Some b" "node_runs E ok s s'"
  shows "\<exists>c. blockMap (buffer s') key = Some c \<and> b_Header c = b_Header b \<and> b_Hash c = b_Hash b \<and>
    (b_Collections c = b_Collections b \<or>
     b_Collections c = b_Collections b @ [Some (newCollection (store E) key)]) \<and>
    (\<forall>keys n. int (length (b_Collections b)) < sint n \<longrightarrow> c \<notin> set (HalfMore keys n (buffer s')))"
proof -
  have "votes E key b s" using assms(2) by (simp add: votes_def gained_def)
  with node_runs_any [OF assms(3)] have "votes E key b s'" by (rule ballot_runs.runs_keep)
  then obtain c where c: "blockMap (buffer s') key = Some c"
    "c = b \<or> c = b\<lparr>b_Collections := b_Collections b @ [Some (newCollection (store E) key)]\<rparr>"
    using assms(1) by (auto simp: votes_def gained_def)
  then have "length (b_Collections c) \<le> Suc (length (b_Collections b))" by auto
  then have "c \<notin> set (HalfMore keys n (buffer s'))" if "int (length (b_Collections b)) < sint n" for keys n
    using that by (auto simp: HalfMore_def)
  with c show ?thesis by auto
qed

definition asked_node :: "(bytes \<times> Message) list Service" where
  "asked_node = genesis_node\<lparr>buffer := Buffer_Put signed_once newBlockBuffer\<rparr>"

lemma votes_do_not_gather_witness:
  "\<exists>s' c. node_runs sample_env (\<lambda>_. True) asked_node s' \<and>
    s' = final_state (dispatch sample_env \<lparr>env_ServerIdentity = sample_peer ''a'',
      env_Msg = SignatureRequest (replicate 11 (Some signed_once))\<rparr> asked_node) \<and>
    blockMap (buffer s') (go_string (Some [1])) = Some c \<and> c \<notin> set (HalfMore [go_string (Some [1])] 2 (buffer s'))"
proof -
  let ?env = "\<lparr>env_ServerIdentity = sample_peer ''a'', env_Msg = SignatureRequest (replicate 11 (Some signed_once))\<rparr>"
  let ?s' = "final_state (dispatch sample_env ?env asked_node)"
  have "node_step sample_env (\<lambda>_. True) asked_node ?s'" by (rule node_step.deliver) simp_all
  then have run: "node_runs sample_env (\<lambda>_. True) asked_node ?s'" by (rule node_runs.step [OF node_runs.start])
  moreover have "signer (newCollection (store sample_env))"
    by (simp add: sample_env_store mem_env_def pair.signer_axioms)
  moreover have "blockMap (buffer asked_node) (go_string (Some [1])) = Some signed_once"
    "length (b_Collections signed_once) = 1"
    by (simp_all add: asked_node_def Buffer_Put_def signed_once_def)
  ultimately obtain c where "blockMap (buffer ?s') (go_string (Some [1])) = Some c"
      "\<forall>keys n. 1 < sint (n :: u64) \<longrightarrow> c \<notin> set (HalfMore keys n (buffer ?s'))"
    using votes_do_not_gather [of sample_env asked_node "go_string (Some [1])" signed_once _ ?s'] by (metis of_nat_1)
  moreover have "1 < sint (2 :: u64)" by simp
  ultimately show ?thesis using run by blast
qed

section \<open>After a handshake\<close>

definition frozen :: "slice \<Rightarrow> 'k Service \<Rightarrow> bool" where
  "frozen h s \<longleftrightarrow> latestMutex (db s) \<and> latestBlockID (db s) = h"

interpretation freeze: loose_frame E "frozen h" "\<lambda>_. True" "\<lambda>_. True" "\<lambda>_. True" for E h
proof unfold_locales
  fix p show "keeps (frozen h) (on_db (UpdateLatest p))"
    by (rule keeps_on_db) (simp add: frozen_def UpdateLatest_def prog_simps)
next
  fix b show "keeps (frozen h) (on_db (Store (store E) (Some b)))"
  proof (rule keeps_on_db)
    fix s :: "'a Service" assume "frozen h s"
    with Store_state [of "store E" "Some b" "db s"]
    show "frozen h (s\<lparr>db := final_state (Store (store E) (Some b) (db s))\<rparr>)" by (auto simp: frozen_def)
  qed
qed (simp_all add: frozen_def tick_def)

interpretation freeze_runs: open_frame E "frozen h" "\<lambda>_. True" "\<lambda>_. True" for E h
proof unfold_locales
  show "keeps (frozen h) (handleProxyRequest E env)" for env by (rule freeze.keeps_proxy_request) simp
qed (simp_all, simp_all add: frozen_def)

lemma frozen_blocks:
  assumes "frozen h s"
  shows "\<exists>s'. serve E ReqLatestBlock s = Blocks s'" "\<exists>s'. serve E (ReqBlockByID value) s = Blocks s'"
    "\<exists>s'. serve E ReqGenesisBlock s = Blocks s'"
  using assms
  by (simp_all add: client_defs prog_simps frozen_def GetLatest_locked)

text \<open>
  C5: One handshake stops a node for good. After a node with a chain has handled a handshake for its
  own chain, its latest block never changes again, in any run, and every client call for the
  latest block, for a block by its hash, or for a new chain blocks.
\<close>

theorem handshake_freezes:
  assumes "genesis_id s = Some g" "reqGenesis = None \<or> slice_bytes reqGenesis = g" "\<not> latestMutex (db s)"
    and "node_runs E ok (final_state (dispatch E
      \<lparr>env_ServerIdentity = si, env_Msg = HandshakeMessage reqGenesis reqLatest answer\<rparr> s)) s'"
  shows "latestBlockID (db s') = latestBlockID (db s) \<and>
    (\<exists>t. serve E ReqLatestBlock s' = Blocks t) \<and> (\<exists>t. serve E (ReqBlockByID value) s' = Blocks t) \<and>
    (\<exists>t. serve E ReqGenesisBlock s' = Blocks t)"
proof -
  let ?env = "\<lparr>env_ServerIdentity = si, env_Msg = HandshakeMessage reqGenesis reqLatest answer\<rparr>"
  have "frozen (latestBlockID (db s)) (final_state (dispatch E ?env s))"
    using assms(1,2,3)
    by (auto simp: dispatch_def handleHandshakeMessage_def prog_simps Let_def GetLatest_locked genesis_id_def frozen_def)
  with node_runs_any [OF assms(4)] have "frozen (latestBlockID (db s)) s'" by (rule freeze_runs.runs_keep)
  then show ?thesis by (intro conjI frozen_blocks) (simp_all add: frozen_def)
qed

lemma handshake_freezes_witness:
  "latestBlockID (db (final_state (dispatch sample_env
      \<lparr>env_ServerIdentity = sample_peer ''a'', env_Msg = HandshakeMessage None None True\<rparr> genesis_node))) = Some [2] \<and>
   (\<exists>t. serve sample_env ReqLatestBlock (final_state (dispatch sample_env
      \<lparr>env_ServerIdentity = sample_peer ''a'', env_Msg = HandshakeMessage None None True\<rparr> genesis_node)) = Blocks t)"
proof -
  let ?s' = "final_state (dispatch sample_env
      \<lparr>env_ServerIdentity = sample_peer ''a'', env_Msg = HandshakeMessage None None True\<rparr> genesis_node)"
  have "node_runs sample_env (\<lambda>_. True) ?s' ?s'" by (rule node_runs.start)
  from handshake_freezes [OF _ _ _ this, of "[2]"] have "latestBlockID (db ?s') = latestBlockID (db genesis_node) \<and>
      (\<exists>t. serve sample_env ReqLatestBlock ?s' = Blocks t)"
    using genesis_node_facts(1,2) by blast
  then show ?thesis by (simp add: genesis_node_def genesis_sample_def)
qed

end
