(* ===== verification/Network.thy ===== *)
theory Network
  imports Invariants
begin

text \<open>
  A network of nodes that all run this code. Every message a node receives was sent by one of them;
  the network may lose, repeat, reorder and misdeliver messages. Followed through all components,
  from the copies of signed blocks in Blocks to the handlers, the chains of such a network end at
  height 1.
\<close>

section \<open>Runs of a network\<close>

inductive net_step :: "('n \<Rightarrow> ('k, 'v) node_env) \<Rightarrow> ('n \<Rightarrow> 'k Service) \<Rightarrow> ('n \<Rightarrow> 'k Service) \<Rightarrow> bool" for E where
  receive: "(dst, msg) \<in> set (outbox (c sender)) \<Longrightarrow> registered msg \<Longrightarrow>
    net_step E c (c(i := final_state (dispatch (E i) \<lparr>env_ServerIdentity = self (E sender), env_Msg = msg\<rparr> (c i))))"
| act: "node_step (E i) (\<lambda>_. False) (c i) s \<Longrightarrow> net_step E c (c(i := s))"

inductive net_runs :: "('n \<Rightarrow> ('k, 'v) node_env) \<Rightarrow> ('n \<Rightarrow> 'k Service) \<Rightarrow> ('n \<Rightarrow> 'k Service) \<Rightarrow> bool" for E c where
  start: "net_runs E c c"
| step: "net_runs E c c' \<Longrightarrow> net_step E c' c'' \<Longrightarrow> net_runs E c c''"

text \<open>
  An invariant that every node keeps when it receives acceptable messages, and that makes what the
  node has sent acceptable, holds at all nodes in all runs.
\<close>

locale network_invariant =
  fixes E :: "'n \<Rightarrow> ('k, 'v) node_env" and ok :: "Msg \<Rightarrow> bool" and I :: "'n \<Rightarrow> 'k Service \<Rightarrow> bool"
  assumes node: "node_invariant (E i) ok (I i)"
    and sent_ok: "I i s \<Longrightarrow> (dst, msg) \<in> set (outbox s) \<Longrightarrow> ok msg"
begin

lemma net_step_keeps:
  assumes "net_step E c c'" "\<And>i. I i (c i)"
  shows "I i (c' i)"
  using assms(1)
proof (cases rule: net_step.cases)
  case (receive dst msg sender j)
  let ?env = "\<lparr>env_ServerIdentity = self (E sender), env_Msg = msg\<rparr>"
  have "ok msg" using sent_ok [OF assms(2) receive(2)] .
  then have "keeps (I j) (dispatch (E j) ?env)"
    using node_invariant.dispatch_keeps [OF node, of ?env j] receive(3) by simp
  from keepsD [OF this assms(2)] show ?thesis using receive(1) assms(2) by simp
next
  case (act j s)
  have "node_step (E j) ok (c j) s" using node_step_mono [OF act(2)] by simp
  from node_invariant.step_keeps [OF node this assms(2)] show ?thesis using act(1) assms(2) by simp
qed

lemma net_runs_keep: "net_runs E c c' \<Longrightarrow> (\<And>i. I i (c i)) \<Longrightarrow> I i (c' i)"
proof (induction arbitrary: i rule: net_runs.induct)
  case (step c' c'')
  show ?case by (rule net_step_keeps [OF step.hyps(2) step.IH [OF step.prems]])
qed simp

end

section \<open>What keeps a chain low\<close>

text \<open>
  Where blocks may come from: the genesis blocks of the nodes, and the keys that nodes make blocks
  under. A child of a genesis block carries its hash and its own, as far as \<open>copy\<close> has room for them in
  the slices of the genesis block, and elects a block of its maker first.
\<close>

record origin =
  roots :: "NewLeaderHelloBlock set"
  makers :: "string set"

definition child :: "origin \<Rightarrow> NewLeaderHelloBlock \<Rightarrow> NewLeaderHelloBlock \<Rightarrow> bool" where
  "child R g b \<longleftrightarrow> hb_Index b = hb_Index g + 1 \<and>
     slice_bytes (hb_PrevBlock b) = go_copy (slice_bytes (hb_PrevBlock g)) (slice_bytes (hb_Hash g)) \<and>
     (\<exists>h. Hello_CalculateHash b = Inr h \<and> slice_bytes (hb_Hash b) = go_copy (slice_bytes (hb_Hash g)) h) \<and>
     hb_PublicKey b \<in> makers R \<and> (\<exists>ks. elected b = Some (hb_PublicKey b # ks))"

definition rooted :: "origin \<Rightarrow> NewLeaderHelloBlock \<Rightarrow> bool" where
  "rooted R b \<longleftrightarrow> (\<exists>g\<in>roots R. same_block b g \<or> child R g b)"

definition in_origin :: "origin \<Rightarrow> ('k, 'v) node_env \<Rightarrow> bool" where
  "in_origin R E \<longleftrightarrow> storage (store E) \<and> (\<forall>g\<in>roots R. hb_Index g = 0) \<and> genesis_block E \<in> roots R \<and>
     (\<forall>key. si_Public (self E) = Some key \<longrightarrow> key \<in> makers R)"

lemma child_same: "same_block a b \<Longrightarrow> child R g b \<Longrightarrow> child R g a"
  using same_block_hash [of a b] by (auto simp: child_def same_block_def)

lemma rooted_same: "same_block a b \<Longrightarrow> rooted R b \<Longrightarrow> rooted R a"
  unfolding rooted_def by (blast intro: child_same same_block_trans)

lemma rooted_cong: "same_block a b \<Longrightarrow> rooted R a \<longleftrightarrow> rooted R b"
  by (blast intro: rooted_same same_block_sym)

text \<open>
  A block is low if it has height 0, or height 1 and elects a signed block. What is fetched from
  a store of low blocks has height 0 or cannot be copied again.
\<close>

definition low :: "origin \<Rightarrow> NewLeaderHelloBlock \<Rightarrow> bool" where
  "low R b \<longleftrightarrow> rooted R b \<and> (hb_Index b = 0 \<or> hb_Index b = 1 \<and> signed_order b)"

definition signed_fork :: "DeForkBlock \<Rightarrow> bool" where
  "signed_fork d \<longleftrightarrow> list_ex signed (df_OrderBlocks d)"

text \<open>The maker of the first block that is elected.\<close>

definition first_maker :: "DeForkBlock \<Rightarrow> string option" where
  "first_maker d = (case df_OrderBlocks d of Some p # ps \<Rightarrow> Some (bh_PublicKey (b_Header p)) | _ \<Rightarrow> None)"

definition last_tip :: "origin \<Rightarrow> NewLeaderHelloBlock \<Rightarrow> bool" where
  "last_tip R b \<longleftrightarrow> rooted R b \<and> (hb_Index b = 0 \<or> \<not> hello_ok b)"

primrec low_payload :: "origin \<Rightarrow> payload \<Rightarrow> bool" where
  "low_payload R (PBlock b) = True"
| "low_payload R (PDeFork d) = signed_fork d"
| "low_payload R (PHello b) = low R b"

definition all_low :: "origin \<Rightarrow> NewLeaderHelloBlock option list \<Rightarrow> bool" where
  "all_low R bs \<longleftrightarrow> (\<forall>b. Some b \<in> set bs \<longrightarrow> low R b)"

fun low_message :: "origin \<Rightarrow> Msg \<Rightarrow> bool" where
  "low_message R (BlockMessage _ (Some p)) = low_payload R p"
| "low_message R (HandshakeMessage _ (Some b) _) = low R b"
| "low_message R (DownloadBlockResponse bs _) = all_low R bs"
| "low_message R msg = ungated msg"

fun low_task :: "origin \<Rightarrow> task \<Rightarrow> bool" where
  "low_task R (Broadcast p _) = low_payload R p"
| "low_task R (NewLeader d) = signed_fork d"
| "low_task R (LeaderReady l key d) =
     (last_tip R l \<and> signed_fork d \<and> key \<in> makers R \<and> first_maker d = Some key)"
| "low_task R _ = True"

definition low_bucket :: "origin \<Rightarrow> ('k, 'v) db_env \<Rightarrow> 'k option \<Rightarrow> bool" where
  "low_bucket R E bk \<longleftrightarrow> (\<forall>k key v b. bk = Some k \<longrightarrow> bucket_get E k key = Some v \<longrightarrow>
     unmarshal E v = Inr (MsgHello b) \<longrightarrow> low R b)"

text \<open>
  The invariant: the store, what is sent and what is started is low; and, as no gateway is known, every
  buffered block has come as a candidate and has a signature.
\<close>

definition gathered :: "blockBuffer \<Rightarrow> bool" where
  "gathered bb \<longleftrightarrow> (\<forall>key b. blockMap bb key = Some b \<longrightarrow> signed (Some b))"

definition grounded :: "origin \<Rightarrow> ('k, 'v) node_env \<Rightarrow> 'k Service \<Rightarrow> bool" where
  "grounded R E s \<longleftrightarrow> low_bucket R (store E) (bucket (db s)) \<and> (\<forall>t\<in>set (spawned s). low_task R t) \<and>
     (\<forall>m\<in>set (outbox s). low_message R (snd m)) \<and> peerNodeMap (proxyStorage s) = Map.empty \<and> gathered (buffer s)"

lemma low_same: "same_block a b \<Longrightarrow> (signed_order a \<longleftrightarrow> signed_order b) \<Longrightarrow> low R a \<longleftrightarrow> low R b"
  using rooted_cong [of a b R] by (simp add: low_def) (simp add: same_block_def)

lemma copy_hello_low:
  assumes "copy_hello E b d = Returns c d'" "low R b"
  shows "low R c" "last_tip R c"
proof -
  have ok: "hello_ok b"
  proof (rule ccontr)
    assume "\<not> hello_ok b"
    with assms(1) show False by (simp add: copy_hello_def prog_simps Hello_Copy_stuck)
  qed
  from Hello_Copy_same [OF this, of "newCollection E" "time_at E (clock_reads d)" "tick d"] assms(1)
  have "same_block c b" "hello_ok c \<longleftrightarrow> \<not> signed_order b" "signed_order c \<longleftrightarrow> signed_order b"
    by (auto simp: copy_hello_def prog_simps)
  moreover from this(1) have "hb_Index c = hb_Index b" by (simp add: same_block_def)
  ultimately show "low R c" "last_tip R c"
    using assms(2) rooted_cong [of c b R] by (auto simp: low_def last_tip_def)
qed

lemma getFromTx_low:
  assumes "getFromTx E h d = Returns (Inr (Some c)) d'" "low_bucket R E (bucket d)"
  shows "low R c \<and> last_tip R c"
  using assms
  by (auto simp: getFromTx_def prog_simps low_bucket_def deref_def
      split: option.splits sum.splits Message.splits outcome.splits) (blast dest: copy_hello_low)+

lemma GetByID_low:
  assumes "GetByID E h d = Returns (Some c) d'" "low_bucket R E (bucket d)"
  shows "low R c \<and> last_tip R c"
proof -
  from assms(1) obtain e where "getFromTx E h d = Returns (Inr (Some c)) e"
    by (auto simp: GetByID_def prog_simps split: option.splits outcome.splits sum.splits)
  then show ?thesis using assms(2) by (rule getFromTx_low)
qed

lemma GetLatest_low:
  assumes "GetLatest E d = Returns (Some c) d'" "low_bucket R E (bucket d)"
  shows "low R c \<and> last_tip R c"
proof -
  from assms(1) obtain e where "GetByID E (latestBlockID d) (put_latestMutex True d) = Returns (Some c) e"
    by (auto simp: GetLatest_def prog_simps split: outcome.splits if_splits)
  then show ?thesis by (rule GetByID_low) (simp add: assms(2))
qed

lemma GetBlockByIndex_low:
  assumes "BlockStore.GetBlockByIndex E i d = Returns (Inr (Some c)) d'" "low_bucket R E (bucket d)"
  shows "low R c \<and> last_tip R c"
proof -
  from assms(1) obtain h e where "GetByID E h d = Returns (Some c) e"
    by (auto simp: BlockStore.GetBlockByIndex_def prog_simps split: option.splits outcome.splits)
  then show ?thesis using assms(2) by (rule GetByID_low)
qed

context storage
begin

lemma store_low:
  assumes "low_bucket R E (bucket d)" "low R b"
  shows "low_bucket R E (bucket (final_state (Store E (Some b) d)))"
proof (cases "StoreBlocks E [Some b] d")
  case (Returns r d')
  obtain ids err where r: "r = (ids, err)" by (cases r)
  show ?thesis
  proof (cases err)
    case None
    show ?thesis
    proof (cases "bucket d")
      case (Some k)
      from StoreBlocks_holds [of "[b]" d ids d' k] Returns r None Some obtain k' where
        k': "d' = d\<lparr>bucket := Some k'\<rparr>" "holds_last E k k' [b]" by auto
      have "low R c" if "bucket_get E k' key = Some v" "unmarshal E v = Inr (MsgHello c)" for key v c
      proof (cases "slice_bytes (hb_Hash b) = key")
        case True
        with k'(2) that(1) have "marshal E b = Inr v" by (auto simp: holds_last_def dest!: spec [of _ key])
        from codec [OF this] that(2) low_same assms(2) show ?thesis by auto
      next
        case False
        with k'(2) have "bucket_get E k' key = bucket_get E k key" by (auto simp: holds_last_def dest!: spec [of _ key])
        with that assms(1) Some show ?thesis by (auto simp: low_bucket_def)
      qed
      then show ?thesis using Returns r k'(1) by (simp add: Store_def prog_simps low_bucket_def)
    next
      case none: None
      then have "StoreBlocks E [Some b] d \<noteq> Returns (ids, None) d'"
        by (auto simp: StoreBlocks_def storeToTx_def prog_simps split: sum.split)
      then show ?thesis using Returns r None by simp
    qed
  next
    case (Some e)
    then have "d' = d" using Returns r StoreBlocks_error_keeps by blast
    then show ?thesis using Returns r assms(1) by (simp add: Store_def prog_simps)
  qed
qed (use assms(1) in \<open>auto simp: Store_def prog_simps StoreBlocks_def split: outcome.splits option.splits prod.splits\<close>)

end

lemma grounded_reads:
  assumes "grounded R E s"
  shows "on_db (GetLatest (store E)) s = Returns p s' \<Longrightarrow> p = Some c \<Longrightarrow> low R c \<and> last_tip R c"
    and "on_db (BlockStore.GetBlockByIndex (store E) i) s = Returns r s' \<Longrightarrow> r = Inr (Some c) \<Longrightarrow> low R c"
    and "on_db (copy_hello (store E) b) s = Returns t s' \<Longrightarrow> last_tip R b \<Longrightarrow> hb_Index t = 0 \<and> rooted R t"
proof -
  have bk: "low_bucket R (store E) (bucket (db s))" using assms by (simp add: grounded_def)
  show "low R c \<and> last_tip R c" if "on_db (GetLatest (store E)) s = Returns p s'" "p = Some c"
    using that GetLatest_low [OF _ bk] by (auto simp: on_eval split: outcome.splits)
  show "low R c" if "on_db (BlockStore.GetBlockByIndex (store E) i) s = Returns r s'" "r = Inr (Some c)"
    using that GetBlockByIndex_low [OF _ bk] by (auto simp: on_eval split: outcome.splits)
  show "hb_Index t = 0 \<and> rooted R t" if copy: "on_db (copy_hello (store E) b) s = Returns t s'" "last_tip R b"
  proof (cases "hello_ok b")
    case True
    from copy_hello_on_db(1) [OF this, of E s] copy(1) have same: "same_block t b" by auto
    then have "hb_Index t = hb_Index b" by (simp add: same_block_def)
    then show ?thesis using copy(2) True rooted_cong [OF same] by (simp add: last_tip_def)
  next
    case False
    from copy_hello_on_db(2) [OF this, of E s] copy(1) show ?thesis by simp
  qed
qed

text \<open>A download is answered with copies of such blocks.\<close>

lemma collect_blocks_low:
  assumes "collect_blocks E n i s = Returns bs s'" "low_bucket R (store E) (bucket (db s))"
  shows "all_low R bs"
  using assms
proof (induction n arbitrary: i s bs s')
  case 0
  then show ?case by (simp add: prog_simps all_low_def)
next
  case (Suc n)
  show ?case
  proof (cases "on_db (BlockStore.GetBlockByIndex (store E) i) s")
    case (Returns r s1)
    have "bucket (db s1) = bucket (db s)"
      using GetBlockByIndex_state [of "store E" i "db s"] Returns by (auto simp: on_eval split: outcome.splits)
    then have bk: "low_bucket R (store E) (bucket (db s1))" using Suc.prems(2) by simp
    show ?thesis
    proof (cases r)
      case (Inl err)
      with Suc.prems(1) Returns show ?thesis by (simp add: prog_eval all_low_def)
    next
      case (Inr p)
      with Suc.prems(1) Returns obtain c where c: "p = Some c" by (cases p) (auto simp: prog_eval deref_def)
      have "low R c"
        using Returns Inr c GetBlockByIndex_low [OF _ Suc.prems(2)] by (auto simp: on_eval split: outcome.splits)
      show ?thesis
      proof (cases "on_db (copy_hello (store E) c) s1")
        case copy: (Returns d s2)
        then have d: "low R d" using copy_hello_low(1) [OF _ \<open>low R c\<close>] by (auto simp: on_eval split: outcome.splits)
        have "bucket (db s2) = bucket (db s1)"
          using copy_hello_state [of "store E" c "db s1"] copy by (auto simp: on_eval split: outcome.splits)
        with bk have bk2: "low_bucket R (store E) (bucket (db s2))" by simp
        obtain rest s3 where rest: "collect_blocks E n (i + 1) s2 = Returns rest s3" "bs = Some d # rest"
          using Suc.prems(1) Returns Inr c copy
          by (cases "collect_blocks E n (i + 1) s2") (auto simp: prog_eval deref_def)
        from Suc.IH [OF rest(1) bk2] d rest(2) show ?thesis by (auto simp: all_low_def)
      qed (use Suc.prems(1) Returns Inr c in \<open>auto simp: prog_eval deref_def\<close>)
    qed
  qed (use Suc.prems(1) in \<open>auto simp: prog_eval\<close>)
qed

lemma gathered_put: "gathered bb \<Longrightarrow> countersigned E b c \<Longrightarrow> gathered (Buffer_Put c bb)"
  by (auto simp: gathered_def Buffer_Put_def countersigned_def signed_def)

lemma grounded_frame:
  assumes "storage (store E)"
  shows "node_frame E (grounded R E) (low_message R) (low_task R) (low R) (\<lambda>_. True)"
proof unfold_locales
  fix p show "keeps (grounded R E) (on_db (UpdateLatest p))"
  proof (rule keeps_on_db)
    fix s :: "'a Service" assume "grounded R E s"
    moreover have "bucket (final_state (UpdateLatest p d)) = bucket d" for d :: "'a BlockDB"
      by (cases p) (simp_all add: UpdateLatest_def prog_simps)
    ultimately show "grounded R E (s\<lparr>db := final_state (UpdateLatest p (db s))\<rparr>)" by (simp add: grounded_def)
  qed
next
  fix h assume "low R h"
  then show "keeps (grounded R E) (on_db (Store (store E) (Some h)))"
    by (intro keeps_on_db) (simp add: grounded_def storage.store_low [OF assms])
next
  fix msg assume "harmless_message msg"
  then show "low_message R msg" by (cases msg rule: harmless_message.cases) auto
next
  fix t assume "harmless_task t"
  then show "low_task R t" by (cases t rule: harmless_task.cases) auto
next
  fix s s' :: "'a Service" and l g a
  assume "grounded R E s" "on_db (GetLatest (store E)) s = Returns l s'"
  then show "low_message R (HandshakeMessage g l a)" by (cases l) (auto dest: grounded_reads(1))
next
  fix s s' :: "'a Service" and n i bs g
  assume "grounded R E s" "collect_blocks E n i s = Returns bs s'"
  then show "low_message R (DownloadBlockResponse bs g)" using collect_blocks_low by (auto simp: grounded_def)
next
  fix s :: "'a Service" and ps :: peerStorage
  assume "grounded R E s" "peerNodeMap ps \<subseteq>\<^sub>m peerNodeMap (proxyStorage s)"
  then show "grounded R E (s\<lparr>proxyStorage := ps\<rparr>)" by (auto simp: grounded_def map_le_def fun_eq_iff)
qed (auto simp: grounded_def gathered_put put_peer_def drop_peer_def)

section \<open>The operations that handle such blocks\<close>

text \<open>What a leader elects comes from its buffer.\<close>

lemma HalfMore_signed:
  assumes "gathered bb" "blocks = HalfMore keys n bb" "length blocks \<noteq> 0"
  shows "signed_fork (NewDeForkBlock now (map Some blocks))"
proof -
  obtain b bs where b: "blocks = b # bs" using assms(3) by (cases blocks) auto
  then have "b \<in> set (HalfMore keys n bb)" using assms(2) by (metis list.set_intros(1))
  then have "b \<in> set (map_values keys (blockMap bb))" by (simp add: HalfMore_def)
  then have "signed (Some b)" using assms(1) by (auto simp: gathered_def map_values_def List.map_filter_def)
  with b show ?thesis by (simp add: signed_fork_def NewDeForkBlock_def)
qed

lemma leader_counts_low:
  assumes "storage (store E)"
  shows "keeps (grounded R E) (leaderCounts E)"
proof -
  note frame = grounded_frame [OF assms]
  have "keeps (grounded R E) (bnd (gets buffer) (\<lambda>bb.
     let blocks = HalfMore (key_order E (dom (blockMap bb))) n bb in
     if length blocks = 0 then ret ()
     else bnd (read_clock E) (\<lambda>now.
       let deFork = NewDeForkBlock now (map Some blocks) in
       seqp (BroadcastBlock E (PDeFork deFork) RefererBlock) (spawn (NewLeader deFork)))))" for n
    by (rule keeps_bnd_with [where P = gathered])
      (auto intro!: keeps_intros node_frame.keeps_db [OF frame] node_frame.keeps_broadcast [OF frame]
        node_frame.keeps_spawn [OF frame] HalfMore_signed simp: Let_def grounded_def prog_simps simp del: length_0_conv)
  then show ?thesis
    unfolding leaderCounts_def Let_def
    by (auto intro!: keeps_bnd keeps_ret node_frame.keeps_db [OF frame] split: option.split)
qed

lemma new_leader_low:
  assumes "in_origin R E" "signed_fork d"
  shows "keeps (grounded R E) (startNewLeaderHelloBlock E d)"
proof -
  have st: "storage (store E)" using assms(1) by (simp add: in_origin_def)
  note frame = grounded_frame [OF st, of R]
  have elect: "keeps (grounded R E) (bnd (on_db (GetLatest (store E))) (\<lambda>latest.
      case latest of None \<Rightarrow> ret () | Some l \<Rightarrow> spawn (LeaderReady l key d)))"
    if "key \<in> makers R" "first_maker d = Some key" for key
    by (rule keeps_bnd_with [where P = "\<lambda>p. \<forall>c. p = Some c \<longrightarrow> last_tip R c"])
      (use assms(2) that in \<open>auto intro!: keeps_intros node_frame.keeps_db [OF frame] node_frame.keeps_spawn [OF frame]
         dest: grounded_reads(1) split: option.split\<close>)
  show ?thesis
  proof (cases "df_OrderBlocks d")
    case (Cons p ps)
    have own: "key \<in> makers R" if "publicKey E s = Returns key s'" for s s' key
      using that assms(1) by (auto simp: publicKey_eval in_origin_def split: option.splits)
    have "keeps (grounded R E) (bnd (publicKey E) (\<lambda>key.
        if bh_PublicKey (b_Header b) \<noteq> key then ret ()
        else bnd (on_db (GetLatest (store E))) (\<lambda>latest.
          case latest of None \<Rightarrow> ret () | Some l \<Rightarrow> spawn (LeaderReady l (bh_PublicKey (b_Header b)) d))))"
      if "p = Some b" for b
      by (rule keeps_bnd_with [where P = "\<lambda>key. key \<in> makers R"])
        (use Cons that own in \<open>auto intro!: node_frame.keeps_identity [OF frame] keeps_ret elect simp: first_maker_def\<close>)
    note run = this
    show ?thesis
    proof (cases p)
      case None
      then show ?thesis by (simp add: startNewLeaderHelloBlock_def Cons keeps_panics)
    next
      case (Some b)
      have "keeps (grounded R E) (deref p)" by (rule keeps_deref)
      then show ?thesis
        unfolding startNewLeaderHelloBlock_def Cons list.case
        by (rule keeps_bnd_with [where P = "\<lambda>b. p = Some b"]) (use Some run in \<open>auto simp: prog_simps\<close>)
    qed
  qed (simp add: startNewLeaderHelloBlock_def keeps_panics)
qed

text \<open>The block that a leader makes on top of a genesis block is a child of it.\<close>

lemma made_child:
  assumes "in_origin R E" "rooted R t" "hb_Index t = 0" "key \<in> makers R" "first_maker d = Some key"
    and "b = t\<lparr>hb_Index := hb_Index t + 1, hb_Timestamp := now, hb_PrevBlock := slice_copy (hb_PrevBlock t) (hb_Hash t),
      hb_PublicKey := key, hb_Block := Some d\<rparr>" "Hello_CalculateHash b = Inr h"
  shows "rooted R (b\<lparr>hb_Hash := slice_copy (hb_Hash b) (Some h)\<rparr>)"
proof -
  obtain g where g: "g \<in> roots R" "same_block t g \<or> child R g t" using assms(2) by (auto simp: rooted_def)
  moreover have "hb_Index g = 0" using assms(1) g(1) by (simp add: in_origin_def)
  ultimately have t: "same_block t g" using assms(3) by (auto simp: child_def)
  let ?b = "b\<lparr>hb_Hash := slice_copy (hb_Hash b) (Some h)\<rparr>"
  have "Hello_CalculateHash ?b = Inr h"
    using assms(7) by (simp add: Hello_CalculateHash_eq hello_preimage_def)
  moreover have "elected ?b = Some (miners (df_OrderBlocks d))"
    by (simp add: elected_def assms(6))
  then have "\<exists>ks. elected ?b = Some (key # ks)"
    using assms(5) by (auto simp: first_maker_def split: list.splits option.splits)
  moreover have "slice_bytes (slice_copy x y) = go_copy (slice_bytes x) (slice_bytes y)" for x y
    by (cases x) (simp_all add: slice_copy_def)
  ultimately have "child R g ?b"
    using t assms(4,6) by (simp add: child_def same_block_def)
  with g(1) show ?thesis by (auto simp: rooted_def)
qed

lemma leader_ready_low:
  assumes "in_origin R E" "last_tip R l" "signed_fork d" "key \<in> makers R" "first_maker d = Some key"
  shows "keeps (grounded R E) (leaderReady E l key d)"
proof -
  have st: "storage (store E)" using assms(1) by (simp add: in_origin_def)
  note frame = grounded_frame [OF st, of R]
  show ?thesis
    unfolding leaderReady_def
  proof (rule keeps_bnd_with [where P = "\<lambda>t. hb_Index t = 0 \<and> rooted R t"])
    fix t :: NewLeaderHelloBlock
    assume t: "hb_Index t = 0 \<and> rooted R t"
    have made: "keeps (grounded R E) (let tmp = t\<lparr>hb_Index := hb_Index t + 1, hb_Timestamp := now,
             hb_PrevBlock := slice_copy (hb_PrevBlock t) (hb_Hash t), hb_PublicKey := key, hb_Block := Some d\<rparr>
       in case Hello_CalculateHash tmp of
            Inl err \<Rightarrow> ret ()
          | Inr hash \<Rightarrow>
              let tmp = tmp\<lparr>hb_Hash := slice_copy (hb_Hash tmp) (Some hash)\<rparr> in
              seqp (bnd (on_db (Store (store E) (Some tmp))) (\<lambda>_. ret ()))
              (seqp (on_db (UpdateLatest (Some tmp)))
              (seqp (BroadcastBlock E (PHello tmp) NewLeaderHello) (spawn (StartTimer tmp)))))" for now
    proof -
      define b where "b = t\<lparr>hb_Index := hb_Index t + 1, hb_Timestamp := now,
             hb_PrevBlock := slice_copy (hb_PrevBlock t) (hb_Hash t), hb_PublicKey := key, hb_Block := Some d\<rparr>"
      have "low R (b\<lparr>hb_Hash := slice_copy (hb_Hash b) (Some h)\<rparr>)" if "Hello_CalculateHash b = Inr h" for h
        using made_child [OF assms(1) _ _ assms(4,5) b_def that] t assms(3)
        by (simp add: low_def b_def signed_order_def signed_fork_def)
      then show ?thesis
        unfolding b_def [symmetric] Let_def
        by (auto intro!: keeps_intros node_frame.keeps_db [OF frame] node_frame.store_frame [OF frame]
          node_frame.update_frame [OF frame] node_frame.keeps_broadcast [OF frame] node_frame.keeps_spawn [OF frame]
          split: sum.split)
    qed
    show "keeps (grounded R E) (bnd (read_clock E) (\<lambda>now.
       let tmp = t\<lparr>hb_Index := hb_Index t + 1, hb_Timestamp := now,
             hb_PrevBlock := slice_copy (hb_PrevBlock t) (hb_Hash t), hb_PublicKey := key, hb_Block := Some d\<rparr>
       in case Hello_CalculateHash tmp of
            Inl err \<Rightarrow> ret ()
          | Inr hash \<Rightarrow>
              let tmp = tmp\<lparr>hb_Hash := slice_copy (hb_Hash tmp) (Some hash)\<rparr> in
              seqp (bnd (on_db (Store (store E) (Some tmp))) (\<lambda>_. ret ()))
              (seqp (on_db (UpdateLatest (Some tmp)))
              (seqp (BroadcastBlock E (PHello tmp) NewLeaderHello) (spawn (StartTimer tmp))))))"
      by (intro keeps_bnd made) (auto intro!: keeps_intros node_frame.keeps_db [OF frame])
  qed (use assms(2) in \<open>auto intro: node_frame.keeps_db [OF frame] dest: grounded_reads(3)\<close>)
qed

lemma override_low:
  assumes "storage (store E)"
  shows "keeps (grounded R E) (override_blocks E ps index)"
proof (induction ps arbitrary: index)
  case (Cons p ps)
  note frame = grounded_frame [OF assms]
  have fetched: "keeps (grounded R E) (bnd (on_db (BlockStore.GetBlockByIndex (store E) i)) (\<lambda>r.
     let block = (case r of Inl err \<Rightarrow> None | Inr b \<Rightarrow> b) in
     bnd (deref block) (\<lambda>b.
     let index = (if hb_Index b > index then hb_Index b else index) in
     seqp (bnd (on_db (Store (store E) block)) (\<lambda>_. ret ())) (override_blocks E ps index))))" for i index
  proof (rule keeps_bnd_with [where P = "\<lambda>r. \<forall>c. r = Inr (Some c) \<longrightarrow> low R c"])
    fix r :: "NewLeaderHelloBlock option result" assume low: "\<forall>c. r = Inr (Some c) \<longrightarrow> low R c"
    show "keeps (grounded R E) (let block = (case r of Inl err \<Rightarrow> None | Inr b \<Rightarrow> b) in
     bnd (deref block) (\<lambda>b.
     let index = (if hb_Index b > index then hb_Index b else index) in
     seqp (bnd (on_db (Store (store E) block)) (\<lambda>_. ret ())) (override_blocks E ps index)))"
    proof (cases r)
      case (Inr q)
      with low show ?thesis
        by (cases q) (auto intro!: keeps_intros node_frame.store_frame [OF frame] Cons.IH simp: Let_def)
    qed (simp add: keeps_intros)
  qed (auto intro: node_frame.keeps_db [OF frame] dest: grounded_reads(2))
  show ?case unfolding override_blocks.simps by (intro fetched keeps_deref keeps_bnd)
qed (simp add: keeps_intros)

section \<open>Low chains\<close>

lemma grounded_invariant:
  assumes "in_origin R E"
  shows "node_invariant E (low_message R) (grounded R E)"
proof
  have st: "storage (store E)" and root: "low R (genesis_block E)"
    using assms by (auto simp: in_origin_def low_def rooted_def intro: bexI [of _ "genesis_block E"])
  note frame = grounded_frame [OF st, of R]
  show "keeps (grounded R E) (dispatch E env)" if "registered (env_Msg env)" "low_message R (env_Msg env)" for env
  proof -
    have "keeps (grounded R E) (handleDownloadBlockResponse E env)"
      unfolding handleDownloadBlockResponse_def
      by (auto intro!: keeps_intros node_frame.keeps_db [OF frame] node_frame.update_frame [OF frame]
          node_frame.keeps_chain [OF frame] override_low [OF st] split: Msg.split)
    moreover have "keeps (grounded R E) (handleBlockMessage E env)"
      using that(2) by (intro node_frame.keeps_block_message [OF frame]) auto
    ultimately show ?thesis
      unfolding dispatch_def using that
      by (auto intro!: node_frame.keeps_peers [OF frame] node_frame.keeps_handshake [OF frame]
          node_frame.keeps_sync [OF frame] node_frame.keeps_signatures [OF frame]
          node_frame.keeps_proxy_request_silent [OF frame] simp: grounded_def split: Msg.split)
  qed
  show "keeps (grounded R E) (serve E req)" for req
    by (cases req) (auto intro!: keeps_intros node_frame.keeps_peers [OF frame] node_frame.keeps_chain [OF frame]
        node_frame.keeps_genesis [OF frame] node_frame.keeps_block_by_index [OF frame]
        simp: reply_with_def root)
  have clock: "grounded R E (s\<lparr>timerRunning := x\<rparr>) = grounded R E s" for s :: "'a Service" and x
    by (simp add: grounded_def)
  show "grounded R E (final_state (run_task E (spawned s ! i) (remove_task i s)))"
    if s: "grounded R E s" "i < length (spawned s)" for s i
  proof -
    have "low_task R (spawned s ! i)" using s by (simp add: grounded_def)
    then have "keeps (grounded R E) (run_task E (spawned s ! i))"
      by (cases "spawned s ! i")
        (auto intro!: node_frame.keeps_broadcast [OF frame] node_frame.keeps_peers [OF frame]
          node_frame.keeps_group [OF frame] node_frame.keeps_mining [OF frame] node_frame.keeps_timers [OF frame]
          node_frame.keeps_sync [OF frame] leader_counts_low [OF st] new_leader_low [OF assms]
          leader_ready_low [OF assms] keeps_intros simp: mainLoop_def clock)
    moreover have "grounded R E (remove_task i s)"
      using s(1) set_remove_task [of i s] by (auto simp: grounded_def simp del: remove_task_simps(5))
    ultimately show ?thesis by (rule keepsD)
  qed
  have miner: "keeps (grounded R E) (on_miner m)" for m :: "(miner, unit) prog"
    by (rule keeps_on_miner) (simp add: grounded_def)
  show "grounded R E (final_state (seqp (on_miner (generator_step i True)) (minerCallback E block) s))"
    if "grounded R E s" for s i block
    using keeps_seqp [OF miner node_frame.keeps_callback [OF frame TrueI]] that by (rule keepsD)
  show "keeps (grounded R E) (on_miner (event_prog e))" for e by (rule miner)
qed

text \<open>The leader's blocks that a message carries.\<close>

fun carries :: "Msg \<Rightarrow> NewLeaderHelloBlock \<Rightarrow> bool" where
  "carries (BlockMessage _ (Some (PHello c))) b \<longleftrightarrow> b = c"
| "carries (HandshakeMessage _ (Some c) _) b \<longleftrightarrow> b = c"
| "carries (DownloadBlockResponse bs _) b \<longleftrightarrow> Some b \<in> set bs"
| "carries _ b \<longleftrightarrow> False"

lemma carries_low: "low_message R msg \<Longrightarrow> carries msg b \<Longrightarrow> low R b"
  by (cases "(msg, b)" rule: carries.cases) (auto simp: all_low_def)

text \<open>The origin of the blocks of a network: the genesis blocks of its nodes, and their keys.\<close>

definition origin_of :: "('n \<Rightarrow> ('k, 'v) node_env) \<Rightarrow> origin" where
  "origin_of E = \<lparr>roots = range (\<lambda>i. genesis_block (E i)), makers = {key. \<exists>i. si_Public (self (E i)) = Some key}\<rparr>"

lemma grounded_network:
  assumes "\<And>i. storage (store (E i))" "\<And>i. hb_Index (genesis_block (E i)) = 0"
  shows "network_invariant E (low_message (origin_of E)) (\<lambda>i. grounded (origin_of E) (E i))"
  using assms
  by (intro network_invariant.intro grounded_invariant) (auto simp: grounded_def in_origin_def origin_of_def)

lemma grounded_runs:
  assumes "\<And>i. storage (store (E i))" "\<And>i. hb_Index (genesis_block (E i)) = 0"
    and "\<And>i key. bucket_get (store (E i)) (k0 i) key = None"
    and "net_runs E (\<lambda>i. fresh_service (Some (k0 i))) c"
  shows "GetLatest (store (E i)) (db (c i)) = Returns (Some b) d \<Longrightarrow> low (origin_of E) b"
    and "GetByID (store (E i)) h (db (c i)) = Returns (Some b) d \<Longrightarrow> low (origin_of E) b"
    and "(dst, msg) \<in> set (outbox (c i)) \<Longrightarrow> carries msg b \<Longrightarrow> low (origin_of E) b"
proof -
  have "grounded (origin_of E) (E i) (fresh_service (Some (k0 i)))" for i
    using assms(3)
    by (simp add: grounded_def gathered_def low_bucket_def fresh_service_def NewBlockDB_def newBlockBuffer_def)
  from network_invariant.net_runs_keep [OF grounded_network [OF assms(1,2)] assms(4) this]
  have g: "grounded (origin_of E) (E i) (c i)" .
  then have bk: "low_bucket (origin_of E) (store (E i)) (bucket (db (c i)))" by (simp add: grounded_def)
  then show "GetLatest (store (E i)) (db (c i)) = Returns (Some b) d \<Longrightarrow> low (origin_of E) b"
    "GetByID (store (E i)) h (db (c i)) = Returns (Some b) d \<Longrightarrow> low (origin_of E) b"
    using GetLatest_low GetByID_low by blast+
  show "low (origin_of E) b" if "(dst, msg) \<in> set (outbox (c i))" "carries msg b"
  proof (rule carries_low [OF _ that(2)])
    show "low_message (origin_of E) msg" using g that(1) by (auto simp: grounded_def)
  qed
qed

text \<open>
  C1: Chains end at height 1. In a network of nodes that run this code on empty databases, with a
  genesis block of height 0, whatever the schedule and however often messages are repeated or
  misdelivered: no node ever has, fetches or sends, in a broadcast, a greeting or the answer to a
  download, a leader's block above height 1. Every elected
  de-fork block is signed, so a block of height 1 elects signed blocks, and the leader that should
  extend it panics on the copy of a copy. The stores keep the promises of \<open>storage\<close>.
\<close>

theorem chains_end_at_height_one:
  assumes "\<And>i. storage (store (E i))" "\<And>i. hb_Index (genesis_block (E i)) = 0"
    and "\<And>i key. bucket_get (store (E i)) (k0 i) key = None"
    and "net_runs E (\<lambda>i. fresh_service (Some (k0 i))) c"
  shows "(\<forall>b d. GetLatest (store (E i)) (db (c i)) = Returns (Some b) d \<longrightarrow> hb_Index b \<le> 1) \<and>
    (\<forall>h b d. GetByID (store (E i)) h (db (c i)) = Returns (Some b) d \<longrightarrow> hb_Index b \<le> 1) \<and>
    (\<forall>dst msg b. (dst, msg) \<in> set (outbox (c i)) \<longrightarrow> carries msg b \<longrightarrow> hb_Index b \<le> 1)"
proof -
  have "hb_Index b \<le> 1" if "low (origin_of E) b" for b using that by (auto simp: low_def)
  with grounded_runs [OF assms] show ?thesis by blast
qed

text \<open>Two nodes, one of which has created its genesis block.\<close>

lemma genesis_run:
  assumes "store Ev = mem_env" "hello_ok (genesis_block Ev)" "hb_Hash (genesis_block Ev) = Some h" "fits h"
  obtains s b where "net_runs (\<lambda>i :: bool. Ev) (\<lambda>i. fresh_service (Some [])) ((\<lambda>i. fresh_service (Some []))(True := s))"
    "GetLatest mem_env (db s) = Returns (Some b) (tick (db s))"
proof -
  let ?c = "\<lambda>i :: bool. fresh_service (Some ([] :: (bytes \<times> Message) list))"
  let ?s = "final_state (serve Ev ReqGenesisBlock (?c True))"
  have "node_step Ev (\<lambda>_. False) (?c True) ?s" by (rule node_step.call)
  then have run: "net_runs (\<lambda>_. Ev) ?c (?c(True := ?s))"
    by (intro net_runs.step [OF net_runs.start] net_step.act) simp
  have "bucket (db (?c True)) \<noteq> None" "\<not> latestMutex (db (?c True))" "\<not> createBlockChainMutex (?c True)"
    "latestBlockID (db (?c True)) = None" by (simp_all add: fresh_service_def NewBlockDB_def)
  moreover have "storage (store Ev)" "writable (store Ev)"
    by (simp_all add: assms(1) mem.storage_axioms mem_writable)
  ultimately obtain s1 where s1: "CreateGenesisBlock Ev (?c True) = Returns (Inr (genesis_block Ev)) s1"
      "tip Ev s1 (genesis_block Ev)"
    using assms(2-4) CreateGenesis_accepted [of Ev "?c True" h] by metis
  then have "?s = s1" by (simp add: reply_with_def prog_simps)
  moreover obtain b where "on_db (GetLatest (store Ev)) s1 = Returns (Some b) (ticked s1)"
    using s1(2) by (rule GetLatest_tip)
  then have "GetLatest mem_env (db s1) = Returns (Some b) (tick (db s1))"
    unfolding assms(1) on_eval by (cases "GetLatest mem_env (db s1)") (auto dest: arg_cong [of _ _ db])
  ultimately show thesis using run that by simp
qed

lemma mem_empty: "bucket_get mem_env [] key = None"
  by (simp add: mem_env_def)

definition genesis_env :: "((bytes \<times> Message) list, Message) node_env" where
  "genesis_env = sample_env\<lparr>genesis_block := (sample_hello [])\<lparr>hb_Index := 0\<rparr>\<rparr>"

lemma chains_end_at_height_one_witness:
  "\<exists>c b d. net_runs (\<lambda>i :: bool. genesis_env) (\<lambda>i. fresh_service (Some [])) c \<and>
    GetLatest mem_env (db (c True)) = Returns (Some b) d \<and> hb_Index b \<le> 1"
proof -
  have store: "store genesis_env = mem_env" and g0: "hb_Index (genesis_block genesis_env) = 0"
    by (simp_all add: genesis_env_def sample_env_def)
  have "hello_ok (genesis_block genesis_env)" "hb_Hash (genesis_block genesis_env) = Some [2]" "fits [2]"
    by (simp_all add: genesis_env_def hello_ok_def sample_hello_def NewDeForkBlock_def fits_def)
  with store obtain s b where
    run: "net_runs (\<lambda>i :: bool. genesis_env) (\<lambda>i. fresh_service (Some [])) ((\<lambda>i. fresh_service (Some []))(True := s))" and
    b: "GetLatest mem_env (db s) = Returns (Some b) (tick (db s))" by (rule genesis_run)
  have "hb_Index b \<le> 1"
    using chains_end_at_height_one [of "\<lambda>_. genesis_env" "\<lambda>_. []" _ True] run b mem_empty
    by (simp add: store mem.storage_axioms g0)
  with run b show ?thesis by fastforce
qed

section \<open>Where blocks come from\<close>

text \<open>A leader's block is seen at a node: its latest one, one it can fetch, or one it has sent.\<close>

definition seen :: "('k, 'v) node_env \<Rightarrow> 'k Service \<Rightarrow> NewLeaderHelloBlock \<Rightarrow> bool" where
  "seen E s b \<longleftrightarrow> (\<exists>d. GetLatest (store E) (db s) = Returns (Some b) d) \<or>
     (\<exists>h d. GetByID (store E) h (db s) = Returns (Some b) d) \<or>
     (\<exists>dst msg. (dst, msg) \<in> set (outbox s) \<and> carries msg b)"

text \<open>
  C2: Where blocks come from. In a network of nodes that run this code on empty databases with the same
  genesis block, of height 0, whatever the schedule and the network do: every leader's block that a node
  has as its latest, can fetch or sends (in a broadcast, a greeting or the answer to a download) is the
  genesis block, or a block of height 1 that a node of the network made under its key and that elects a
  block of that maker first. Its two hashes are written into the slices of the genesis block by Go's
  \<open>copy\<close>, so they are what fits there: with a genesis block whose \<open>PrevBlock\<close> is as long as its hash the
  block names the hash of the genesis block, with a hash of 32 bytes it carries its own hash, and with an
  empty \<open>PrevBlock\<close> it names no previous block at all.
\<close>

theorem blocks_extend_genesis:
  assumes "\<And>i. storage (store (E i))" "\<And>i. genesis_block (E i) = g" "hb_Index g = 0"
    and "\<And>i key. bucket_get (store (E i)) (k0 i) key = None"
    and "net_runs E (\<lambda>i. fresh_service (Some (k0 i))) c" "seen (E i) (c i) b"
  defines "prev \<equiv> slice_bytes (hb_PrevBlock g)" and "hash \<equiv> slice_bytes (hb_Hash g)"
  shows "same_block b g \<or>
    (hb_Index b = 1 \<and> (\<exists>j. si_Public (self (E j)) = Some (hb_PublicKey b)) \<and>
     (\<exists>ks. elected b = Some (hb_PublicKey b # ks)) \<and>
     slice_bytes (hb_PrevBlock b) = go_copy prev hash \<and>
     (\<exists>h. Hello_CalculateHash b = Inr h \<and> slice_bytes (hb_Hash b) = go_copy hash h) \<and>
     (length prev = length hash \<longrightarrow> slice_bytes (hb_PrevBlock b) = hash) \<and>
     (length hash = 32 \<longrightarrow> Hello_CalculateHash b = Inr (slice_bytes (hb_Hash b))) \<and>
     (prev = [] \<longrightarrow> slice_bytes (hb_PrevBlock b) = []))"
proof -
  have "hb_Index (genesis_block (E i)) = 0" for i using assms(2,3) by simp
  from grounded_runs [OF assms(1) this assms(4,5)] assms(6) have "low (origin_of E) b" unfolding seen_def by blast
  then have "same_block b g \<or> child (origin_of E) g b"
    using assms(2) by (auto simp: low_def rooted_def origin_of_def)
  then show ?thesis
    using assms(3) unfolding prev_def hash_def
    by (auto simp: child_def origin_of_def go_copy_same_length Hello_CalculateHash_eq go_copy_def)
qed

definition full_env :: "((bytes \<times> Message) list, Message) node_env" where
  "full_env = sample_env\<lparr>genesis_block :=
     (sample_hello [])\<lparr>hb_Index := 0, hb_Hash := Some (replicate 32 2), hb_PrevBlock := None\<rparr>\<rparr>"

lemma blocks_extend_genesis_witness:
  "\<exists>c b. net_runs (\<lambda>i :: bool. full_env) (\<lambda>i. fresh_service (Some [])) c \<and> seen full_env (c True) b \<and>
    (same_block b (genesis_block full_env) \<or> hb_Index b = 1 \<and> slice_bytes (hb_PrevBlock b) = [])"
proof -
  let ?g = "genesis_block full_env"
  have g: "hb_Index ?g = 0" "slice_bytes (hb_PrevBlock ?g) = []"
    and store: "store full_env = mem_env" and hash: "hello_ok ?g" "hb_Hash ?g = Some (replicate 32 2)" "fits (replicate 32 2)"
    by (simp_all add: full_env_def sample_env_def hello_ok_def sample_hello_def NewDeForkBlock_def fits_def)
  from store hash obtain s b where
    run: "net_runs (\<lambda>i :: bool. full_env) (\<lambda>i. fresh_service (Some [])) ((\<lambda>i. fresh_service (Some []))(True := s))" and
    b: "GetLatest mem_env (db s) = Returns (Some b) (tick (db s))" by (rule genesis_run)
  from b have "seen full_env s b" by (auto simp: seen_def store)
  with blocks_extend_genesis [of "\<lambda>_. full_env" ?g "\<lambda>_. []" _ True b] run g mem_empty
  have "same_block b ?g \<or> hb_Index b = 1 \<and> slice_bytes (hb_PrevBlock b) = []" by (auto simp: store mem.storage_axioms)
  with run \<open>seen full_env s b\<close> show ?thesis by (intro exI [of _ "(\<lambda>i. fresh_service (Some []))(True := s)"]) auto
qed

section \<open>Silence\<close>

interpretation silent: network_invariant E ungated "\<lambda>_. no_gateways" for E
proof (rule network_invariant.intro)
  have "node_invariant E (\<lambda>_. True) no_gateways \<Longrightarrow> node_invariant E ok no_gateways" for E :: "('b, 'c) node_env" and ok
    by (simp add: node_invariant_def)
  then show "node_invariant (E i) ungated no_gateways" for i
    using gateway_runs.node_invariant_axioms by blast
qed (auto simp: no_gateways_def)

end
