(* ===== verification/Candidates.thy ===== *)
theory Candidates
  imports Network
begin

text \<open>
  The candidate blocks of a network of nodes on this code, from the nonce search of a miner (Solver,
  Miner) over the messages to the buffers of all nodes: each of them is worth its target, carries
  exactly one signature in every buffer, and so no leader elects a block on a chain of positive height.
\<close>

section \<open>Blocks with work\<close>

definition proved :: "Block \<Rightarrow> bool" where
  "proved b \<longleftrightarrow> meets b \<and> slice_bytes (b_Hash b) = rev (sha256 (block_preimage b))"

definition candidate_block :: "Block \<Rightarrow> bool" where
  "candidate_block b \<longleftrightarrow> proved b \<and> b_Collections b = []"

lemma finds_candidate: "finds b block \<Longrightarrow> b_Collections b = [] \<Longrightarrow> candidate_block block"
  by (auto simp: finds_def candidate_block_def proved_def mined_def with_nonce_def meets_def block_preimage_def
      block_target_def dest!: generateBlocks_found)

lemma countersigned_proved: "countersigned E b c \<Longrightarrow> proved b \<Longrightarrow> proved c"
  by (auto simp: countersigned_def proved_def meets_def block_preimage_def block_target_def Header_Copy_def Let_def)

text \<open>A de-fork block that is backed by work: it elects at least one block, and only proved ones, each with one signature.\<close>

definition backed :: "DeForkBlock \<Rightarrow> bool" where
  "backed d \<longleftrightarrow> df_OrderBlocks d \<noteq> [] \<and>
     (\<forall>p\<in>set (df_OrderBlocks d). \<exists>b. p = Some b \<and> proved b \<and> length (b_Collections b) = 1)"

definition worked :: "NewLeaderHelloBlock \<Rightarrow> bool" where
  "worked b \<longleftrightarrow> hb_Index b = 0 \<or> (\<exists>d. hb_Block b = Some d \<and> backed d)"

section \<open>The invariant of a node\<close>

fun candidate_message :: "Msg \<Rightarrow> bool" where
  "candidate_message (BlockMessage _ (Some (PBlock b))) = candidate_block b"
| "candidate_message (BlockMessage _ (Some (PDeFork d))) = backed d"
| "candidate_message (BlockMessage _ (Some (PHello b))) = worked b"
| "candidate_message msg = ungated msg"

fun candidate_task :: "task \<Rightarrow> bool" where
  "candidate_task (Broadcast (PBlock b) _) = candidate_block b"
| "candidate_task (Broadcast (PDeFork d) _) = backed d"
| "candidate_task (Broadcast (PHello b) _) = worked b"
| "candidate_task (NewLeader d) = backed d"
| "candidate_task (LeaderReady _ _ d) = backed d"
| "candidate_task _ = True"

definition unsigned_work :: "miner \<Rightarrow> bool" where
  "unsigned_work m \<longleftrightarrow> (\<forall>b. miner_block m = Some b \<longrightarrow> b_Collections b = []) \<and>
     (\<forall>inner b. GRunning inner (Some b) \<in> set (generators m) \<longrightarrow> b_Collections b = [])"

definition buffered_once :: "('k, 'v) node_env \<Rightarrow> blockBuffer \<Rightarrow> bool" where
  "buffered_once E bb \<longleftrightarrow> (\<forall>key b. blockMap bb key = Some b \<longrightarrow> proved b \<and> key = go_string (b_Hash b) \<and>
     (\<exists>me. si_Public (self E) = Some me \<and> b_Collections b = [Some (newCollection (store E) me)]))"

definition sound_candidates :: "('k, 'v) node_env \<Rightarrow> 'k Service \<Rightarrow> bool" where
  "sound_candidates E s \<longleftrightarrow> peerNodeMap (proxyStorage s) = Map.empty \<and> unsigned_work (the_miner s) \<and>
     buffered_once E (buffer s) \<and> (\<forall>m\<in>set (outbox s). candidate_message (snd m)) \<and>
     (\<forall>t\<in>set (spawned s). candidate_task t)"

lemma unsigned_Start: "unsigned_work m \<Longrightarrow> b_Collections b = [] \<Longrightarrow> unsigned_work (final_state (Start (Some b) m))"
  by (auto simp: unsigned_work_def Start_def prog_simps)

lemma unsigned_Stop: "unsigned_work m \<Longrightarrow> unsigned_work (final_state (Stop m))"
  by (cases "miner_quit m") (auto simp: unsigned_work_def Stop_def close_chan_def prog_simps)

lemma unsigned_worker: "unsigned_work m \<Longrightarrow> unsigned_work (final_state (worker_step i m))"
  by (auto simp: unsigned_work_def worker_step_def close_chan_def prog_simps split: worker.split option.split)

lemma unsigned_generator: "unsigned_work m \<Longrightarrow> unsigned_work (final_state (generator_step i solved m))"
  by (auto simp: unsigned_work_def generator_step_def split: generator.split
      dest!: subsetD [OF set_update_subset_insert])

lemma buffered_put:
  assumes "buffered_once E bb" "candidate_block b" "countersigned E b c"
  shows "buffered_once E (Buffer_Put c bb)"
  using assms countersigned_proved [OF assms(3)]
  by (auto simp: buffered_once_def Buffer_Put_def candidate_block_def countersigned_def)

lemma harmless_candidate: "harmless_message msg \<Longrightarrow> candidate_message msg"
  by (cases msg rule: harmless_message.cases) auto

lemma harmless_candidate_task: "harmless_task t \<Longrightarrow> candidate_task t"
  by (cases t rule: harmless_task.cases) auto

interpretation sound: node_frame E "sound_candidates E" candidate_message candidate_task "\<lambda>_. True" candidate_block for E
proof unfold_locales
  fix s :: "'a Service" and ps :: peerStorage
  assume "sound_candidates E s" "peerNodeMap ps \<subseteq>\<^sub>m peerNodeMap (proxyStorage s)"
  then show "sound_candidates E (s\<lparr>proxyStorage := ps\<rparr>)" by (auto simp: sound_candidates_def map_le_def fun_eq_iff)
next
  fix p show "keeps (sound_candidates E) (on_db (UpdateLatest p))" by (rule keeps_on_db) (simp add: sound_candidates_def)
next
  fix h show "keeps (sound_candidates E) (on_db (Store (store E) (Some h)))"
    by (rule keeps_on_db) (simp add: sound_candidates_def)
qed (auto simp: sound_candidates_def harmless_candidate harmless_candidate_task put_peer_def drop_peer_def
    unsigned_Start unsigned_Stop buffered_put)

text \<open>What a leader elects comes from its buffer.\<close>

lemma elected_backed:
  assumes "buffered_once E bb" "blocks = HalfMore keys n bb" "blocks \<noteq> []"
  shows "backed (NewDeForkBlock now (map Some blocks))"
proof -
  have "proved b \<and> length (b_Collections b) = 1" if "b \<in> set blocks" for b
    using that assms(1,2) by (fastforce simp: HalfMore_def map_values_def List.map_filter_def buffered_once_def)
  with assms(3) show ?thesis by (auto simp: backed_def NewDeForkBlock_def)
qed

lemma leader_counts_backed: "keeps (sound_candidates E) (leaderCounts E)"
proof -
  have "keeps (sound_candidates E) (bnd (gets buffer) (\<lambda>bb.
     let blocks = HalfMore (key_order E (dom (blockMap bb))) n bb in
     if length blocks = 0 then ret ()
     else bnd (read_clock E) (\<lambda>now.
       let deFork = NewDeForkBlock now (map Some blocks) in
       seqp (BroadcastBlock E (PDeFork deFork) RefererBlock) (spawn (NewLeader deFork)))))" for n
    by (rule keeps_bnd_with [where P = "buffered_once E"])
      (auto intro!: keeps_intros sound.keeps_db sound.keeps_broadcast sound.keeps_spawn elected_backed
        simp: Let_def sound_candidates_def prog_simps)
  then show ?thesis
    unfolding leaderCounts_def Let_def
    by (auto intro!: keeps_bnd keeps_ret sound.keeps_db split: option.split)
qed

lemma leader_ready_backed: "backed d \<Longrightarrow> keeps (sound_candidates E) (leaderReady E l key d)"
  unfolding leaderReady_def
  by (auto intro!: keeps_intros sound.keeps_db sound.store_frame sound.update_frame sound.keeps_broadcast sound.keeps_spawn
      simp: Let_def worked_def split: sum.split)

lemma sound_invariant:
  assumes "hb_Index (genesis_block E) = 0"
  shows "node_invariant E candidate_message (sound_candidates E)"
proof
  show "keeps (sound_candidates E) (dispatch E env)"
    if "registered (env_Msg env)" "candidate_message (env_Msg env)" for env
  proof -
    have "keeps (sound_candidates E) (handleBlockMessage E env)"
      using that(2) by (intro sound.keeps_block_message) auto
    moreover have "keeps (sound_candidates E) (handleProxyRequest E env)"
      by (rule sound.keeps_proxy_request_silent) (simp add: sound_candidates_def)
    moreover have "keeps (sound_candidates E) (handleDownloadBlockResponse E env)"
      by (rule sound.keeps_download_response) simp
    ultimately show ?thesis
      unfolding dispatch_def using that
      by (auto intro!: sound.keeps_peers sound.keeps_handshake sound.keeps_sync
          sound.keeps_signatures split: Msg.split)
  qed
  show "keeps (sound_candidates E) (serve E req)" for req
    by (cases req) (auto intro!: keeps_intros sound.keeps_peers sound.keeps_chain sound.keeps_genesis
        sound.keeps_block_by_index simp: reply_with_def worked_def assms simp del: bnd_panics)
  have clock: "sound_candidates E (s\<lparr>timerRunning := x\<rparr>) = sound_candidates E s" for s x
    by (simp add: sound_candidates_def)
  show "sound_candidates E (final_state (run_task E (spawned s ! i) (remove_task i s)))"
    if s: "sound_candidates E s" "i < length (spawned s)" for s i
  proof -
    have task: "candidate_task (spawned s ! i)" using s by (simp add: sound_candidates_def)
    then have "candidate_message (BlockMessage ty (Some p))" if "spawned s ! i = Broadcast p ty" for p ty
      using that by (cases p) simp_all
    with task have "keeps (sound_candidates E) (run_task E (spawned s ! i))"
      by (cases "spawned s ! i")
        (auto intro!: sound.keeps_broadcast sound.keeps_peers sound.keeps_group sound.keeps_mining
          sound.keeps_timers leader_counts_backed sound.keeps_new_leader leader_ready_backed
          sound.keeps_sync keeps_intros simp: mainLoop_def clock)
    moreover have "sound_candidates E (remove_task i s)"
      using s(1) set_remove_task [of i s] by (auto simp: sound_candidates_def remove_task_def simp del: remove_task_simps(5))
    ultimately show ?thesis by (rule keepsD)
  qed
  have moves: "keeps (sound_candidates E) (on_miner (worker_step i))"
    "keeps (sound_candidates E) (on_miner (generator_step i solved))" for i solved
    unfolding on_miner_def by (rule keeps_on, simp add: sound_candidates_def unsigned_worker unsigned_generator)+
  show "sound_candidates E (final_state (seqp (on_miner (generator_step i True)) (minerCallback E block) s))"
    if s: "sound_candidates E s" "i < length (generators (the_miner s))"
      "generators (the_miner s) ! i = GRunning inner (Some b)" "finds b block" for s i inner b block
  proof -
    have "GRunning inner (Some b) \<in> set (generators (the_miner s))" using s(2,3) nth_mem by metis
    then have "b_Collections b = []" using s(1) by (auto simp: sound_candidates_def unsigned_work_def)
    with s(4) have "candidate_block block" by (rule finds_candidate)
    from keeps_seqp [OF moves(2) sound.keeps_callback [OF this]] s(1) show ?thesis by (rule keepsD)
  qed
  show "keeps (sound_candidates E) (on_miner (event_prog e))" if "scheduled e" for e
    using that by (cases e) (auto intro: moves)
qed

section \<open>All buffers of a network\<close>

lemma sound_network:
  assumes "\<And>i. hb_Index (genesis_block (E i)) = 0"
  shows "network_invariant E candidate_message (\<lambda>i. sound_candidates (E i))"
  by (rule network_invariant.intro [OF sound_invariant [OF assms]]) (force simp: sound_candidates_def)

lemma sint_few: "(n :: u64) \<le> 11 \<Longrightarrow> 0 \<le> sint n"
proof -
  assume "n \<le> 11"
  then have "uint n \<le> 11" by (simp add: word_le_def)
  then have "uint n < 2 ^ 63" by simp
  then show ?thesis by (simp add: sint_uint signed_take_bit_eq_if_positive bit_iff_odd)
qed

lemma HalfMore_single:
  assumes "\<And>key b. blockMap bb key = Some b \<Longrightarrow> length (b_Collections b) \<le> 1" "0 < n" "n \<le> 11"
  shows "HalfMore keys n bb = []"
proof -
  have "sint n \<noteq> 0" using assms(2) signed_eq_0_iff [of n] by auto
  with sint_few [OF assms(3)] have "1 \<le> sint n" by simp
  moreover have "length (b_Collections b) \<le> 1" if "b \<in> set (map_values keys (blockMap bb))" for b
    using that assms(1) by (auto simp: map_values_def List.map_filter_def)
  ultimately show ?thesis by (fastforce simp: HalfMore_def filter_empty_conv)
qed

text \<open>
  C4: Work and signatures in a network. In a network of nodes that run this code, from empty states, with
  genesis blocks of height 0 and under every schedule and loss, repetition or misdelivery of messages:
  every candidate block that is sent is unsigned and meets the target of its bits; every buffered block
  meets it too, is filed under its hash, which is the reversed hash of its contents, and carries exactly
  one signature, that of the node itself. So \<open>HalfMore\<close> finds nothing whenever it asks for one signature
  or more: leaders only elect on top of a block of height 0. And every de-fork block, and every leader's
  block above height 0, that is sent elects at least one block, and only ones with that work.
\<close>

theorem candidates_proved_and_signed_once:
  assumes "\<And>i. hb_Index (genesis_block (E i)) = 0" "net_runs E (\<lambda>i. fresh_service (k0 i)) c"
  shows "(\<forall>dst ty b. (dst, BlockMessage ty (Some (PBlock b))) \<in> set (outbox (c i)) \<longrightarrow> meets b \<and> b_Collections b = []) \<and>
    (\<forall>key b. blockMap (buffer (c i)) key = Some b \<longrightarrow> meets b \<and> key = go_string (b_Hash b) \<and>
       slice_bytes (b_Hash b) = rev (sha256 (block_preimage b)) \<and>
       (\<exists>me. si_Public (self (E i)) = Some me \<and> b_Collections b = [Some (newCollection (store (E i)) me)])) \<and>
    (\<forall>n keys. 0 < n \<and> n \<le> 11 \<longrightarrow> HalfMore keys n (buffer (c i)) = []) \<and>
    (\<forall>dst ty d. (dst, BlockMessage ty (Some (PDeFork d))) \<in> set (outbox (c i)) \<longrightarrow> backed d) \<and>
    (\<forall>dst ty b. (dst, BlockMessage ty (Some (PHello b))) \<in> set (outbox (c i)) \<and> hb_Index b \<noteq> 0 \<longrightarrow>
       (\<exists>d. hb_Block b = Some d \<and> backed d))"
proof -
  have "sound_candidates (E i) (fresh_service (k0 i))" for i
    by (simp add: sound_candidates_def fresh_service_def New_def unsigned_work_def buffered_once_def newBlockBuffer_def)
  with network_invariant.net_runs_keep [OF sound_network [OF assms(1)] assms(2)]
  have sound: "sound_candidates (E i) (c i)" by blast
  then have buffered: "buffered_once (E i) (buffer (c i))" by (simp add: sound_candidates_def)
  then have "length (b_Collections b) \<le> 1" if "blockMap (buffer (c i)) key = Some b" for key b
    using that by (fastforce simp: buffered_once_def)
  with HalfMore_single have "HalfMore keys n (buffer (c i)) = []" if "0 < n" "n \<le> 11" for n keys using that by blast
  moreover have "candidate_message msg" if "(dst, msg) \<in> set (outbox (c i))" for dst msg
    using sound that by (force simp: sound_candidates_def)
  note sent = this
  have "meets b \<and> b_Collections b = []" if "(dst, BlockMessage ty (Some (PBlock b))) \<in> set (outbox (c i))" for dst ty b
    using sent [OF that] by (simp add: candidate_block_def proved_def)
  moreover have "\<exists>d. hb_Block b = Some d \<and> backed d"
    if "(dst, BlockMessage ty (Some (PHello b))) \<in> set (outbox (c i))" "hb_Index b \<noteq> 0" for dst ty b
    using sent [OF that(1)] that(2) by (simp add: worked_def)
  moreover have "backed d" if "(dst, BlockMessage ty (Some (PDeFork d))) \<in> set (outbox (c i))" for dst ty d
    using sent [OF that] by simp
  ultimately show ?thesis using buffered by (auto simp: buffered_once_def proved_def)
qed

lemma candidates_proved_and_signed_once_witness:
  "\<exists>c. net_runs (\<lambda>i :: bool. genesis_env) (\<lambda>i. fresh_service (Some [])) c \<and>
    c True \<noteq> fresh_service (Some []) \<and> HalfMore [''A''] 1 (buffer (c True)) = []"
proof -
  let ?n = "fresh_service (Some ([] :: (bytes \<times> Message) list))"
  let ?s = "final_state (serve genesis_env (ReqProxy ''add'' [''tls://g:1'']) ?n)"
  have "node_step genesis_env (\<lambda>_. False) ?n ?s" by (rule node_step.call)
  then have run: "net_runs (\<lambda>i :: bool. genesis_env) (\<lambda>i. ?n) ((\<lambda>i. ?n)(True := ?s))"
    by (intro net_runs.step [OF net_runs.start] net_step.act) simp
  have "addressMap ?s \<noteq> addressMap ?n" by (simp add: client_defs prog_simps fresh_service_def)
  then have "?s \<noteq> ?n" by (rule contrapos_nn) simp
  moreover have "HalfMore [''A''] 1 (buffer (((\<lambda>i :: bool. ?n)(True := ?s)) True)) = []"
    using candidates_proved_and_signed_once [OF _ run, of True] by (simp add: genesis_env_def)
  ultimately show ?thesis using run by (intro exI [of _ "(\<lambda>i. ?n)(True := ?s)"]) simp
qed

end
