(* ===== verification/Election.thy ===== *)
theory Election
  imports Invariants
begin

text \<open>
  service/service.go, a whole round: the run of a node from the genesis block over its timer, a
  candidate block and the leader's count to the block of height 1.
\<close>

section \<open>Reading the chain keeps the latest block\<close>

lemma tip_on_db:
  assumes "\<And>d. final_state (m d) = d \<or> final_state (m d) = tick d"
  shows "keeps (\<lambda>s. tip E s g) (on_db m)"
proof (rule keeps_on_db)
  fix s :: "'a Service" assume "tip E s g"
  with assms [of "db s"] show "tip E (s\<lparr>db := final_state (m (db s))\<rparr>) g" by (auto simp: tip_def)
qed

lemma tip_GetLatest: "keeps (\<lambda>s. tip E s g) (on_db (GetLatest (store E)))"
proof (rule keepsI)
  fix s assume tip: "tip E s g"
  then obtain c where "on_db (GetLatest (store E)) s = Returns (Some c) (ticked s)" by (rule GetLatest_tip)
  with tip show "tip E (final_state (on_db (GetLatest (store E)) s)) g" by (simp add: tip_def)
qed

lemma tip_member: "keeps (\<lambda>s. tip E s g) (isBFTMember E)"
proof -
  have key: "keeps (\<lambda>s. tip E s g) (publicKey E)"
    by (rule keepsI) (simp add: publicKey_eval split: option.split)
  have "keeps (\<lambda>s. tip E s g) (on_db (GetByID (store E) h))" for h
    using GetByID_state [of "store E" h] by (intro tip_on_db) auto
  then have "keeps (\<lambda>s. tip E s g) (member_walk E n p)" for n p
    by (induction n arbitrary: p)
      (auto intro!: keeps_intros key split: option.split)
  then show ?thesis unfolding isBFTMember_def by (intro keeps_intros tip_GetLatest)
qed

lemma linked_cong: "db s' = db s \<Longrightarrow> linked E s' bs prev = linked E s bs prev"
  by (induction bs arbitrary: prev) simp_all

section \<open>The parts of a round\<close>

text \<open>The node belongs to the group: as the maker of the latest block, or of one of the ten before it.\<close>

definition group_member :: "('k, 'v) node_env \<Rightarrow> 'k Service \<Rightarrow> bool" where
  "group_member E s \<longleftrightarrow>
     (\<forall>t. db t = db s \<longrightarrow> (\<exists>t'. isBFTMember E t = Returns True t' \<and> t'\<lparr>db := db t\<rparr> = t))"

lemma linked_group_member:
  assumes "si_Public (self E) = Some me" "tip E s g" "linked E s bs (hb_PrevBlock g)"
    and "me \<in> hb_PublicKey ` set (take 11 (g # bs))"
  shows "group_member E s"
  using isBFTMember_linked [OF assms(1)] tip_cong [of _ s E g] linked_cong [of _ s E] assms(2-4)
  unfolding group_member_def by metis

lemma isBFTMember_maker:
  assumes "si_Public (self E) = Some me" "tip E t g" "hb_PublicKey g = me"
  shows "isBFTMember E t = Returns True (ticked t)"
proof -
  obtain c where "on_db (GetLatest (store E)) t = Returns (Some c) (ticked t)" "copy_of c g"
    using assms(2) by (rule GetLatest_copy)
  then show ?thesis
    using assms(1,3)
    by (simp add: isBFTMember_def prog_eval publicKey_eval COSI_MEMBERS_def numeral_eq_Suc copy_of_def same_block_def)
qed

lemma maker_group_member:
  assumes "si_Public (self E) = Some me" "tip E s g" "hb_PublicKey g = me"
  shows "group_member E s"
proof -
  have "isBFTMember E t = Returns True (ticked t)" if "db t = db s" for t :: "'a Service"
    using isBFTMember_maker [OF assms(1) _ assms(3)] assms(2) tip_cong [OF that, of E] by simp
  then show ?thesis by (simp add: group_member_def ticked_def)
qed

text \<open>When the timer of a member that leads fires, the count starts.\<close>

lemma timerFired_leader:
  assumes "si_Public (self E) = Some me" "tip E s g" "group_member E s" "elected g = Some (me # es)"
    and "miner_ok (the_miner s)"
  obtains s' where "timerFired E b s = Returns () s'" "tip E s' g" "buffer s' = buffer s" "outbox s' = outbox s"
    "peerStorage s' = peerStorage s" "\<not> timerRunning s'" "spawned s' = spawned s @ [ProposeBlocks b, LeaderCounts]"
proof -
  obtain m where m: "Stop (the_miner s) = Returns () m"
    using miner_okD(3,4) [OF assms(5)] by (cases "started (the_miner s)") (auto simp: Stop_def close_chan_def prog_simps)
  let ?s = "s\<lparr>the_miner := m, timerRunning := False\<rparr>"
  have tip: "tip E ?s g" using assms(2) by (simp add: tip_def)
  have "db ?s = db s" by simp
  with assms(3) obtain t where t: "isBFTMember E ?s = Returns True t" "t\<lparr>db := db ?s\<rparr> = ?s"
    unfolding group_member_def by metis
  have frame: "buffer t = buffer s" "outbox t = outbox s" "peerStorage t = peerStorage s" "\<not> timerRunning t"
    "spawned t = spawned s"
    using arg_cong [OF t(2), of buffer] arg_cong [OF t(2), of outbox] arg_cong [OF t(2), of peerStorage]
      arg_cong [OF t(2), of timerRunning] arg_cong [OF t(2), of spawned] by simp_all
  let ?t = "t\<lparr>spawned := spawned s @ [ProposeBlocks b]\<rparr>"
  have "tip E t g" using keepsD [OF tip_member tip] t(1) by simp
  then have tip_t: "tip E ?t g" by (simp add: tip_def)
  then have leads: "isLeader E ?t = Returns True (ticked ?t)"
    using isLeader_tip [OF assms(1) tip_t assms(4)] by simp
  let ?s' = "(ticked ?t)\<lparr>spawned := spawned s @ [ProposeBlocks b, LeaderCounts]\<rparr>"
  have "timerFired E b s = Returns () ?s'"
    using m t(1) leads
    by (simp add: timerFired_def stopMiner_def prog_eval on_eval' whenp_eval spawn_eval frame ticked_def)
  moreover have "tip E ?s' g" using tip_t by (simp add: tip_def ticked_def)
  ultimately show thesis by (rule that) (simp_all add: frame ticked_def)
qed

text \<open>How many signatures the leader asks for: \<open>memberLen\<close>.\<close>

definition quorum :: "NewLeaderHelloBlock \<Rightarrow> u64" where
  "quorum g = (if hb_Index g < of_nat COSI_MEMBERS then hb_Index g else of_nat COSI_MEMBERS)"

lemma leaderCounts_found:
  assumes "tip E s g" "HalfMore (key_order E (dom (blockMap (buffer s)))) (quorum g) (buffer s) = c # cs"
  obtains d s' where "leaderCounts E s = Returns () s'" "df_OrderBlocks d = map Some (c # cs)" "tip E s' g"
    "spawned s' = spawned s @ [NewLeader d]" "peerStorage s' = peerStorage s" "timerRunning s' = timerRunning s"
    "outbox s' = outbox s @ map (\<lambda>p. (p, BlockMessage RefererBlock (Some (PDeFork d))))
      (peer_list E (peerNodeMap (peerStorage s)))"
proof -
  obtain l where l: "on_db (GetLatest (store E)) s = Returns (Some l) (ticked s)" "copy_of l g"
    using assms(1) by (rule GetLatest_copy)
  then have index: "hb_Index l = hb_Index g" by (simp add: copy_of_def same_block_def)
  define now where "now = time_at (store E) (clock_reads (db (ticked s)))"
  have clock: "read_clock E (ticked s) = Returns now (ticked (ticked s))"
    by (simp add: read_clock_def prog_simps now_def ticked_def)
  let ?d = "NewDeForkBlock now (map Some (c # cs))"
  let ?s' = "(sent (peer_list E (peerNodeMap (peerStorage s))) (BlockMessage RefererBlock (Some (PDeFork ?d)))
    (ticked (ticked s)))\<lparr>spawned := spawned s @ [NewLeader ?d]\<rparr>"
  have "leaderCounts E s = Returns () ?s'"
    using assms(2) l(1) clock
    by (cases "hb_Index g < of_nat COSI_MEMBERS")
      (simp_all add: leaderCounts_def prog_eval Let_def index quorum_def broadcast_eval spawn_eval sent_def ticked_def)
  moreover have "tip E ?s' g" using assms(1) by (simp add: tip_def sent_def ticked_def)
  ultimately show thesis
    by (intro that [of ?s' ?d]) (simp_all add: sent_def NewDeForkBlock_def ticked_def)
qed

section \<open>The round\<close>

lemma node_runs_trans: "node_runs E ok s' s'' \<Longrightarrow> node_runs E ok s s' \<Longrightarrow> node_runs E ok s s''"
  by (induction rule: node_runs.induct) (auto intro: node_runs.step)

lemma task_step:
  assumes "i < length (spawned s)" "spawned s ! i = t" "run_task E t (remove_task i s) = Returns () s'"
  shows "node_step E ok s s'"
  using node_step.goroutine [OF assms(1), of E ok] assms(2,3) by simp

lemma last_task_step:
  assumes "spawned s = ts @ [t]" "run_task E t (s\<lparr>spawned := ts\<rparr>) = Returns () s'"
  shows "node_step E ok s s'"
proof -
  have "remove_task (length ts) s = s\<lparr>spawned := ts\<rparr>" using assms(1) by (simp add: remove_task_def)
  with assms show ?thesis by (intro task_step [where i = "length ts"]) simp_all
qed

text \<open>
  The timer of a leader fires while the buffer has enough signatures for its own candidate block:
  the run over count and election to the next height.
\<close>

lemma election_round:
  assumes "storage (store E)" "writable (store E)" "si_Public (self E) = Some me"
    and "tip E s g" "group_member E s" "elected g = Some (me # es)" "\<not> signed_order g" "fits (slice_bytes (hb_Hash g))" "miner_ok (the_miner s)"
    and "i < length (spawned s)" "spawned s ! i = TimerFired b"
    and "HalfMore (key_order E (dom (blockMap (buffer s)))) (quorum g) (buffer s) = c # cs"
    and "bh_PublicKey (b_Header c) = me" "list_all signatures_ok (c # cs)"
  obtains new d s' where "node_runs E ok s s'" "tip E s' new" "hb_Index new = hb_Index g + 1" "hb_PublicKey new = me"
    "hb_Block new = Some d" "df_OrderBlocks d = map Some (c # cs)" "StartTimer new \<in> set (spawned s')"
    "\<forall>p\<in>set (peer_list E (peerNodeMap (peerStorage s))). (p, BlockMessage NewLeaderHello (Some (PHello new))) \<in> set (outbox s')"
proof -
  let ?s = "remove_task i s"
  have same: "db ?s = db s" "buffer ?s = buffer s" "the_miner ?s = the_miner s" "peerStorage ?s = peerStorage s"
    by (simp_all add: remove_task_def)
  have tip: "tip E ?s g" and member: "group_member E ?s"
    using assms(4,5) same(1) tip_cong [of ?s s E] by (simp_all add: group_member_def)
  obtain s1 where s1: "timerFired E b ?s = Returns () s1" "tip E s1 g" "buffer s1 = buffer s"
      "peerStorage s1 = peerStorage s" "spawned s1 = (spawned ?s @ [ProposeBlocks b]) @ [LeaderCounts]"
    using timerFired_leader [OF assms(3) tip member assms(6), of b] assms(9) same by auto
  have run1: "node_step E ok s s1" by (rule task_step [OF assms(10,11)]) (simp add: s1(1))
  let ?s1 = "s1\<lparr>spawned := spawned ?s @ [ProposeBlocks b]\<rparr>"
  have "tip E ?s1 g" using s1(2) by (simp add: tip_def)
  then obtain d s2 where s2: "leaderCounts E ?s1 = Returns () s2" "df_OrderBlocks d = map Some (c # cs)" "tip E s2 g"
      "spawned s2 = spawned ?s1 @ [NewLeader d]" "peerStorage s2 = peerStorage s"
    by (rule leaderCounts_found [of E ?s1 g c cs]) (use assms(12) s1(3,4) in simp_all)
  have run2: "node_step E ok s1 s2" by (rule last_task_step [OF s1(5)]) (simp only: run_task.simps s2(1))
  let ?s2 = "s2\<lparr>spawned := spawned ?s1\<rparr>"
  have "tip E ?s2 g" using s2(3) by (simp add: tip_def)
  then obtain l where l: "on_db (GetLatest (store E)) ?s2 = Returns (Some l) (ticked ?s2)" "copy_of l g"
    by (rule GetLatest_copy)
  let ?s3 = "(ticked ?s2)\<lparr>spawned := spawned ?s1 @ [LeaderReady l me d]\<rparr>"
  have "startNewLeaderHelloBlock E d ?s2 = Returns () ?s3"
    using s2(2) l(1) assms(3,13)
    by (simp add: startNewLeaderHelloBlock_def prog_eval publicKey_eval spawn_eval ticked_def)
  then have run3: "node_step E ok s2 ?s3" by (intro last_task_step [OF s2(4)]) simp
  let ?s3' = "?s3\<lparr>spawned := spawned ?s1\<rparr>"
  have tip3: "tip E ?s3' g" using s2(3) by (simp add: tip_def ticked_def)
  have "list_all copyable (df_OrderBlocks d)" using assms(14) by (simp add: s2(2) copyable_def list.pred_map comp_def)
  then obtain new s4 where s4: "leaderReady E l me d ?s3' = Returns () s4" "tip E s4 new" "hb_Index new = hb_Index g + 1"
      "hb_PublicKey new = me" "hb_Block new = Some d" "spawned s4 = spawned ?s3' @ [StartTimer new]"
      "outbox s4 = outbox ?s3' @ map (\<lambda>p. (p, BlockMessage NewLeaderHello (Some (PHello new))))
        (peer_list E (peerNodeMap (peerStorage ?s3')))"
    by (rule leaderReady_makes [OF assms(1,2) tip3 assms(7) l(2) _ assms(8), of d me]) blast
  have run4: "node_step E ok ?s3 s4" by (rule last_task_step [where ts = "spawned ?s1" and t = "LeaderReady l me d"]) (use s4(1) in simp_all)
  have "node_runs E ok s s4" by (rule node_runs.start node_runs.step run1 run2 run3 run4)+
  then show thesis using s4 s2(2,5) by (intro that) (auto simp: ticked_def)
qed

section \<open>The first block\<close>

lemma genesis_timer:
  assumes "storage (store E)" "writable (store E)" "si_Public (self E) = Some me" "hello_ok (genesis_block E)"
    and "hb_Hash (genesis_block E) = Some h" "fits h" "hb_PublicKey (genesis_block E) = me"
  defines "g \<equiv> genesis_block E"
  obtains s where "node_runs E ok (fresh_service (Some k)) s" "tip E s g" "timerRunning s"
    "spawned s = [MemberGroup g, StartMiner g, TimerFired g]" "buffer s = newBlockBuffer" "the_miner s = New"
proof -
  let ?n = "fresh_service (Some k)"
  have fresh: "bucket (db ?n) \<noteq> None" "\<not> latestMutex (db ?n)" "latestBlockID (db ?n) = None" "\<not> createBlockChainMutex ?n"
    "timerRunning ?n = False" "spawned ?n = []" "buffer ?n = newBlockBuffer" "the_miner ?n = New"
    by (simp_all add: fresh_service_def NewBlockDB_def)
  obtain s1 where s1: "CreateGenesisBlock E ?n = Returns (Inr g) s1" "tip E s1 g" "spawned s1 = [StartTimer g]"
      "\<not> timerRunning s1" "buffer s1 = newBlockBuffer" "the_miner s1 = New"
    by (rule CreateGenesis_accepted [OF assms(1,2) fresh(1-4) assms(4-6)]) (auto simp: g_def fresh)
  have run1: "node_step E ok ?n s1"
    using node_step.call [of E ok ?n ReqGenesisBlock] s1(1) by (simp add: reply_with_def prog_simps)
  let ?t = "s1\<lparr>spawned := [MemberGroup g, StartMiner g]\<rparr>"
  have "tip E ?t g" using s1(2) by (simp add: tip_def)
  then have tip_t: "isBFTMember E ?t = Returns True (ticked ?t)"
    using assms(3,7) isBFTMember_maker [of E me ?t g] by (simp add: g_def)
  then have "startTimer E g (s1\<lparr>spawned := []\<rparr>) = Returns ()
      ((ticked ?t)\<lparr>spawned := [MemberGroup g, StartMiner g] @ [ArmTimer g]\<rparr>)"
    using s1(4) by (simp add: startTimer_def prog_eval spawn_eval ticked_def)
  then have run2: "node_step E ok s1 ((ticked ?t)\<lparr>spawned := [MemberGroup g, StartMiner g] @ [ArmTimer g]\<rparr>)"
    by (intro last_task_step [where ts = "[]" and t = "StartTimer g"]) (use s1(3) in simp_all)
  let ?s = "(ticked ?t)\<lparr>timerRunning := True, spawned := [MemberGroup g, StartMiner g, TimerFired g]\<rparr>"
  have run3: "node_step E ok ((ticked ?t)\<lparr>spawned := [MemberGroup g, StartMiner g] @ [ArmTimer g]\<rparr>) ?s"
    by (intro last_task_step [where ts = "[MemberGroup g, StartMiner g]" and t = "ArmTimer g"])
      (simp_all add: armTimer_def prog_eval spawn_eval ticked_def)
  have "node_runs E ok ?n ?s" by (rule node_runs.start node_runs.step run1 run2 run3)+
  then show thesis by (rule that) (use s1 in \<open>simp_all add: tip_def ticked_def\<close>)
qed

text \<open>
  C3: Height 1 is reached. A node on an empty database whose genesis block is of height 0, made by
  the node itself, unsigned, and elects it: with a candidate block of its own that a peer sends
  back before the timer fires, it has a run to a block of height 1. It stores the new block as
  its latest one and starts the timer for it. The new block is made by the node, elects it
  again, and is signed: it is the last one that can be made.
\<close>

theorem first_block_made:
  fixes E :: "('k, 'v) node_env" and b :: Block
  defines "g \<equiv> genesis_block E"
  assumes "storage (store E)" "writable (store E)" "si_Public (self E) = Some me"
    and "hello_ok g" "\<not> signed_order g" "hb_Hash g = Some h" "fits h"
    and "hb_Index g = 0" "hb_PublicKey g = me" "elected g = Some (me # es)"
    and "b_Collections b = []" "bh_PublicKey (b_Header b) = me"
    and "key_order E {go_string (b_Hash b)} = [go_string (b_Hash b)]"
  shows "\<exists>s' new. node_runs E (\<lambda>_. True) (fresh_service (Some k)) s' \<and> tip E s' new \<and> hb_Index new = 1 \<and>
    hb_PublicKey new = me \<and> elected new = Some [me] \<and> signed_order new \<and> StartTimer new \<in> set (spawned s')"
proof -
  obtain s where s: "node_runs E (\<lambda>_. True) (fresh_service (Some k)) s" "tip E s g" "timerRunning s"
      "spawned s = [MemberGroup g, StartMiner g, TimerFired g]" "buffer s = newBlockBuffer" "the_miner s = New"
    using genesis_timer [of E me h] assms(2,3,4,5,7,8,10) unfolding g_def by metis
  let ?env = "\<lparr>env_ServerIdentity = self E, env_Msg = BlockMessage CandidateBlock (Some (PBlock b))\<rparr>"
  define c where "c = \<lparr>b_Header = Header_Copy (b_Header b), b_Hash = fresh_copy (b_Hash b),
    b_Collections = [Some (newCollection (store E) me)]\<rparr>"
  let ?m = "[go_string (b_Hash b) \<mapsto> c]"
  let ?t = "s\<lparr>buffer := \<lparr>blockMap = ?m\<rparr>, spawned := spawned s @ [Broadcast (PBlock b) CandidateBlock]\<rparr>"
  have "handleBlockMessage E ?env s = Returns None ?t"
    using candidate_buffered [OF assms(4) s(3) _ assms(12), of "self E"] s(5)
    by (simp add: Buffer_in_def newBlockBuffer_def c_def)
  then have "node_step E (\<lambda>_. True) s ?t"
    using node_step.deliver [of ?env "\<lambda>_. True" E s] by (simp add: dispatch_def)
  with s(1) have run: "node_runs E (\<lambda>_. True) (fresh_service (Some k)) ?t" by (rule node_runs.step)
  have half: "HalfMore (key_order E (dom (blockMap (buffer ?t)))) (quorum g) (buffer ?t) = c # []"
    by (simp add: assms(14) HalfMore_def map_values_def List.map_filter_def quorum_def assms(9) COSI_MEMBERS_def)
      (simp add: c_def)
  have tip: "tip E ?t g" using s(2) by (simp add: tip_def)
  have fits: "fits (slice_bytes (hb_Hash g))" using assms(7,8) by simp
  have c: "bh_PublicKey (b_Header c) = me" "list_all signatures_ok (c # [])"
    using assms(13) by (simp_all add: c_def signatures_ok_def Header_Copy_def)
  have i: "2 < length (spawned ?t)" "spawned ?t ! 2 = TimerFired g" "miner_ok (the_miner ?t)"
    using s(4,6) miner_ok_New by simp_all
  obtain new d s' where r: "node_runs E (\<lambda>_. True) ?t s'" "tip E s' new" "hb_Index new = hb_Index g + 1"
      "hb_PublicKey new = me" "hb_Block new = Some d" "df_OrderBlocks d = map Some (c # [])"
      "StartTimer new \<in> set (spawned s')"
    by (rule election_round [OF assms(2,3,4) tip maker_group_member [OF assms(4) tip assms(10)]
        assms(11,6) fits i(3,1,2) half c]) blast
  have "elected new = Some [me]" "signed_order new"
    using c(1) by (simp_all add: elected_def signed_order_def signed_def r(5,6)) (simp_all add: c_def)
  with r node_runs_trans [OF r(1) run] assms(9) show ?thesis by auto
qed

text \<open>A node that the genesis block elects, and a candidate block of it.\<close>

definition own_candidate :: Block where
  "own_candidate = NewBlock\<lparr>b_Header := (b_Header NewBlock)\<lparr>bh_PublicKey := ''key''\<rparr>, b_Hash := Some [65]\<rparr>"

definition elected_genesis :: NewLeaderHelloBlock where
  "elected_genesis = (sample_hello [])\<lparr>hb_Index := 0, hb_Block := Some (NewDeForkBlock 5 [Some own_candidate])\<rparr>"

definition elected_env :: "((bytes \<times> Message) list, Message) node_env" where
  "elected_env = maker_env\<lparr>genesis_block := elected_genesis, key_order := (\<lambda>S. [''A''])\<rparr>"

lemma first_block_made_witness:
  "\<exists>s' new. node_runs elected_env (\<lambda>_. True) (fresh_service (Some [])) s' \<and> tip elected_env s' new \<and>
    hb_Index new = 1 \<and> elected new = Some [''key''] \<and> signed_order new"
proof -
  have env: "store elected_env = mem_env" "si_Public (self elected_env) = Some ''key''"
    "genesis_block elected_env = elected_genesis"
    by (simp_all add: elected_env_def)
  have 1: "storage (store elected_env)" "writable (store elected_env)" "fits [2]"
    by (simp_all add: env mem.storage_axioms mem_writable fits_def)
  have 2: "hello_ok (genesis_block elected_env)" "\<not> signed_order (genesis_block elected_env)"
    "hb_Hash (genesis_block elected_env) = Some [2]" "hb_Index (genesis_block elected_env) = 0"
    "hb_PublicKey (genesis_block elected_env) = ''key''" "elected (genesis_block elected_env) = Some (''key'' # [])"
    by (simp_all add: env elected_genesis_def hello_ok_def signed_order_def signed_def elected_def NewDeForkBlock_def
        own_candidate_def NewBlock_def signatures_ok_def sample_hello_def)
  have "char_of (65 :: nat) = CHR ''A''" by (simp add: char_of_def bit_0)
  then have 3: "b_Collections own_candidate = []" "bh_PublicKey (b_Header own_candidate) = ''key''"
    "key_order elected_env {go_string (b_Hash own_candidate)} = [go_string (b_Hash own_candidate)]"
    by (simp_all add: own_candidate_def NewBlock_def elected_env_def go_string_def)
  from first_block_made [OF 1(1,2) env(2) 2(1-3) 1(3) 2(4-6) 3, of "[]"] show ?thesis by blast
qed

end
