(* ===== verification/Timers.thy ===== *)
theory Timers
  imports Election "HOL-Library.Multiset"
begin

text \<open>
  service/service.go, how the timers of a node meet. \<open>timerRunning\<close> is meant to keep a second timer from
  being set, but it is read and written without a lock by goroutines that run side by side.
\<close>

fun is_fired :: "task \<Rightarrow> bool" where
  "is_fired (TimerFired _) = True"
| "is_fired _ = False"

text \<open>The goroutines that sleep in \<open>startTimer\<close>.\<close>

definition pending_timers :: "'k Service \<Rightarrow> nat" where
  "pending_timers s = size (filter_mset is_fired (mset (spawned s)))"

section \<open>One task at a time\<close>

lemma task_of:
  assumes "t \<in># mset (spawned s)"
  obtains i where "i < length (spawned s)" "spawned s ! i = t"
    "mset (spawned (remove_task i s)) = mset (spawned s) - {#t#}"
proof -
  obtain i where i: "i < length (spawned s)" "spawned s ! i = t" using assms by (auto simp: in_set_conv_nth)
  then have "spawned s = take i (spawned s) @ t # drop (Suc i) (spawned s)" using id_take_nth_drop by blast
  then have "mset (spawned s) = mset (take i (spawned s)) + add_mset t (mset (drop (Suc i) (spawned s)))"
    by (metis mset.simps(2) mset_append)
  with i that show thesis by (simp add: remove_task_def)
qed

text \<open>
  A step of a goroutine \<open>t\<close> on a node whose latest block is \<open>g\<close>, which returns and leaves the goroutines
  \<open>new\<close> behind.
\<close>

lemma run_of:
  assumes "t \<in># mset (spawned s)" "tip E s g"
    and "\<And>u. db u = db s \<Longrightarrow> timerRunning u = timerRunning s \<Longrightarrow> the_miner u = the_miner s \<Longrightarrow>
      \<exists>u'. run_task E t u = Returns () u' \<and> tip E u' g \<and> timerRunning u' = flag \<and> the_miner u' = the_miner s \<and>
        spawned u' = spawned u @ new"
  obtains s' where "node_step E ok s s'" "tip E s' g" "timerRunning s' = flag" "the_miner s' = the_miner s"
    "mset (spawned s') = mset (spawned s) - {#t#} + mset new"
proof -
  obtain i where i: "i < length (spawned s)" "spawned s ! i = t"
    "mset (spawned (remove_task i s)) = mset (spawned s) - {#t#}" using assms(1) by (rule task_of)
  have "the_miner (remove_task i s) = the_miner s" by (simp add: remove_task_def)
  with assms(3) [of "remove_task i s"] obtain u' where
    u': "run_task E t (remove_task i s) = Returns () u'" "tip E u' g" "timerRunning u' = flag"
      "the_miner u' = the_miner s" "spawned u' = spawned (remove_task i s) @ new" by auto
  from i(3) u'(5) have "mset (spawned u') = mset (spawned s) - {#t#} + mset new" by simp
  with task_step [OF i(1,2) u'(1)] u'(2-4) that show thesis by blast
qed

section \<open>The parts of a timer\<close>

text \<open>The start of a timer on the node that made the latest block, with the flag not set and set.\<close>

lemma start_of:
  assumes "StartTimer a \<in># mset (spawned s)" "tip E s g" and maker: "si_Public (self E) = Some me" "hb_PublicKey g = me"
  obtains s' where "node_step E ok s s'" "tip E s' g" "timerRunning s' = timerRunning s" "the_miner s' = the_miner s"
    "mset (spawned s') = mset (spawned s) - {#StartTimer a#} +
       mset ([MemberGroup a, StartMiner a] @ (if timerRunning s then [] else [ArmTimer a]))"
proof (rule run_of [OF assms(1,2)])
  fix u :: "'a Service"
  assume u: "db u = db s" "timerRunning u = timerRunning s" "the_miner u = the_miner s"
  let ?u = "u\<lparr>spawned := spawned u @ [MemberGroup a, StartMiner a]\<rparr>"
  have "tip E ?u g" using assms(2) u(1) by (simp add: tip_def)
  then have member: "isBFTMember E ?u = Returns True (ticked ?u)" using maker by (intro isBFTMember_maker)
  let ?s = "(ticked ?u)\<lparr>spawned := spawned u @ [MemberGroup a, StartMiner a] @ (if timerRunning s then [] else [ArmTimer a])\<rparr>"
  have "startTimer E a u = Returns () ?s"
    using member u(2) by (simp add: startTimer_def prog_eval spawn_eval ticked_def)
  moreover have "tip E ?s g" using assms(2) u(1) by (simp add: tip_def ticked_def)
  ultimately show "\<exists>u'. run_task E (StartTimer a) u = Returns () u' \<and> tip E u' g \<and> timerRunning u' = timerRunning s \<and>
      the_miner u' = the_miner s \<and>
      spawned u' = spawned u @ [MemberGroup a, StartMiner a] @ (if timerRunning s then [] else [ArmTimer a])"
    using u by (intro exI [of _ ?s]) (simp add: ticked_def)
qed (rule that)

lemma arm_of:
  assumes "ArmTimer a \<in># mset (spawned s)" "tip E s g"
  obtains s' where "node_step E ok s s'" "tip E s' g" "timerRunning s'" "the_miner s' = the_miner s"
    "mset (spawned s') = mset (spawned s) - {#ArmTimer a#} + mset [TimerFired a]"
proof (rule run_of [OF assms, where flag = True])
  fix u :: "'a Service"
  assume "db u = db s" "timerRunning u = timerRunning s" "the_miner u = the_miner s"
  with assms(2) show "\<exists>u'. run_task E (ArmTimer a) u = Returns () u' \<and> tip E u' g \<and> timerRunning u' = True \<and>
      the_miner u' = the_miner s \<and> spawned u' = spawned u @ [TimerFired a]"
    by (simp add: armTimer_def prog_eval spawn_eval tip_def)
qed (use that in simp)

text \<open>When a timer fires the flag is cleared, and no other one is stopped.\<close>

interpretation flag: loose_frame E "\<lambda>s. \<not> timerRunning s \<and> k \<le> pending_timers s" "\<lambda>_. True" "\<lambda>_. True" "\<lambda>_. True" for E k
proof unfold_locales
  fix p show "keeps (\<lambda>s. \<not> timerRunning s \<and> k \<le> pending_timers s) (on_db (UpdateLatest p))"
    by (rule keeps_on_db) (simp add: pending_timers_def)
next
  fix h show "keeps (\<lambda>s. \<not> timerRunning s \<and> k \<le> pending_timers s) (on_db (Store (store E) (Some h)))"
    by (rule keeps_on_db) (simp add: pending_timers_def)
qed (simp_all add: pending_timers_def)

lemma fire_of:
  assumes "TimerFired a \<in># mset (spawned s)" "miner_ok (the_miner s)" "pending_timers s = Suc k"
  obtains s' where "node_step E ok s s'" "\<not> timerRunning s'" "k \<le> pending_timers s'"
proof -
  obtain i where i: "i < length (spawned s)" "spawned s ! i = TimerFired a"
    "mset (spawned (remove_task i s)) = mset (spawned s) - {#TimerFired a#}" using assms(1) by (rule task_of)
  let ?s = "remove_task i s"
  have pending: "pending_timers ?s = k"
    using assms(1,3) i(3) by (simp add: pending_timers_def size_Diff_singleton)
  obtain m where m: "Stop (the_miner ?s) = Returns () m"
    using event_returns [of "the_miner s" EvStop] assms(2) by (auto simp: remove_task_def)
  let ?rest = "bnd (isBFTMember E) (\<lambda>member. if \<not> member then ret ()
      else seqp (spawn (ProposeBlocks a)) (bnd (isLeader E) (\<lambda>leader. whenp leader (spawn LeaderCounts))))"
  let ?u = "?s\<lparr>the_miner := m, timerRunning := False\<rparr>"
  have "keeps (\<lambda>s. \<not> timerRunning s \<and> k \<le> pending_timers s) ?rest"
    by (intro keeps_intros flag.keeps_spawn flag.keeps_members TrueI)
  moreover have "\<not> timerRunning ?u \<and> k \<le> pending_timers ?u" using pending by (simp add: pending_timers_def)
  ultimately have "\<not> timerRunning (final_state (?rest ?u)) \<and> k \<le> pending_timers (final_state (?rest ?u))"
    by (rule keepsD)
  moreover have "timerFired E a ?s = ?rest ?u"
    using m by (simp add: timerFired_def stopMiner_def prog_eval on_eval')
  moreover have "node_step E ok s (final_state (timerFired E a ?s))"
    using node_step.goroutine [OF i(1), of E ok] i(2) by simp
  ultimately show thesis using that by simp
qed

section \<open>Two timers\<close>

text \<open>
  C6: The flag does not exclude timers. On a node that made its latest block, while no timer is running and
  two goroutines are about to start one (as after two blocks in a row): scheduled one after the other
  they set one timer, and the second gives up; but there is also a run in which both find the flag not
  set and both set a timer, and when one of these fires it clears the flag while the other is still
  pending, so that a third one can be set and candidate blocks are dropped in the meantime.
\<close>

theorem timers_race:
  assumes "si_Public (self E) = Some me" "tip E s g" "hb_PublicKey g = me" "\<not> timerRunning s" "miner_ok (the_miner s)"
    and "{#StartTimer a, StartTimer b#} \<subseteq># mset (spawned s)"
  defines "others \<equiv> mset (spawned s) - {#StartTimer a, StartTimer b#} + {#MemberGroup a, StartMiner a, MemberGroup b, StartMiner b#}"
  shows "(\<exists>s'. node_runs E ok s s' \<and> timerRunning s' \<and> mset (spawned s') = others + {#TimerFired a#}) \<and>
    (\<exists>s' s''. node_runs E ok s s' \<and> timerRunning s' \<and> mset (spawned s') = others + {#TimerFired a, TimerFired b#} \<and>
       node_runs E ok s' s'' \<and> \<not> timerRunning s'' \<and> pending_timers s'' > pending_timers s)"
proof -
  obtain rest where rest: "mset (spawned s) = rest + {#StartTimer a, StartTimer b#}"
    using assms(6) by (metis subset_mset.diff_add)
  then have others: "others = rest + {#MemberGroup a, StartMiner a, MemberGroup b, StartMiner b#}" by (simp add: others_def)
  have pending: "pending_timers s = size (filter_mset is_fired rest)" by (simp add: pending_timers_def rest)
  note maker = assms(1,3)
  obtain s1 where s1: "node_step E ok s s1" "tip E s1 g" "\<not> timerRunning s1" "the_miner s1 = the_miner s"
      "mset (spawned s1) = rest + {#StartTimer b, MemberGroup a, StartMiner a, ArmTimer a#}"
    by (rule start_of [where ok = ok, of a s E g, OF _ assms(2) maker]) (use assms(4) rest in \<open>simp_all add: add_mset_commute\<close>)
  have one: "\<exists>s'. node_runs E ok s s' \<and> timerRunning s' \<and> mset (spawned s') = others + {#TimerFired a#}"
  proof -
    obtain s2 where s2: "node_step E ok s1 s2" "tip E s2 g" "timerRunning s2"
        "mset (spawned s2) = rest + {#StartTimer b, MemberGroup a, StartMiner a, TimerFired a#}"
      by (rule arm_of [where ok = ok, of a s1 E g, OF _ s1(2)]) (use s1(5) in \<open>simp_all add: add_mset_commute\<close>)
    obtain s3 where s3: "node_step E ok s2 s3" "timerRunning s3" "mset (spawned s3) = others + {#TimerFired a#}"
      by (rule start_of [where ok = ok, of b s2 E g, OF _ s2(2) maker]) (use s2(3,4) others in \<open>simp_all add: add_mset_commute\<close>)
    have "node_runs E ok s s3" by (rule node_runs.start node_runs.step s1(1) s2(1) s3(1))+
    with s3 show ?thesis by blast
  qed
  obtain s2 where s2: "node_step E ok s1 s2" "tip E s2 g" "the_miner s2 = the_miner s"
      "mset (spawned s2) = rest + {#MemberGroup a, StartMiner a, ArmTimer a, MemberGroup b, StartMiner b, ArmTimer b#}"
    by (rule start_of [where ok = ok, of b s1 E g, OF _ s1(2) maker]) (use s1(3-5) in \<open>simp_all add: add_mset_commute\<close>)
  obtain s3 where s3: "node_step E ok s2 s3" "tip E s3 g" "the_miner s3 = the_miner s"
      "mset (spawned s3) = rest + {#MemberGroup a, StartMiner a, TimerFired a, MemberGroup b, StartMiner b, ArmTimer b#}"
    by (rule arm_of [where ok = ok, of a s2 E g, OF _ s2(2)]) (use s2(3,4) in \<open>simp_all add: add_mset_commute\<close>)
  obtain s4 where s4: "node_step E ok s3 s4" "timerRunning s4" "the_miner s4 = the_miner s"
      "mset (spawned s4) = others + {#TimerFired a, TimerFired b#}"
    by (rule arm_of [where ok = ok, of b s3 E g, OF _ s3(2)]) (use s3(3,4) others in \<open>simp_all add: add_mset_commute\<close>)
  have runs: "node_runs E ok s s4" by (rule node_runs.start node_runs.step s1(1) s2(1) s3(1) s4(1))+
  have fired: "TimerFired a \<in># mset (spawned s4)" "miner_ok (the_miner s4)" "pending_timers s4 = Suc (Suc (pending_timers s))"
    using s4(3,4) assms(5) by (simp_all add: pending_timers_def others rest)
  obtain s5 where "node_step E ok s4 s5" "\<not> timerRunning s5" "Suc (pending_timers s) \<le> pending_timers s5"
    by (rule fire_of [where ok = ok, OF fired])
  with one runs s4 node_runs.step [OF node_runs.start] show ?thesis by (meson Suc_le_eq)
qed

text \<open>Two blocks of the node that come back to it in a row.\<close>

definition later_hello :: NewLeaderHelloBlock where
  "later_hello = (sample_hello [])\<lparr>hb_Index := 4, hb_Hash := Some [3]\<rparr>"

definition took_first :: "(bytes \<times> Message) list Service" where
  "took_first = tip_node\<lparr>spawned := [Broadcast (PHello (sample_hello [])) NewLeaderHello, StartTimer (sample_hello [])]\<rparr>"

definition took_both :: "(bytes \<times> Message) list Service" where
  "took_both = took_first\<lparr>db := indexed ((db took_first)\<lparr>bucket :=
       Some [([2], MsgHello (sample_hello [])), ([3], MsgHello later_hello)]\<rparr>) later_hello,
     spawned := spawned took_first @ [Broadcast (PHello later_hello) NewLeaderHello, StartTimer later_hello]\<rparr>"

lemma compact_later [simp]: "compact later_hello = later_hello"
  by (simp add: compact_def later_hello_def sample_hello_def NewDeForkBlock_def)

lemma take_first:
  "dispatch maker_env \<lparr>env_ServerIdentity = si, env_Msg = BlockMessage NewLeaderHello (Some (PHello (sample_hello [])))\<rparr> new_node
    = Returns None took_first"
  using mem_store [of "sample_hello []"]
  by (simp add: dispatch_def handleBlockMessage_def block_types handleHello_def prog_simps)
    (simp add: Store_def UpdateLatest_eval prog_simps took_first_def tip_node_def new_node_def fresh_service_def mem_db_def NewBlockDB_def
      GetByID_def getFromTx_def mem_env_def BlockStore.GetBlockByIndex_def)

lemma take_later:
  "dispatch maker_env \<lparr>env_ServerIdentity = si, env_Msg = BlockMessage NewLeaderHello (Some (PHello later_hello))\<rparr> took_first
    = Returns None took_both"
proof -
  have "hb_Hash later_hello = Some [3]" "hb_Index later_hello = 4" by (simp_all add: later_hello_def)
  moreover have "bucket (db took_first) = Some [([2], MsgHello (sample_hello []))]" "blockIndexMap (db took_first) 4 = None"
    "\<not> latestMutex (db took_first)" "deForkBlock took_first = None"
    by (simp_all add: took_first_def tip_node_def mem_db_def NewBlockDB_def new_node_def fresh_service_def, simp add: sample_hello_def)
  ultimately show ?thesis
    by (simp add: dispatch_def handleBlockMessage_def block_types handleHello_def prog_simps)
      (simp add: Store_def StoreBlocks_def storeToTx_def UpdateLatest_eval prog_simps took_both_def mem_put_def
        GetByID_def getFromTx_def mem_env_def BlockStore.GetBlockByIndex_def)
qed

lemma took_both_facts:
  "tip maker_env took_both later_hello" "\<not> timerRunning took_both" "the_miner took_both = New"
  "pending_timers took_both = 0" "{#StartTimer (sample_hello []), StartTimer later_hello#} \<subseteq># mset (spawned took_both)"
proof -
  show "tip maker_env took_both later_hello"
    by (simp add: tip_def took_both_def took_first_def stored_def full_def hello_ok_def mem_env_def later_hello_def sample_hello_def
        NewDeForkBlock_def tip_node_def mem_db_def NewBlockDB_def)
qed (simp_all add: took_both_def took_first_def tip_node_def new_node_def fresh_service_def pending_timers_def)

lemma timers_race_witness:
  "\<exists>s. node_runs maker_env (\<lambda>_. True) (fresh_service (Some [])) s \<and> \<not> timerRunning s \<and> 0 < pending_timers s"
proof -
  let ?hello = "\<lambda>b. \<lparr>env_ServerIdentity = sample_peer ''a'', env_Msg = BlockMessage NewLeaderHello (Some (PHello b))\<rparr>"
  have 1: "node_step maker_env (\<lambda>_. True) new_node took_first"
    using node_step.deliver [of "?hello (sample_hello [])" "\<lambda>_. True" maker_env new_node] by (simp add: take_first)
  have 2: "node_step maker_env (\<lambda>_. True) took_first took_both"
    using node_step.deliver [of "?hello later_hello" "\<lambda>_. True" maker_env took_first] by (simp add: take_later)
  have start: "node_runs maker_env (\<lambda>_. True) (fresh_service (Some [])) took_both"
    unfolding new_node_def [symmetric] by (rule node_runs.start node_runs.step 1 2)+
  have "hb_PublicKey later_hello = ''key''" by (simp add: later_hello_def)
  then obtain s' s'' where "node_runs maker_env (\<lambda>_. True) took_both s'" "node_runs maker_env (\<lambda>_. True) s' s''"
      "\<not> timerRunning s''" "0 < pending_timers s''"
    using timers_race [of maker_env "''key''" took_both later_hello "sample_hello []" later_hello "\<lambda>_. True"] took_both_facts
    by (auto simp: miner_ok_New)
  with node_runs_trans [OF _ start] node_runs_trans show ?thesis by blast
qed

end
