(* ===== verification/Typing.thy ===== *)
theory Typing
  imports Invariants
begin

text \<open>
  The well-formed states of a node, and that they are kept in every run, whatever arrives: the miner's
  channels are in order, peers are filed under their own keys and candidate blocks under their own
  hashes, and both maps are finite. In such a state the miner can always be stopped and moved.
\<close>

section \<open>Well-formed states\<close>

definition keyed :: "(string \<rightharpoonup> ServerIdentity) \<Rightarrow> bool" where
  "keyed m \<longleftrightarrow> finite (dom m) \<and> (\<forall>key si. m key = Some si \<longrightarrow> si_Public si = Some key)"

definition hashed :: "blockBuffer \<Rightarrow> bool" where
  "hashed bb \<longleftrightarrow> finite (dom (blockMap bb)) \<and> (\<forall>key b. blockMap bb key = Some b \<longrightarrow> key = go_string (b_Hash b))"

definition well_formed :: "'k Service \<Rightarrow> bool" where
  "well_formed s \<longleftrightarrow> miner_ok (the_miner s) \<and> keyed (peerNodeMap (peerStorage s)) \<and> hashed (buffer s)"

lemma keyed_put: "keyed m \<Longrightarrow> si_Public si = Some key \<Longrightarrow> keyed (m(key \<mapsto> si))"
  by (simp add: keyed_def)

lemma keyed_drop: "keyed m \<Longrightarrow> keyed (m(key := None))"
  by (simp add: keyed_def)

lemma hashed_put: "hashed bb \<Longrightarrow> hashed (Buffer_Put b bb)"
  by (simp add: hashed_def Buffer_Put_def)

lemma Block_Sign_keeps_hash: "Block_Sign mk key b s = Returns b' s' \<Longrightarrow> b_Hash b' = b_Hash b"
  by (auto simp: Block_Sign_def prog_simps split: outcome.splits option.splits)

lemma keeps_Block_Sign: "keeps I (Block_Sign mk key b)"
proof -
  have "keeps I (find_key key cs i)" for cs i
    by (induction cs arbitrary: i) (auto intro!: keeps_intros)
  then show ?thesis unfolding Block_Sign_def by (auto intro!: keeps_intros split: option.split)
qed

lemma hashed_set: "hashed bb \<Longrightarrow> hashed (final_state (Buffer_Set mk block bb))"
proof (cases "blockMap bb (go_string (b_Hash block))")
  case None
  then show "hashed bb \<Longrightarrow> ?thesis" by (simp add: Buffer_Set_def prog_simps hashed_put)
next
  case (Some old)
  assume hashed: "hashed bb"
  with Some have key: "go_string (b_Hash block) = go_string (b_Hash old)" by (simp add: hashed_def)
  have same: "final_state (Block_Sign mk key old bb) = bb" for key
    using keepsD [OF keeps_Block_Sign, of "\<lambda>s. s = bb" bb] by simp
  let ?signed = "Block_Sign mk (go_string (b_Hash block)) old bb"
  have run: "final_state (Buffer_Set mk block bb) = (case ?signed of
      Returns b t \<Rightarrow> t\<lparr>blockMap := (blockMap t)(go_string (b_Hash block) \<mapsto> b)\<rparr> | Panics p t \<Rightarrow> t | Blocks t \<Rightarrow> t)"
    using Some by (simp add: Buffer_Set_def prog_eval split: outcome.split)
  show ?thesis
  proof (cases ?signed)
    case (Returns b t)
    then have "t = bb" "b_Hash b = b_Hash old"
      using same [of "go_string (b_Hash block)"] Block_Sign_keeps_hash [OF Returns] by simp_all
    with Returns hashed key show ?thesis by (simp add: run hashed_def)
  next
    case (Panics p t)
    with same [of "go_string (b_Hash block)"] hashed show ?thesis by (simp add: run)
  next
    case (Blocks t)
    with same [of "go_string (b_Hash block)"] hashed show ?thesis by (simp add: run)
  qed
qed

lemma event_final: "miner_ok m \<Longrightarrow> miner_ok (final_state (event_prog e m))"
  using event_returns [of m e] event_ok [of m e] by auto

lemmas miner_events = event_final [where e = "EvStart _", simplified] event_final [where e = EvStop, simplified]
  event_final [where e = "EvWorker _", simplified] event_final [where e = "EvGenerator _ _", simplified]

section \<open>The invariant\<close>

interpretation forms: node_frame E well_formed "\<lambda>_. True" "\<lambda>_. True" "\<lambda>_. True" "\<lambda>_. True" for E
proof unfold_locales
  fix p show "keeps well_formed (on_db (UpdateLatest p))" by (rule keeps_on_db) (simp add: well_formed_def)
next
  fix h show "keeps well_formed (on_db (Store (store E) (Some h)))" by (rule keeps_on_db) (simp add: well_formed_def)
qed (simp_all add: well_formed_def put_peer_def drop_peer_def keyed_put keyed_drop hashed_put miner_events)

interpretation form_runs: open_frame E well_formed "\<lambda>_. True" "\<lambda>_. True" for E
proof unfold_locales
  show "keeps well_formed (handleProxyRequest E env)" for env by (rule forms.keeps_proxy_request) simp
  show "keeps well_formed (handleSignatureRequest E env)" for env
  proof -
    have "keeps well_formed (on_buffer (Buffer_Set mk b))" for mk b
      unfolding on_buffer_def by (rule keeps_on) (simp add: well_formed_def hashed_set)
    then show ?thesis
      unfolding message_defs by (auto intro!: keeps_intros forms.keeps_db split: Msg.split)
  qed
  show "keeps well_formed (on_miner (worker_step i))" "keeps well_formed (on_miner (generator_step i solved))" for i solved
    unfolding on_miner_def by (rule keeps_on, simp add: well_formed_def miner_events)+
  show "well_formed (s\<lparr>timerRunning := x\<rparr>)" if "well_formed s" for s :: "'a Service" and x
    using that by (simp add: well_formed_def)
  show "well_formed (remove_task i s)" if "well_formed s" for i s
    using that by (simp add: well_formed_def remove_task_def)
qed simp_all

lemma has_key_listed:
  assumes "keyed m"
  shows "list_all has_key (peer_list E m)"
proof -
  have "\<exists>key. m key = Some si" if "si \<in> set (peer_list E m)" for si
    using that by (auto simp: peer_list_def map_values_def List.map_filter_def)
  with assms show ?thesis by (fastforce simp: list_all_iff keyed_def has_key_def)
qed

text \<open>
  C11: States are well-formed, and well-formed states do not get stuck in the miner. In every run of a
  node from an empty state, whatever registered messages arrive and however its goroutines are
  scheduled: the peers and the buffered blocks are finitely many, a peer is filed under its own key
  and a block under its own hash; \<open>stopMiner\<close> and every step of the miner's goroutines return, none
  closes a closed channel or waits on a nil one; and the peers that are listed can be passed to \<open>Peer\<close>
  again, as each has a key.
\<close>

theorem states_well_formed:
  assumes "node_runs E ok (fresh_service bk) s"
  shows "finite (dom (peerNodeMap (peerStorage s))) \<and>
    (\<forall>key si. peerNodeMap (peerStorage s) key = Some si \<longrightarrow> si_Public si = Some key) \<and>
    finite (dom (blockMap (buffer s))) \<and> (\<forall>key b. blockMap (buffer s) key = Some b \<longrightarrow> key = go_string (b_Hash b)) \<and>
    (\<exists>m. stopMiner s = Returns () (s\<lparr>the_miner := m\<rparr>)) \<and>
    (\<forall>e. \<exists>m. on_miner (event_prog e) s = Returns () (s\<lparr>the_miner := m\<rparr>)) \<and>
    (\<forall>known. \<exists>peers. select_peers known (peer_list E (peerNodeMap (peerStorage s))) s = Returns peers s)"
proof -
  have "well_formed (fresh_service bk)"
    by (simp add: well_formed_def fresh_service_def miner_ok_New keyed_def hashed_def newBlockBuffer_def)
  with node_runs_any [OF assms] have wf: "well_formed s" by (rule form_runs.runs_keep)
  then have moves: "\<exists>m. on_miner (event_prog e) s = Returns () (s\<lparr>the_miner := m\<rparr>)" for e
    using event_returns [of "the_miner s" e] by (auto simp: well_formed_def on_eval')
  from wf have "list_all has_key (peer_list E (peerNodeMap (peerStorage s)))"
    by (intro has_key_listed) (simp add: well_formed_def)
  from select_peers_eval [OF this] moves [of EvStop] moves wf show ?thesis
    by (auto simp: well_formed_def keyed_def hashed_def stopMiner_def)
qed

lemma states_well_formed_witness:
  "\<exists>s. node_runs sample_env (\<lambda>_. True) (fresh_service (Some [])) s \<and>
    peerNodeMap (peerStorage s) = [''a'' \<mapsto> sample_peer ''a''] \<and> (\<exists>m. stopMiner s = Returns () (s\<lparr>the_miner := m\<rparr>))"
proof -
  let ?env = "\<lparr>env_ServerIdentity = sample_peer ''a'', env_Msg = PingMessage ''Ping Message''\<rparr>"
  let ?s = "final_state (dispatch sample_env ?env new_node)"
  have "node_step sample_env (\<lambda>_. True) new_node ?s" by (rule node_step.deliver) simp_all
  then have run: "node_runs sample_env (\<lambda>_. True) (fresh_service (Some [])) ?s"
    unfolding new_node_def by (rule node_runs.step [OF node_runs.start])
  have "peerNodeMap (peerStorage ?s) = [''a'' \<mapsto> sample_peer ''a'']"
    by (simp add: dispatch_def handlePingMessage_def AddPeerServerIdentity_def with_peers_def ping_and_add_def put_peer_def
        prog_simps sample_peer_def new_node_def fresh_service_def)
  with run states_well_formed [OF run] show ?thesis by blast
qed

end
