(* ===== verification/Simulation.thy ===== *)
theory Simulation
  imports Prelude
begin

text \<open>
  Components against their specifications. A component is a set of calls, each a program over its
  state; a specification says which answers a call may give in an abstract state, and what that state
  is afterwards. A simulation carries over to sequences of calls.
\<close>

primrec run_all :: "('c \<Rightarrow> ('s, 'r) prog) \<Rightarrow> 'c list \<Rightarrow> ('s, 'r list) prog" where
  "run_all call [] = ret []"
| "run_all call (c # cs) = bnd (call c) (\<lambda>r. bnd (run_all call cs) (\<lambda>rs. ret (r # rs)))"

text \<open>The answers that a specification allows for a sequence of calls.\<close>

inductive allowed :: "('c \<Rightarrow> 'a \<Rightarrow> 'r \<Rightarrow> 'a \<Rightarrow> bool) \<Rightarrow> 'a \<Rightarrow> 'c list \<Rightarrow> 'r list \<Rightarrow> 'a \<Rightarrow> bool"
  for spec where
  no_call: "allowed spec a [] [] a"
| one_call: "spec c a r a1 \<Longrightarrow> allowed spec a1 cs rs a' \<Longrightarrow> allowed spec a (c # cs) (r # rs) a'"

inductive_simps allowed_simps [simp]: "allowed spec a [] rs a'" "allowed spec a (c # cs) rs a'"

inductive_cases allowed_cases: "allowed spec a [] rs a'" "allowed spec a (c # cs) rs a'"

locale simulation =
  fixes call :: "'c \<Rightarrow> ('s, 'r) prog"
    and spec :: "'c \<Rightarrow> 'a \<Rightarrow> 'r \<Rightarrow> 'a \<Rightarrow> bool"
    and rel :: "'s \<Rightarrow> 'a \<Rightarrow> bool"
    and ok :: "'c \<Rightarrow> bool"
  assumes simulates: "rel s a \<Longrightarrow> ok c \<Longrightarrow> \<exists>r s' a'. call c s = Returns r s' \<and> spec c a r a' \<and> rel s' a'"
begin

lemma runs:
  assumes "rel s a" "list_all ok cs"
  shows "\<exists>rs s' a'. run_all call cs s = Returns rs s' \<and> allowed spec a cs rs a' \<and> rel s' a'"
  using assms
proof (induction cs arbitrary: s a)
  case Nil
  then show ?case by (auto simp: ret_def)
next
  case (Cons c cs)
  from Cons.prems simulates [of s a c] obtain r s1 a1 where
    first: "call c s = Returns r s1" "spec c a r a1" "rel s1 a1" by auto
  from Cons.IH [OF first(3)] Cons.prems(2) obtain rs s' a' where
    "run_all call cs s1 = Returns rs s'" "allowed spec a1 cs rs a'" "rel s' a'" by auto
  with first show ?case by (intro exI [of _ "r # rs"]) (auto simp: bnd_def ret_def)
qed

end

end
