(* ===== verification/Ledger.thy ===== *)
theory Ledger
  imports BlockStore Simulation
begin

text \<open>
  The contract of \<open>BlockDB\<close>: a ledger of blocks by their hashes, the latest block, and the hashes by
  height. The database, with bucket, codec, mutex and copies, is simulated by it call for call.
\<close>

record ledger =
  entries :: "bytes \<rightharpoonup> NewLeaderHelloBlock"
  latest :: slice
  heights :: "u64 \<rightharpoonup> slice"

definition empty_ledger :: ledger where
  "empty_ledger = \<lparr>entries = Map.empty, latest = None, heights = Map.empty\<rparr>"

datatype ledger_call =
  StoreCall "NewLeaderHelloBlock list"
| UpdateCall NewLeaderHelloBlock
| ByIDCall slice
| ByIndexCall u64
| LatestCall
| GenesisCall

datatype ledger_answer =
  StoredIDs "slice list" "go_error option"
| UpdatedLatest
| TheBlock "NewLeaderHelloBlock option"
| NotFound go_error
| TheID slice

definition entry :: "ledger \<Rightarrow> slice \<Rightarrow> NewLeaderHelloBlock option" where
  "entry l i = Option.bind i (entries l)"

definition enter :: "NewLeaderHelloBlock list \<Rightarrow> ledger \<Rightarrow> ledger" where
  "enter bs l = l\<lparr>entries := foldl (\<lambda>m b. m(slice_bytes (hb_Hash b) \<mapsto> b)) (entries l) bs\<rparr>"

text \<open>
  What each call may answer. A store takes all blocks or, with an error, none; a block is given out
  with the same contents.
\<close>

fun ledger_spec :: "ledger_call \<Rightarrow> ledger \<Rightarrow> ledger_answer \<Rightarrow> ledger \<Rightarrow> bool" where
  "ledger_spec (StoreCall bs) l (StoredIDs ids None) l' \<longleftrightarrow> ids = map hb_Hash bs \<and> l' = enter bs l"
| "ledger_spec (StoreCall bs) l (StoredIDs ids (Some err)) l' \<longleftrightarrow> l' = l"
| "ledger_spec (UpdateCall b) l UpdatedLatest l' \<longleftrightarrow>
     l' = l\<lparr>latest := hb_Hash b, heights := (heights l)(hb_Index b \<mapsto> hb_Hash b)\<rparr>"
| "ledger_spec (ByIDCall i) l (TheBlock c) l' \<longleftrightarrow> rel_option same_block c (entry l i) \<and> l' = l"
| "ledger_spec (ByIndexCall n) l (TheBlock c) l' \<longleftrightarrow>
     (\<exists>i. heights l n = Some i \<and> rel_option same_block c (entry l i)) \<and> l' = l"
| "ledger_spec (ByIndexCall n) l (NotFound err) l' \<longleftrightarrow> heights l n = None \<and> l' = l"
| "ledger_spec LatestCall l (TheBlock c) l' \<longleftrightarrow> rel_option same_block c (entry l (latest l)) \<and> l' = l"
| "ledger_spec GenesisCall l (TheID i) l' \<longleftrightarrow> i = (case heights l 0 of None \<Rightarrow> None | Some i \<Rightarrow> i) \<and> l' = l"
| "ledger_spec _ _ _ _ \<longleftrightarrow> False"

primrec ledger_run :: "('k, 'v) db_env \<Rightarrow> ledger_call \<Rightarrow> ('k BlockDB, ledger_answer) prog" where
  "ledger_run E (StoreCall bs) = bnd (StoreBlocks E (map Some bs)) (\<lambda>(ids, err). ret (StoredIDs ids err))"
| "ledger_run E (UpdateCall b) = bnd (UpdateLatest (Some b)) (\<lambda>_. ret UpdatedLatest)"
| "ledger_run E (ByIDCall i) = bnd (GetByID E i) (\<lambda>b. ret (TheBlock b))"
| "ledger_run E (ByIndexCall n) =
     bnd (GetBlockByIndex E n) (\<lambda>r. ret (case r of Inl err \<Rightarrow> NotFound err | Inr b \<Rightarrow> TheBlock b))"
| "ledger_run E LatestCall = bnd (GetLatest E) (\<lambda>b. ret (TheBlock b))"
| "ledger_run E GenesisCall = bnd GetGenesisID (\<lambda>i. ret (TheID i))"

text \<open>Blocks that have a de-fork block may be stored; \<open>Copy\<close> panics on the others.\<close>

primrec call_ok :: "ledger_call \<Rightarrow> bool" where
  "call_ok (StoreCall bs) \<longleftrightarrow> list_all (\<lambda>b. hb_Block b \<noteq> None) bs"
| "call_ok (UpdateCall b) \<longleftrightarrow> True"
| "call_ok (ByIDCall i) \<longleftrightarrow> True"
| "call_ok (ByIndexCall n) \<longleftrightarrow> True"
| "call_ok LatestCall \<longleftrightarrow> True"
| "call_ok GenesisCall \<longleftrightarrow> True"

definition holds_entry :: "('k, 'v) db_env \<Rightarrow> 'k BlockDB \<Rightarrow> 'k \<Rightarrow> bytes \<Rightarrow> NewLeaderHelloBlock option \<Rightarrow> bool" where
  "holds_entry E db k h e \<longleftrightarrow> (case e of None \<Rightarrow> bucket_get E k h = None | Some b \<Rightarrow> stored E db h b)"

text \<open>The mutex is not part of the data: \<open>GetLatest\<close> reads while it holds it.\<close>

definition ledger_data :: "('k, 'v) db_env \<Rightarrow> 'k BlockDB \<Rightarrow> ledger \<Rightarrow> bool" where
  "ledger_data E db l \<longleftrightarrow> latestBlockID db = latest l \<and> blockIndexMap db = heights l \<and>
     (\<exists>k. bucket db = Some k \<and> (\<forall>h. holds_entry E db k h (entries l h)))"

definition ledger_rel :: "('k, 'v) db_env \<Rightarrow> 'k BlockDB \<Rightarrow> ledger \<Rightarrow> bool" where
  "ledger_rel E db l \<longleftrightarrow> \<not> latestMutex db \<and> ledger_data E db l"

lemma holds_entry_simps [simp]:
  "holds_entry E (tick db) = holds_entry E db" "holds_entry E (indexed db b) = holds_entry E db"
  "holds_entry E (put_latestMutex m db) = holds_entry E db"
  by (simp_all add: holds_entry_def stored_def fun_eq_iff cong: option.case_cong)

lemma ledger_data_simps [simp]:
  "ledger_data E (tick db) l = ledger_data E db l" "ledger_data E (put_latestMutex m db) l = ledger_data E db l"
  by (simp_all add: ledger_data_def)

lemma ledger_rel_indexed:
  "ledger_rel E db l \<Longrightarrow>
   ledger_rel E (indexed db b) (l\<lparr>latest := hb_Hash b, heights := (heights l)(hb_Index b \<mapsto> hb_Hash b)\<rparr>)"
  by (simp add: ledger_rel_def ledger_data_def)

lemma enter_find:
  "entries (enter bs l) h =
     (case List.find (\<lambda>b. slice_bytes (hb_Hash b) = h) (rev bs) of None \<Rightarrow> entries l h | Some b \<Rightarrow> Some b)"
  by (induction bs rule: rev_induct) (auto simp: enter_def)

lemma fetched:
  assumes "ledger_data E db l"
  shows "\<exists>c db'. GetByID E i db = Returns c db' \<and> rel_option same_block c (entry l i) \<and> db' \<in> {db, tick db}"
proof (cases i)
  case None
  then show ?thesis by (simp add: prog_simps entry_def)
next
  case (Some h)
  obtain k where k: "bucket db = Some k" "holds_entry E db k h (entries l h)"
    using assms by (auto simp: ledger_data_def)
  show ?thesis
  proof (cases "entries l h")
    case None
    with k have "GetByID E i db = Returns None db"
      by (simp add: Some GetByID_def getFromTx_def prog_simps holds_entry_def)
    with None Some show ?thesis by (simp add: entry_def)
  next
    case (Some b)
    with k have "stored E db h b" by (simp add: holds_entry_def)
    from GetByID_stored [OF this] obtain c where "GetByID E i db = Returns (Some c) (tick db)" "same_block c b"
      using \<open>i = Some h\<close> by auto
    with Some \<open>i = Some h\<close> show ?thesis by (simp add: entry_def)
  qed
qed

lemma fetched_rel:
  assumes "ledger_rel E db l"
  shows "\<exists>c db'. GetByID E i db = Returns c db' \<and> rel_option same_block c (entry l i) \<and> ledger_rel E db' l"
  using fetched [of E db l i] assms by (auto simp: ledger_rel_def)

lemma GetLatest_rel:
  assumes "ledger_rel E db l"
  shows "\<exists>c db'. GetLatest E db = Returns c db' \<and> rel_option same_block c (entry l (latest l)) \<and> ledger_rel E db' l"
proof -
  from fetched [of E "put_latestMutex True db" l "latest l"] assms obtain c db' where
    c: "GetByID E (latest l) (put_latestMutex True db) = Returns c db'" "rel_option same_block c (entry l (latest l))"
      "db' \<in> {put_latestMutex True db, tick (put_latestMutex True db)}" by (auto simp: ledger_rel_def)
  have "GetLatest E db = Returns c (put_latestMutex False db')"
    using assms c(1) by (simp add: GetLatest_def prog_simps ledger_rel_def ledger_data_def)
  with c(2,3) assms show ?thesis by (auto simp: ledger_rel_def)
qed

lemma store_all_returns:
  "\<exists>ids err k'. store_all E (map Some bs) acc (Some k) = Returns (ids, err) (Some k')"
proof (induction bs arbitrary: acc k)
  case (Cons b bs)
  show ?case
  proof (cases "marshal E b")
    case (Inr v)
    obtain err k1 where "bucket_put E k (slice_bytes (hb_Hash b)) v = (err, k1)" by fastforce
    with Inr Cons.IH [of "acc @ [hb_Hash b]" k1] show ?thesis
      by (cases err) (simp_all add: storeToTx_def prog_simps)
  qed (simp add: storeToTx_def prog_simps)
qed (simp add: prog_simps)

lemma StoreBlocks_returns:
  assumes "bucket db = Some k"
  shows "\<exists>ids err db'. StoreBlocks E (map Some bs) db = Returns (ids, err) db'"
proof -
  obtain ids err k' where "store_all E (map Some bs) [] (Some k) = Returns (ids, err) (Some k')"
    using store_all_returns [of E bs "[]" k] by blast
  with assms show ?thesis by (auto simp: StoreBlocks_def split: option.split)
qed

context storage
begin

lemma store_related:
  assumes "ledger_rel E db l" "list_all (\<lambda>b. hb_Block b \<noteq> None) bs" "StoreBlocks E (map Some bs) db = Returns (ids, None) db'"
  shows "ids = map hb_Hash bs \<and> ledger_rel E db' (enter bs l)"
proof -
  obtain k where k: "bucket db = Some k" "\<And>h. holds_entry E db k h (entries l h)"
    using assms(1) by (auto simp: ledger_rel_def ledger_data_def)
  from StoreBlocks_holds [OF assms(3) k(1)] obtain k' where
    k': "db' = db\<lparr>bucket := Some k'\<rparr>" "ids = map hb_Hash bs" "holds_last E k k' bs" by blast
  have "holds_entry E db' k' h (entries (enter bs l) h)" for h
  proof (cases "List.find (\<lambda>b. slice_bytes (hb_Hash b) = h) (rev bs)")
    case None
    then have "bucket_get E k' h = bucket_get E k h"
      using k'(3) by (auto simp: holds_last_def dest: spec [of _ h])
    with k(1) k(2) [of h] k'(1) None show ?thesis
      by (simp add: enter_find holds_entry_def stored_def split: option.splits)
  next
    case (Some b)
    then obtain v where v: "marshal E b = Inr v" "bucket_get E k' h = Some v"
      using spec [OF k'(3) [unfolded holds_last_def], of h] by auto
    have "b \<in> set bs" using Some by (auto simp: find_Some_iff) (metis nth_mem length_rev set_rev)
    then have "hb_Block b \<noteq> None" using assms(2) by (simp add: list_all_iff)
    with v(1) show ?thesis
      by (rule decoded) (use v(2) k'(1) Some in \<open>auto simp: enter_find holds_entry_def stored_def\<close>)
  qed
  with assms(1) k' show ?thesis by (auto simp: ledger_rel_def ledger_data_def enter_def)
qed

lemma ledger_simulates:
  assumes "ledger_rel E db l" "call_ok c"
  shows "\<exists>r db' l'. ledger_run E c db = Returns r db' \<and> ledger_spec c l r l' \<and> ledger_rel E db' l'"
proof (cases c)
  case (StoreCall bs)
  obtain k where "bucket db = Some k" using assms(1) by (auto simp: ledger_rel_def ledger_data_def)
  from StoreBlocks_returns [OF this] obtain ids err db' where
    run: "StoreBlocks E (map Some bs) db = Returns (ids, err) db'" by blast
  show ?thesis
  proof (cases err)
    case None
    with store_related [OF assms(1) _ run [unfolded None]] assms(2) run StoreCall show ?thesis
      by (intro exI [of _ "StoredIDs ids None"] exI [of _ db'] exI [of _ "enter bs l"]) (simp add: prog_simps)
  next
    case (Some e)
    with StoreBlocks_error_keeps run have "db' = db" by blast
    with assms(1) run StoreCall Some show ?thesis
      by (intro exI [of _ "StoredIDs ids (Some e)"] exI [of _ db] exI [of _ l]) (simp add: prog_simps)
  qed
next
  case (UpdateCall b)
  have "\<not> latestMutex db" using assms(1) by (simp add: ledger_rel_def)
  with UpdateCall ledger_rel_indexed [OF assms(1), of b] show ?thesis
    by (intro exI [of _ UpdatedLatest] exI [of _ "indexed db b"] exI) (auto simp: prog_simps UpdateLatest_eval)
next
  case (ByIDCall i)
  from fetched_rel [OF assms(1), of i] obtain r db' where
    "GetByID E i db = Returns r db'" "rel_option same_block r (entry l i)" "ledger_rel E db' l" by blast
  with ByIDCall show ?thesis
    by (intro exI [of _ "TheBlock r"] exI [of _ db'] exI [of _ l]) (simp add: prog_simps)
next
  case (ByIndexCall n)
  have n: "blockIndexMap db n = heights l n" using assms(1) by (simp add: ledger_rel_def ledger_data_def)
  show ?thesis
  proof (cases "heights l n")
    case None
    with n assms(1) ByIndexCall show ?thesis
      by (intro exI [of _ "NotFound ''no block found''"] exI [of _ db] exI [of _ l]) (simp add: GetBlockByIndex_def prog_simps)
  next
    case (Some i)
    from fetched_rel [OF assms(1), of i] obtain r db' where
      "GetByID E i db = Returns r db'" "rel_option same_block r (entry l i)" "ledger_rel E db' l" by blast
    with n Some ByIndexCall show ?thesis
      by (intro exI [of _ "TheBlock r"] exI [of _ db'] exI [of _ l]) (simp add: GetBlockByIndex_def prog_simps)
  qed
next
  case LatestCall
  from GetLatest_rel [OF assms(1)] obtain r db' where
    "GetLatest E db = Returns r db'" "rel_option same_block r (entry l (latest l))" "ledger_rel E db' l" by blast
  with LatestCall show ?thesis
    by (intro exI [of _ "TheBlock r"] exI [of _ db'] exI [of _ l]) (simp add: prog_simps)
next
  case GenesisCall
  with assms(1) show ?thesis
    by (intro exI [of _ "TheID (genesis_of db)"] exI [of _ db] exI [of _ l])
      (simp add: prog_simps genesis_of_def ledger_rel_def ledger_data_def)
qed

end

lemma ledger_rel_new:
  assumes "\<And>h. bucket_get E k h = None"
  shows "ledger_rel E (NewBlockDB (Some k)) empty_ledger"
  using assms by (simp add: ledger_rel_def ledger_data_def NewBlockDB_def empty_ledger_def holds_entry_def)

sublocale storage \<subseteq> ledger: simulation "ledger_run E" ledger_spec "ledger_rel E" call_ok
  by unfold_locales (rule ledger_simulates)

context storage
begin

lemma ledger_runs:
  assumes "\<And>h. bucket_get E k h = None" "list_all call_ok cs"
  shows "\<exists>rs db l. run_all (ledger_run E) cs (NewBlockDB (Some k)) = Returns rs db \<and>
    allowed ledger_spec empty_ledger cs rs l \<and> ledger_rel E db l"
  by (rule ledger.runs [OF ledger_rel_new [OF assms(1)] assms(2)])

end

text \<open>
  C8: The database of blocks is a ledger. Whatever sequence of stores, updates and queries is made of
  a new database with an empty bucket, every call returns, none panics or waits, and the answers are
  those of the ledger: a store, of blocks that have a de-fork block, enters all of them or, with an error, none, a later block under a hash
  replaces an earlier one, \<open>GetByID\<close>, \<open>GetBlockByIndex\<close> and \<open>GetLatest\<close> give out what was entered under the hash,
  the height or as the latest block, and \<open>GetGenesisID\<close> the hash at height 0.
\<close>

theorem database_is_ledger:
  assumes "storage E" "\<And>h. bucket_get E k h = None" "list_all call_ok cs"
  shows "\<exists>rs db l. run_all (ledger_run E) cs (NewBlockDB (Some k)) = Returns rs db \<and>
    allowed ledger_spec empty_ledger cs rs l \<and> ledger_rel E db l"
  by (rule storage.ledger_runs [OF assms])

fun_cases ledger_updateE: "ledger_spec (UpdateCall b) l r l'"
  and ledger_byIndexE: "ledger_spec (ByIndexCall n) l r l'"
  and ledger_genesisE: "ledger_spec GenesisCall l r l'"

text \<open>A latest block that was not stored: its height leads to no block, the next height to an error.\<close>

lemma database_is_ledger_witness:
  "\<exists>err db. run_all (ledger_run mem_env) [UpdateCall (sample_hello []), ByIndexCall 3, ByIndexCall 4, GenesisCall]
     (NewBlockDB (Some [])) = Returns [UpdatedLatest, TheBlock None, NotFound err, TheID None] db"
proof -
  let ?cs = "[UpdateCall (sample_hello []), ByIndexCall 3, ByIndexCall 4, GenesisCall]"
  have ok: "list_all call_ok ?cs" by simp
  have "bucket_get mem_env [] h = None" for h by (simp add: mem_env_def)
  from database_is_ledger [OF mem.storage_axioms this ok] obtain rs db l where
    "run_all (ledger_run mem_env) ?cs (NewBlockDB (Some [])) = Returns rs db" "allowed ledger_spec empty_ledger ?cs rs l"
    by blast
  moreover from this(2) have "\<exists>err. rs = [UpdatedLatest, TheBlock None, NotFound err, TheID None]"
    by (auto elim!: ledger_updateE ledger_byIndexE ledger_genesisE
        simp: sample_hello_def empty_ledger_def entry_def)
  ultimately show ?thesis by blast
qed

end
