(* ===== verification/Directory.thy ===== *)
theory Directory
  imports Typing Simulation "HOL-Library.Sublist" "HOL-Library.Char_ord" "HOL-Library.List_Lexorder"
begin

text \<open>
  The contract of the peer storage: a directory of identities by their keys. The client call \<open>Peer\<close>, the
  tasks it starts and the handler of pings are simulated by it; which of the pinged peers answer is
  the network's choice.
\<close>

type_synonym directory = "string \<rightharpoonup> ServerIdentity"

datatype peer_call =
  AskPeers string "ServerIdentity list"
| ConnectTask "ServerIdentity list"
| ForgetTask "ServerIdentity list"
| PingFrom ServerIdentity

datatype peer_answer = Peers "ServerIdentity list" | Refused go_error | Quiet

definition listed :: "directory \<Rightarrow> ServerIdentity \<Rightarrow> bool" where
  "listed d si \<longleftrightarrow> d (the (si_Public si)) \<noteq> None"

fun directory_spec :: "peer_call \<Rightarrow> directory \<Rightarrow> peer_answer \<Rightarrow> directory \<Rightarrow> bool" where
  "directory_spec (AskPeers command ps) d answer d' \<longleftrightarrow> d' = d \<and>
     (if command = ''add'' then answer = Peers (filter (\<lambda>p. \<not> listed d p) ps)
      else if command = ''del'' then answer = Peers (filter (listed d) ps)
      else if command = ''show'' then
        (if ps = [] then \<exists>qs. answer = Peers qs \<and> distinct qs \<and> set qs = ran d else answer = Peers ps)
      else answer = Refused ''Command not supported'')"
| "directory_spec (ConnectTask ps) d answer d' \<longleftrightarrow> answer = Quiet \<and> (\<exists>qs. subseq qs ps \<and> d' = bind_peers qs d)"
| "directory_spec (ForgetTask ps) d answer d' \<longleftrightarrow> answer = Quiet \<and> d' = unbind_peers ps d"
| "directory_spec (PingFrom si) d answer d' \<longleftrightarrow> answer = Quiet \<and> d' = d(the (si_Public si) \<mapsto> si)"

primrec peer_run :: "('k, 'v) node_env \<Rightarrow> peer_call \<Rightarrow> ('k, peer_answer) node" where
  "peer_run E (AskPeers command ps) =
     bnd (Peer E command ps) (\<lambda>r. ret (case r of Inl err \<Rightarrow> Refused err | Inr qs \<Rightarrow> Peers qs))"
| "peer_run E (ConnectTask ps) = bnd (run_task E (AddPeers ps True)) (\<lambda>_. ret Quiet)"
| "peer_run E (ForgetTask ps) = bnd (run_task E (RemovePeers ps)) (\<lambda>_. ret Quiet)"
| "peer_run E (PingFrom si) =
     bnd (handlePingMessage E \<lparr>env_ServerIdentity = si, env_Msg = PingMessage ''Ping Message''\<rparr>) (\<lambda>_. ret Quiet)"

primrec peers_ok :: "peer_call \<Rightarrow> bool" where
  "peers_ok (AskPeers command ps) \<longleftrightarrow> list_all has_key ps"
| "peers_ok (ConnectTask ps) \<longleftrightarrow> list_all has_key ps"
| "peers_ok (ForgetTask ps) \<longleftrightarrow> list_all has_key ps"
| "peers_ok (PingFrom si) \<longleftrightarrow> has_key si"

definition directory_rel :: "('k, 'v) node_env \<Rightarrow> 'k Service \<Rightarrow> directory \<Rightarrow> bool" where
  "directory_rel E s d \<longleftrightarrow> orders_keys E \<and> \<not> ps_locked (peerStorage s) \<and> peerNodeMap (peerStorage s) = d \<and> keyed d"

lemma answering_subseq: "subseq (answering E n ps) ps"
  by (induction ps arbitrary: n) auto

lemma bind_peers_keyed:
  "keyed d \<Longrightarrow> list_all has_key ps \<Longrightarrow> keyed (bind_peers ps d)"
proof (induction ps arbitrary: d)
  case (Cons p ps)
  then obtain key where "si_Public p = Some key" by (auto simp: has_key_def)
  with Cons keyed_put [OF Cons.prems(1) this] show ?case by simp
qed simp

lemma unbind_peers_keyed: "keyed d \<Longrightarrow> keyed (unbind_peers ps d)"
  unfolding keyed_def unbind_peers_def by (auto elim!: rev_finite_subset split: if_splits)

text \<open>In a keyed directory no identity is listed twice.\<close>

lemma listing:
  assumes "orders_keys E" "keyed d"
  shows "distinct (peer_list E d)" "set (peer_list E d) = ran d"
proof -
  have en: "enumerates (key_order E (dom d)) d" using orders_enumerates assms by (auto simp: keyed_def)
  then show "set (peer_list E d) = ran d" by (simp add: peer_list_def map_values_enumerates)
  have same: "x = y" if "d x = Some si" "d y = Some si" for x y si
    using assms(2) that unfolding keyed_def by (metis option.inject)
  have "distinct (map_values ks d)" if "distinct ks" for ks
    using that
  proof (induction ks)
    case (Cons k ks)
    then show ?case by (auto simp: map_values_def List.map_filter_def dest: same)
  qed (simp add: map_values_def List.map_filter_def)
  with en show "distinct (peer_list E d)" by (simp add: peer_list_def enumerates_def)
qed

lemma Peer_eval:
  assumes "list_all has_key ps" "\<not> ps_locked (peerStorage s)"
  shows "\<exists>s'. Peer E command ps s = Returns
    (if command = ''add'' then Inr (filter (\<lambda>p. \<not> listed (peerNodeMap (peerStorage s)) p) ps)
     else if command = ''del'' then Inr (filter (listed (peerNodeMap (peerStorage s))) ps)
     else if command = ''show'' then Inr (if ps = [] then peer_list E (peerNodeMap (peerStorage s)) else ps)
     else Inl ''Command not supported'') s' \<and> peerStorage s' = peerStorage s"
proof -
  have select: "select_peers known ps (put_ps_locked True s) =
      Returns (filter (\<lambda>p. listed (peerNodeMap (peerStorage s)) p = known) ps) (put_ps_locked True s)" for known
    by (simp add: select_peers_eval [OF assms(1)] listed_def del: not_None_eq)
  consider "command = ''add''" | "command = ''del''" | "command = ''show''" | "command \<notin> {''add'', ''del'', ''show''}" by blast
  then show ?thesis
    using assms(2) by cases (simp_all add: Peer_def with_peers_def prog_simps select)
qed

lemma ping_adopts:
  assumes "si_Public si = Some key" "\<not> ps_locked (peerStorage s)"
  shows "handlePingMessage E \<lparr>env_ServerIdentity = si, env_Msg = PingMessage m\<rparr> s = Returns None (put_peer key si s)"
  using assms by (simp add: handlePingMessage_def AddPeerServerIdentity_def with_peers_def ping_and_add_def prog_simps put_peer_def)

lemma directory_simulates:
  assumes "directory_rel E s d" "peers_ok c"
  shows "\<exists>r s' d'. peer_run E c s = Returns r s' \<and> directory_spec c d r d' \<and> directory_rel E s' d'"
proof -
  have free: "\<not> ps_locked (peerStorage s)" and d: "peerNodeMap (peerStorage s) = d" "keyed d" "orders_keys E"
    using assms(1) by (auto simp: directory_rel_def)
  show ?thesis
  proof (cases c)
    case (AskPeers command ps)
    then have "list_all has_key ps" using assms(2) by simp
    from Peer_eval [OF this free, of E command, unfolded d(1)] obtain r s' where
      run: "Peer E command ps s = Returns r s'" "peerStorage s' = peerStorage s" and
      r: "r = (if command = ''add'' then Inr (filter (\<lambda>p. \<not> listed d p) ps) else if command = ''del'' then Inr (filter (listed d) ps)
        else if command = ''show'' then Inr (if ps = [] then peer_list E d else ps) else Inl ''Command not supported'')" by blast
    have "directory_rel E s' d" using run(2) assms(1) by (simp add: directory_rel_def)
    moreover have "peer_run E c s = Returns (case r of Inl err \<Rightarrow> Refused err | Inr qs \<Rightarrow> Peers qs) s'"
      using AskPeers run(1) by (simp add: prog_simps)
    moreover have "directory_spec c d (case r of Inl err \<Rightarrow> Refused err | Inr qs \<Rightarrow> Peers qs) d"
      using AskPeers listing [OF d(3,2)] by (simp add: r)
    ultimately show ?thesis by blast
  next
    case (ConnectTask ps)
    with assms(2) AddPeer_connected [OF _ free, of ps E] answering_subseq [of E "length (outbox s)" ps]
      bind_peers_keyed [OF d(2) answering_keys] d free show ?thesis
      by (auto simp: prog_simps directory_rel_def)
  next
    case (ForgetTask ps)
    with assms(2) Remove_eval [OF _ free, of ps] unbind_peers_keyed [OF d(2)] d free show ?thesis
      by (auto simp: prog_simps directory_rel_def)
  next
    case (PingFrom si)
    then obtain key where key: "si_Public si = Some key" using assms(2) by (auto simp: has_key_def)
    with PingFrom ping_adopts [OF key free, of E "''Ping Message''"] keyed_put [OF d(2) key] d free show ?thesis
      by (auto simp: prog_simps directory_rel_def put_peer_def)
  qed
qed

interpretation directory: simulation "peer_run E" directory_spec "directory_rel E" peers_ok for E
  by unfold_locales (rule directory_simulates)

text \<open>
  C9: The peer storage is a directory. From a new node, and for peers with keys, every sequence of
  client calls, connecting and removing tasks and pings from others returns, with the answers of the
  directory: \<open>add\<close> names the peers that are not listed, \<open>del\<close> those that are, \<open>show\<close> lists every identity
  once, connecting enters the peers that answer and no others, removing deletes exactly the named keys, and
  a ping enters its sender.
\<close>

theorem peers_are_directory:
  assumes "orders_keys E" "list_all peers_ok cs"
  shows "\<exists>rs s d. run_all (peer_run E) cs (fresh_service bk) = Returns rs s \<and>
    allowed directory_spec Map.empty cs rs d \<and> peerNodeMap (peerStorage s) = d"
proof -
  have "directory_rel E (fresh_service bk) Map.empty"
    using assms(1) by (simp add: directory_rel_def fresh_service_def keyed_def)
  from directory.runs [OF this assms(2)] show ?thesis by (auto simp: directory_rel_def)
qed

definition sorted_env :: "((bytes \<times> Message) list, Message) node_env" where
  "sorted_env = sample_env\<lparr>key_order := sorted_list_of_set\<rparr>"

text \<open>A node that is pinged by one peer has it listed, so it will not connect to it, and can remove it.\<close>

lemma peers_are_directory_witness:
  "\<exists>s. run_all (peer_run sorted_env) [PingFrom (sample_peer ''a''), AskPeers ''add'' [sample_peer ''a''], AskPeers ''del'' [sample_peer ''a'']]
     (fresh_service (Some [])) = Returns [Quiet, Peers [], Peers [sample_peer ''a'']] s"
proof -
  let ?cs = "[PingFrom (sample_peer ''a''), AskPeers ''add'' [sample_peer ''a''], AskPeers ''del'' [sample_peer ''a'']]"
  have key: "si_Public (sample_peer ''a'') = Some ''a''" by (simp add: sample_peer_def)
  have 1: "orders_keys sorted_env" by (simp add: orders_keys_def sorted_env_def)
  have 2: "list_all peers_ok ?cs" by (simp add: has_key_def key)
  from peers_are_directory [OF 1 2] obtain rs s d where
    run: "run_all (peer_run sorted_env) ?cs (fresh_service (Some [])) = Returns rs s" and
    "allowed directory_spec Map.empty ?cs rs d" by blast
  from this(2) have "rs = [Quiet, Peers [], Peers [sample_peer ''a'']]"
    by (elim allowed_cases) (simp add: listed_def key)
  with run show ?thesis by blast
qed

end
