(* ===== verification/Printing.thy ===== *)
theory Printing
  imports Blocks Format
begin

text \<open>
  blockchain/block.go, the \<open>String\<close> methods of blocks, which the command line prints: one line per field.
  The time zone of the process is an argument. The texts determine the printed fields.
\<close>

section \<open>The methods\<close>

text \<open>\<open>"\n\t"\<close>, a label and a value.\<close>

definition item :: "string \<Rightarrow> string \<Rightarrow> string" where
  "item label text = CHR 0x0A # CHR 0x09 # label @ text"

text \<open>\<open>%v\<close> of a \<open>[]string\<close>.\<close>

fun spaced :: "string list \<Rightarrow> string" where
  "spaced [] = []"
| "spaced [s] = s"
| "spaced (s # t # ss) = s @ '' '' @ spaced (t # ss)"

definition show_strings :: "string list \<Rightarrow> string" where
  "show_strings ss = ''['' @ spaced ss @ '']''"

definition Hello_String :: "(int \<Rightarrow> int) \<Rightarrow> NewLeaderHelloBlock \<Rightarrow> string" where
  "Hello_String zone hb =
     ''Block '' @ digits (unat (hb_Index hb)) @
     item ''Height: '' (digits (unat (hb_Index hb))) @
     item ''Version: '' (digits (unat (hb_Version hb))) @
     item ''Timestamp: '' (format_time zone (hb_Timestamp hb)) @
     item ''PrevBlock: '' (hex_encode (slice_bytes (hb_PrevBlock hb))) @
     item ''MerkleRoot: '' (hex_encode (slice_bytes (hb_MerkleRoot hb))) @
     item ''PublicKey: '' (hb_PublicKey hb) @
     item ''Addresses: '' (show_strings (hb_Addresses hb)) @
     item ''Hash: '' (hex_encode (slice_bytes (hb_Hash hb)))"

definition Block_String :: "(int \<Rightarrow> int) \<Rightarrow> Block \<Rightarrow> string" where
  "Block_String zone b =
     item ''Version: '' (digits (unat (bh_Version (b_Header b)))) @
     item ''Bits: 0x'' (hex_nat (unat (bh_Bits (b_Header b)))) @
     item ''Nonce: '' (digits (unat (bh_Nonce (b_Header b)))) @
     item ''Timestamp: '' (format_time zone (bh_Timestamp (b_Header b))) @
     item ''PrevBlock: '' (hex_encode (slice_bytes (bh_PrevBlock (b_Header b)))) @
     item ''PublicKey: '' (bh_PublicKey (b_Header b)) @
     item ''Data: '' (hex_encode (slice_bytes (bh_Data (b_Header b)))) @
     item ''Hash: '' (hex_encode (slice_bytes (b_Hash b)))"

section \<open>What the text tells\<close>

text \<open>A value of a line has no line break.\<close>

definition one_line :: "string \<Rightarrow> bool" where
  "one_line s \<longleftrightarrow> CHR 0x0A \<notin> set s"

lemma one_line_printed [simp]:
  "one_line (digits n)" "one_line (hex_nat n)" "one_line (hex_encode bs)" "one_line (format_time zone t)"
proof -
  have "CHR 0x0A \<notin> set ''0123456789''" "CHR 0x0A \<notin> set hex_digits" by (simp_all add: hex_digits_def)
  then show "one_line (digits n)" "one_line (hex_nat n)" "one_line (hex_encode bs)"
    unfolding one_line_def using digit_chars [of n] hex_nat_chars [of n] hex_encode_chars [of bs] by blast+
  show "one_line (format_time zone t)" by (simp add: one_line_def format_time_def show_date_line)
qed

lemma one_line_strings: "(\<And>s. s \<in> set ss \<Longrightarrow> one_line s) \<Longrightarrow> one_line (show_strings ss)"
proof -
  assume "\<And>s. s \<in> set ss \<Longrightarrow> one_line s"
  then have "one_line (spaced ss)" by (induction ss rule: spaced.induct) (auto simp: one_line_def)
  then show ?thesis by (simp add: show_strings_def one_line_def)
qed

text \<open>The lines of a text come apart one by one.\<close>

lemma item_split:
  assumes "one_line s" "one_line t"
  shows "item l s @ item m x = item l t @ item m y \<longleftrightarrow> s = t \<and> item m x = item m y"
    and "s @ item m x = t @ item m y \<longleftrightarrow> s = t \<and> item m x = item m y"
    and "item l s @ item m x @ u = item l t @ item m y @ v \<longleftrightarrow> s = t \<and> item m x @ u = item m y @ v"
    and "s @ item m x @ u = t @ item m y @ v \<longleftrightarrow> s = t \<and> item m x @ u = item m y @ v"
  using assms by (auto simp: item_def one_line_def split_at)

lemma item_inject [simp]: "item l s = item l t \<longleftrightarrow> s = t"
  by (simp add: item_def)

text \<open>
  C23: What the text of a leader's block tells. In a time zone less than a day off UTC, for blocks whose key
  and addresses have no line breaks, two texts are equal exactly if the blocks agree on height,
  version, the local second of the time stamp, previous hash, Merkle root, key, the printed
  addresses and hash. Nanoseconds, the elected blocks and the transactions are not printed.
\<close>

theorem Hello_String_tells:
  assumes "\<And>t. \<bar>zone t\<bar> \<le> 86400" "one_line (hb_PublicKey a)" "one_line (hb_PublicKey b)"
    and "list_all one_line (hb_Addresses a)" "list_all one_line (hb_Addresses b)"
  shows "Hello_String zone a = Hello_String zone b \<longleftrightarrow>
    hb_Index a = hb_Index b \<and> hb_Version a = hb_Version b \<and>
    local_second zone (sint (hb_Timestamp a)) = local_second zone (sint (hb_Timestamp b)) \<and>
    slice_bytes (hb_PrevBlock a) = slice_bytes (hb_PrevBlock b) \<and>
    slice_bytes (hb_MerkleRoot a) = slice_bytes (hb_MerkleRoot b) \<and> hb_PublicKey a = hb_PublicKey b \<and>
    show_strings (hb_Addresses a) = show_strings (hb_Addresses b) \<and>
    slice_bytes (hb_Hash a) = slice_bytes (hb_Hash b)"
proof -
  have addresses: "one_line (show_strings (hb_Addresses a))" "one_line (show_strings (hb_Addresses b))"
    using assms(4,5) by (simp_all add: one_line_strings list_all_iff)
  show ?thesis
    unfolding Hello_String_def same_append_eq
    by (simp only: item_split one_line_printed assms(2,3) addresses item_inject digits_inject hex_encode_inject
        format_time_inject [OF assms(1) assms(1)] word_unat_eq_iff [symmetric]) auto
qed

text \<open>The same for candidate blocks.\<close>

theorem Block_String_tells:
  assumes "\<And>t. \<bar>zone t\<bar> \<le> 86400" "one_line (bh_PublicKey (b_Header a))" "one_line (bh_PublicKey (b_Header b))"
  shows "Block_String zone a = Block_String zone b \<longleftrightarrow>
    bh_Version (b_Header a) = bh_Version (b_Header b) \<and> bh_Bits (b_Header a) = bh_Bits (b_Header b) \<and>
    bh_Nonce (b_Header a) = bh_Nonce (b_Header b) \<and>
    local_second zone (sint (bh_Timestamp (b_Header a))) = local_second zone (sint (bh_Timestamp (b_Header b))) \<and>
    slice_bytes (bh_PrevBlock (b_Header a)) = slice_bytes (bh_PrevBlock (b_Header b)) \<and>
    bh_PublicKey (b_Header a) = bh_PublicKey (b_Header b) \<and>
    slice_bytes (bh_Data (b_Header a)) = slice_bytes (bh_Data (b_Header b)) \<and> slice_bytes (b_Hash a) = slice_bytes (b_Hash b)"
  unfolding Block_String_def
  by (simp only: item_split one_line_printed assms(2,3) item_inject digits_inject hex_nat_inject hex_encode_inject
      format_time_inject [OF assms(1) assms(1)] word_unat_eq_iff [symmetric])

text \<open>Two blocks that elect differently print alike; the next height prints differently.\<close>

lemma Hello_String_tells_witness:
  "Hello_String (\<lambda>t. 0) ((sample_hello [])\<lparr>hb_Block := None\<rparr>) = Hello_String (\<lambda>t. 0) (sample_hello []) \<and>
   Hello_String (\<lambda>t. 0) ((sample_hello [])\<lparr>hb_Index := 4\<rparr>) \<noteq> Hello_String (\<lambda>t. 0) (sample_hello [])"
proof -
  have "one_line (hb_PublicKey (sample_hello []))" "list_all one_line (hb_Addresses (sample_hello []))"
    by (simp_all add: sample_hello_def one_line_def)
  then show ?thesis
    using Hello_String_tells [of "\<lambda>t. 0" "(sample_hello [])\<lparr>hb_Block := None\<rparr>" "sample_hello []"]
      Hello_String_tells [of "\<lambda>t. 0" "(sample_hello [])\<lparr>hb_Index := 4\<rparr>" "sample_hello []"]
    by (simp add: sample_hello_def)
qed

end
