(* ===== verification/ChainIndex.thy ===== *)
theory ChainIndex
  imports ChainState
begin

text \<open>
  blockchain/chain.go: \<open>initChainState\<close> and \<open>New\<close>, how a block chain is loaded from its database. The
  source is unfinished: the last \<open>View\<close> has no function, \<open>header\<close> stands for the block that was read,
  and \<open>createChainState\<close>, \<open>migrateBlockIndex\<close>, \<open>blockNode\<close>, the index of nodes and \<open>IsEqual\<close> are not in
  the tree. The loop is read as it stands, over the rows in the order of the cursor; what is missing is
  an argument.
\<close>

section \<open>The database\<close>

text \<open>
  \<open>View\<close> may fail; the chain state is there or not, and so is the bucket with the rows of the index.
  \<open>migrateBlockIndex\<close> fails or leaves rows.
\<close>

record chain_db =
  db_View :: "go_error option"
  chainState :: "bytes option"
  blockIndex :: "bytes list option"
  createChainState :: "go_error option"
  migrateBlockIndex :: "bytes list result"

text \<open>Of a node, the hash and the status are used; \<open>new\<close> makes the zero node.\<close>

record blockNode =
  bn_hash :: bytes
  bn_status :: blockStatus

definition new_node_zero :: blockNode where
  "new_node_zero = \<lparr>bn_hash = replicate HashSize 0, bn_status = statusNone\<rparr>"

text \<open>\<open>is_genesis\<close> is the comparison with \<open>GenesisHash0\<close>, \<open>LookupNode\<close> the search in the index.\<close>

record index_env =
  read_Elements :: "MicroHeader reader"
  is_genesis :: "bytes \<Rightarrow> bool"
  LookupNode :: "bytes \<Rightarrow> blockNode option"

section \<open>Operations\<close>

definition not_genesis :: "bytes \<Rightarrow> go_error" where
  "not_genesis blockHash =
     ''initChainState: Expected first entry in block index to be genesis block, found '' @ Hash_String blockHash"

definition no_parent :: "bytes \<Rightarrow> go_error" where
  "no_parent blockHash = ''initChainState: Could not find parent for block '' @ Hash_String blockHash"

text \<open>
  One turn of the loop: the new \<open>lastNode\<close>, or an error. The parent is looked for and not used, since
  \<open>initBlockNode\<close> and \<open>addNode\<close> are commented out.
\<close>

definition load_row :: "index_env \<Rightarrow> blockNode option \<Rightarrow> bytes \<Rightarrow> (binaryFreeList, blockNode result) prog" where
  "load_row E lastNode val =
     (case deserializeBlockRow (read_Elements E) val of
        Inl err \<Rightarrow> ret (Inl err)
      | Inr (block, status) \<Rightarrow>
          let node = new_node_zero\<lparr>bn_status := status\<rparr> in
          (case lastNode of
             None \<Rightarrow> bnd (BlockHash (mb_Header block)) (\<lambda>blockHash.
               if \<not> is_genesis E blockHash then ret (Inl (not_genesis blockHash)) else ret (Inr node))
           | Some lastNode \<Rightarrow>
               if mh_PrevBlock (mb_Header block) = bn_hash lastNode then ret (Inr node)
               else (case LookupNode E (mh_PrevBlock (mb_Header block)) of
                   None \<Rightarrow> bnd (BlockHash (mb_Header block)) (\<lambda>blockHash. ret (Inl (no_parent blockHash)))
                 | Some parent \<Rightarrow> ret (Inr node))))"

primrec load_rows :: "index_env \<Rightarrow> blockNode option \<Rightarrow> bytes list \<Rightarrow> (binaryFreeList, go_error option) prog" where
  "load_rows E lastNode [] = ret None"
| "load_rows E lastNode (val # vals) =
     bnd (load_row E lastNode val) (\<lambda>r.
       case r of Inl err \<Rightarrow> ret (Some err) | Inr node \<Rightarrow> load_rows E (Some node) vals)"

definition initChainState :: "index_env \<Rightarrow> chain_db \<Rightarrow> (binaryFreeList, go_error option) prog" where
  "initChainState E d =
     (if db_View d \<noteq> None then ret (db_View d)
      else if chainState d = None then ret (createChainState d)
      else case blockIndex d of
          Some vals \<Rightarrow> load_rows E None vals
        | None \<Rightarrow> (case migrateBlockIndex d of Inl err \<Rightarrow> ret None | Inr vals \<Rightarrow> load_rows E None vals))"

text \<open>The package's \<open>New\<close>: a chain on the database, or an error. A nil database is \<open>None\<close>.\<close>

definition chain_New :: "index_env \<Rightarrow> chain_db option \<Rightarrow> (binaryFreeList, chain_db result) prog" where
  "chain_New E db =
     (case db of
        None \<Rightarrow> ret (Inl ''blockchain.New database s nil'')
      | Some d \<Rightarrow> bnd (initChainState E d) (\<lambda>err.
          case err of Some err \<Rightarrow> ret (Inl err) | None \<Rightarrow> ret (Inr d)))"

section \<open>What can be loaded\<close>

definition row :: "MicroHeader \<times> blockStatus \<Rightarrow> bytes" where
  "row hs = header_bytes (fst hs) @ [snd hs]"

definition zero_hash :: bytes where
  "zero_hash = replicate HashSize 0"

definition row_id :: "MicroHeader \<Rightarrow> bytes" where
  "row_id h = take HashSize (header_bytes h)"

text \<open>The outcome of one turn, on a row that was written from a header.\<close>

definition row_result :: "index_env \<Rightarrow> blockNode option \<Rightarrow> MicroHeader \<times> blockStatus \<Rightarrow> blockNode result" where
  "row_result E lastNode hs =
     (let node = \<lparr>bn_hash = zero_hash, bn_status = snd hs\<rparr> in
      case lastNode of
        None \<Rightarrow> if is_genesis E (row_id (fst hs)) then Inr node else Inl (not_genesis (row_id (fst hs)))
      | Some lastNode \<Rightarrow>
          if mh_PrevBlock (fst hs) = bn_hash lastNode \<or> LookupNode E (mh_PrevBlock (fst hs)) \<noteq> None then Inr node
          else Inl (no_parent (row_id (fst hs))))"

lemma load_row_result:
  assumes "header_reader (read_Elements E)" "header_ok h" "freelist_ok l"
  shows "\<exists>l'. load_row E lastNode (row (h, status)) l = Returns (row_result E lastNode (h, status)) l' \<and> freelist_ok l'"
proof -
  let ?h = "h\<lparr>mh_Timestamp := ucast (ucast (mh_Timestamp h) :: u32)\<rparr>"
  have read: "deserializeBlockRow (read_Elements E) (row (h, status)) = Inr (zero_micro\<lparr>mb_Header := ?h\<rparr>, status)"
    using header_reader.row_roundtrip [OF assms(1,2)] by (simp add: row_def)
  have ok: "header_ok ?h" using assms(2) by (simp add: header_ok_def)
  then have "take HashSize (header_bytes ?h) = take HashSize (header_bytes h)"
    using take_header_bytes [OF assms(2)] by (simp add: take_header_bytes)
  with BlockHash_buffer [OF assms(3) ok] obtain l' where
    "BlockHash ?h l = Returns (take HashSize (header_bytes h)) l'" "freelist_ok l'" by auto
  then show ?thesis
    using assms(3)
    by (auto simp: load_row_def row_result_def row_id_def read Let_def bnd_def ret_def new_node_zero_def zero_hash_def
        split: option.splits)
qed

text \<open>After the first row, with an empty index: every row must name the zero hash as its previous block.\<close>

lemma load_rows_later:
  assumes "header_reader (read_Elements E)" "LookupNode E = (\<lambda>_. None)"
    and "\<forall>hs\<in>set rows. header_ok (fst hs)" "freelist_ok l" "bn_hash lastNode = zero_hash"
  shows "\<exists>l' r. load_rows E (Some lastNode) (map row rows) l = Returns r l' \<and> freelist_ok l' \<and>
    (r = None \<longleftrightarrow> (\<forall>hs\<in>set rows. mh_PrevBlock (fst hs) = zero_hash))"
  using assms(3-5)
proof (induction rows arbitrary: l lastNode)
  case (Cons hs rows)
  obtain h status where hs: "hs = (h, status)" by (cases hs)
  let ?node = "\<lparr>bn_hash = zero_hash, bn_status = status\<rparr>"
  obtain l1 where first: "load_row E (Some lastNode) (row hs) l = Returns (row_result E (Some lastNode) hs) l1" "freelist_ok l1"
    using load_row_result [OF assms(1), of h l "Some lastNode" status] Cons.prems hs by auto
  have r: "row_result E (Some lastNode) hs = (if mh_PrevBlock h = zero_hash then Inr ?node else Inl (no_parent (row_id h)))"
    by (simp add: row_result_def hs assms(2) Cons.prems(3))
  obtain l' r' where "load_rows E (Some ?node) (map row rows) l1 = Returns r' l'" "freelist_ok l'"
      "r' = None \<longleftrightarrow> (\<forall>hs\<in>set rows. mh_PrevBlock (fst hs) = zero_hash)"
    using Cons.IH [of l1 ?node] Cons.prems(1) first(2) by auto
  with first r hs show ?case by (simp add: bnd_def ret_def)
qed (simp add: ret_def)

text \<open>
  C22: Which block indexes can be loaded. From a database with a chain state, while the index of nodes is
  empty, as \<open>New\<close> makes it and as the loop leaves it, a chain is made exactly if the index has no rows, or
  its first row passes for the genesis block and every later one has the zero hash as its previous
  block: the hash of a loaded node is never set, so no block can follow another.
\<close>

theorem index_loads:
  assumes "header_reader (read_Elements E)" "LookupNode E = (\<lambda>_. None)" "freelist_ok l"
    and "\<forall>hs\<in>set rows. header_ok (fst hs)"
    and "db_View d = None" "chainState d = Some best" "blockIndex d = Some (map row rows)"
  shows "\<exists>l' r. chain_New E (Some d) l = Returns r l' \<and>
    (r = Inr d \<longleftrightarrow> (case rows of [] \<Rightarrow> True | hs # later \<Rightarrow>
       is_genesis E (row_id (fst hs)) \<and> (\<forall>hs\<in>set later. mh_PrevBlock (fst hs) = zero_hash)))"
proof (cases rows)
  case Nil
  with assms(5-7) show ?thesis by (simp add: chain_New_def initChainState_def bnd_def ret_def)
next
  case (Cons hs later)
  have init: "initChainState E d = load_rows E None (map row rows)" using assms(5-7) by (simp add: initChainState_def)
  obtain h status where hs: "hs = (h, status)" by (cases hs)
  let ?node = "\<lparr>bn_hash = zero_hash, bn_status = status\<rparr>"
  obtain l1 where first: "load_row E None (row hs) l = Returns (row_result E None hs) l1" "freelist_ok l1"
    using load_row_result [OF assms(1) _ assms(3), of h None status] assms(4) Cons hs by auto
  obtain l' r' where "load_rows E (Some ?node) (map row later) l1 = Returns r' l'"
      "r' = None \<longleftrightarrow> (\<forall>hs\<in>set later. mh_PrevBlock (fst hs) = zero_hash)"
    using load_rows_later [OF assms(1,2) _ first(2), of later ?node] assms(4) Cons by auto
  with first hs Cons init show ?thesis
    by (auto simp: chain_New_def row_result_def Let_def bnd_def ret_def split: option.splits)
qed

definition sample_index :: index_env where
  "sample_index = \<lparr>read_Elements = read_header, is_genesis = (\<lambda>h. True), LookupNode = (\<lambda>_. None)\<rparr>"

definition genesis_rows :: "(MicroHeader \<times> blockStatus) list" where
  "genesis_rows = [(mb_Header GetGenesisBlock0, 0), (mb_Header GetGenesisBlock1, 0)]"

text \<open>The two genesis blocks of the package are such an index: it cannot be loaded.\<close>

lemma index_loads_witness:
  "\<exists>l' r d. blockIndex d = Some (map row genesis_rows) \<and> chain_New sample_index (Some d) [] = Returns r l' \<and> r \<noteq> Inr d"
proof -
  let ?d = "\<lparr>db_View = None, chainState = Some [], blockIndex = Some (map row genesis_rows), createChainState = None,
    migrateBlockIndex = Inl []\<rparr>"
  have 1: "header_reader (read_Elements sample_index)" "LookupNode sample_index = (\<lambda>_. None)"
    by (simp_all add: sample_index_def own_reader.header_reader_axioms)
  have 2: "\<forall>hs\<in>set genesis_rows. header_ok (fst hs)" by (simp add: genesis_rows_def genesis_header_ok)
  have "hd (mh_PrevBlock (mb_Header GetGenesisBlock1)) \<noteq> hd zero_hash"
    by (simp add: GetGenesisBlock1_def genesisBlock0Hash_def zero_hash_def HashSize_def hd_replicate)
  then have "mh_PrevBlock (mb_Header GetGenesisBlock1) \<noteq> zero_hash" by metis
  then have bad: "\<not> (\<forall>hs\<in>set (tl genesis_rows). mh_PrevBlock (fst hs) = zero_hash)" by (simp add: genesis_rows_def)
  have rows: "genesis_rows = hd genesis_rows # tl genesis_rows" by (simp add: genesis_rows_def)
  have d: "db_View ?d = None" "chainState ?d = Some []" "blockIndex ?d = Some (map row genesis_rows)" by simp_all
  from index_loads [OF 1 freelist_ok_Nil 2 d] obtain l' r where
    "chain_New sample_index (Some ?d) [] = Returns r l'" "r \<noteq> Inr ?d"
    using bad by (subst (asm) (4) rows) auto
  with d(3) show ?thesis by (intro exI conjI)
qed

text \<open>
  The comparison with the hash of the package's genesis block fails for that block itself, so not even
  the index that holds it alone is loaded.
\<close>

lemma genesis_not_loaded:
  assumes "header_reader (read_Elements E)" "is_genesis E = (\<lambda>h. h = mb_Hash GetGenesisBlock0)"
  shows "\<exists>l' err. load_rows E None (map row ((mb_Header GetGenesisBlock0, status) # rows)) [] = Returns (Some err) l'"
proof -
  obtain hash l' where "BlockHash (mb_Header GetGenesisBlock0) [] = Returns hash l'" "hash \<noteq> mb_Hash GetGenesisBlock0"
    using genesis_hash_differs by blast
  moreover have "hash = row_id (mb_Header GetGenesisBlock0)"
    using BlockHash_buffer [OF freelist_ok_Nil genesis_header_ok(1)] calculation(1) by (auto simp: row_id_def)
  ultimately have "row_result E None (mb_Header GetGenesisBlock0, status) = Inl (not_genesis hash)"
    by (simp add: row_result_def assms(2))
  with load_row_result [OF assms(1) genesis_header_ok(1) freelist_ok_Nil, of None status] show ?thesis
    by (auto simp: bnd_def ret_def)
qed

end
