(* ===== verification/Startup.thy ===== *)
theory Startup
  imports Runs ChainIndex
begin

text \<open>
  service/service.go, how a node starts and what it saves: \<open>newService\<close>, \<open>tryLoad\<close>, \<open>save\<close>. \<open>bc.New\<close>
  is \<open>chain_New\<close> of ChainIndex; the framework's \<open>Save\<close> and \<open>Load\<close>, the registration of handlers and
  \<open>netsync.New\<close>, which the tree does not have, are the fields of an environment.
\<close>

section \<open>State and environment\<close>

text \<open>What \<open>Load\<close> may return, besides nil: one of the three saved types, or another one.\<close>

datatype saved = SavedStorage int | SavedPeers "string \<rightharpoonup> ServerIdentity" | SavedAddresses "string \<rightharpoonup> bool" | SavedOther

text \<open>\<open>storage\<close>: a counter and a mutex.\<close>

record storage_data =
  Count :: int
  st_locked :: bool

text \<open>
  \<open>Load\<close> and \<open>Save\<close> work on the disk; \<open>index\<close> and \<open>chain_store\<close> are what \<open>bc.New\<close> is called with;
  \<open>registrations\<close> are the errors of the three groups of client handlers, in the order of the calls.
\<close>

record 'd start_env =
  Load :: "'d \<Rightarrow> string \<Rightarrow> saved option result"
  Save :: "'d \<Rightarrow> string \<Rightarrow> saved \<Rightarrow> go_error option \<times> 'd"
  index :: index_env
  chain_store :: "chain_db option"
  netsync_New :: "go_error option"
  registrations :: "go_error option \<times> go_error option \<times> go_error option"

text \<open>
  The service with its \<open>storage\<close> and \<open>chain\<close> pointers, which only the functions of this theory use, the
  buffers of the serialisation package, and the disk.
\<close>

record ('k, 'd) process =
  service :: "'k Service"
  storage_ptr :: "storage_data option"
  chain :: "chain_db option"
  buffers :: binaryFreeList
  disk :: 'd

definition storageID :: string where "storageID = ''main''"
definition peerStorageID :: string where "peerStorageID = ''peers''"
definition addressID :: string where "addressID = ''address''"

lemmas save_keys = storageID_def peerStorageID_def addressID_def

section \<open>Operations\<close>

definition on_service :: "('k, 'a) node \<Rightarrow> (('k, 'd) process, 'a) prog" where
  "on_service = zoom service (\<lambda>s p. p\<lparr>service := s\<rparr>)"

definition on_buffers :: "(binaryFreeList, 'a) prog \<Rightarrow> (('k, 'd) process, 'a) prog" where
  "on_buffers = zoom buffers (\<lambda>l p. p\<lparr>buffers := l\<rparr>)"

text \<open>
  The framework marshals only types that were registered with it: of the three that are saved, \<open>init\<close>
  registers \<open>storage\<close>.
\<close>

primrec registered_type :: "saved \<Rightarrow> bool" where
  "registered_type (SavedStorage n) = True"
| "registered_type (SavedPeers m) = False"
| "registered_type (SavedAddresses m) = False"
| "registered_type SavedOther = False"

text \<open>A \<open>Save\<close> whose error is only logged.\<close>

definition save_entry :: "'d start_env \<Rightarrow> string \<Rightarrow> (('k, 'd) process \<Rightarrow> saved) \<Rightarrow> (('k, 'd) process, unit) prog" where
  "save_entry N key f = modifies (\<lambda>p. p\<lparr>disk := snd (Save N (disk p) key (f p))\<rparr>)"

abbreviation put_storage_locked :: "bool \<Rightarrow> ('k, 'd) process \<Rightarrow> ('k, 'd) process" where
  "put_storage_locked b p \<equiv> p\<lparr>storage_ptr := map_option (\<lambda>st. st\<lparr>st_locked := b\<rparr>) (storage_ptr p)\<rparr>"

abbreviation saved_count :: "('k, 'd) process \<Rightarrow> saved" where
  "saved_count p \<equiv> SavedStorage (Count (the (storage_ptr p)))"

definition save :: "'d start_env \<Rightarrow> (('k, 'd) process, unit) prog" where
  "save N =
     bnd (gets storage_ptr) (\<lambda>ptr. bnd (deref ptr) (\<lambda>st.
     with_lock (\<lambda>p. st_locked (the (storage_ptr p))) put_storage_locked
       (seqp (save_entry N storageID saved_count)
       (with_lock (\<lambda>p. ps_locked (peerStorage (service p))) (\<lambda>b p. p\<lparr>service := put_ps_locked b (service p)\<rparr>)
         (seqp (save_entry N peerStorageID (\<lambda>p. SavedPeers (peerNodeMap (peerStorage (service p)))))
         (with_lock (\<lambda>p. ps_locked (proxyStorage (service p))) (\<lambda>b p. p\<lparr>service := put_proxy_locked b (service p)\<rparr>)
           (save_entry N addressID (\<lambda>p. SavedAddresses (addressMap (service p))))))))))"

text \<open>
  One \<open>Load\<close> with the type assertion that follows it: the loaded value, nothing when nil was
  loaded, or the error to return. A failed assertion also leaves the field nil, in a service that
  \<open>newService\<close> then drops.
\<close>

definition load_entry :: "'d start_env \<Rightarrow> string \<Rightarrow> (saved \<Rightarrow> 'a option) \<Rightarrow> go_error \<Rightarrow>
    (('k, 'd) process, 'a option result) prog" where
  "load_entry N key cast wrong =
     bnd (gets disk) (\<lambda>d.
     case Load N d key of
       Inl err \<Rightarrow> ret (Inl err)
     | Inr None \<Rightarrow> ret (Inr None)
     | Inr (Some msg) \<Rightarrow> (case cast msg of None \<Rightarrow> ret (Inl wrong) | Some x \<Rightarrow> ret (Inr (Some x))))"

definition as_storage :: "saved \<Rightarrow> int option" where
  "as_storage msg = (case msg of SavedStorage n \<Rightarrow> Some n | _ \<Rightarrow> None)"

definition as_peers :: "saved \<Rightarrow> (string \<rightharpoonup> ServerIdentity) option" where
  "as_peers msg = (case msg of SavedPeers m \<Rightarrow> Some m | _ \<Rightarrow> None)"

definition as_addresses :: "saved \<Rightarrow> (string \<rightharpoonup> bool) option" where
  "as_addresses msg = (case msg of SavedAddresses m \<Rightarrow> Some m | _ \<Rightarrow> None)"

lemmas casts = as_storage_def as_peers_def as_addresses_def

definition tryLoad :: "'d start_env \<Rightarrow> ('k, 'v) node_env \<Rightarrow> (('k, 'd) process, go_error option) prog" where
  "tryLoad N E =
     bnd (load_entry N storageID as_storage ''Data of wrong type'') (\<lambda>r.
     case r of Inl err \<Rightarrow> ret (Some err)
     | Inr data \<Rightarrow>
     seqp (case data of None \<Rightarrow> ret ()
           | Some n \<Rightarrow> modifies (\<lambda>p. p\<lparr>storage_ptr := Some \<lparr>Count = n, st_locked = False\<rparr>\<rparr>))
     (bnd (load_entry N peerStorageID as_peers ''Peer data of wrong type'') (\<lambda>r.
     case r of Inl err \<Rightarrow> ret (Some err)
     | Inr peers \<Rightarrow>
     seqp (case peers of None \<Rightarrow> ret ()
           | Some m \<Rightarrow> modifies (\<lambda>p. p\<lparr>service := (service p)\<lparr>peerStorage := \<lparr>peerNodeMap = m, ps_locked = False\<rparr>\<rparr>\<rparr>))
     (bnd (load_entry N addressID as_addresses ''address data of wrong type'') (\<lambda>r.
     case r of Inl err \<Rightarrow> ret (Some err)
     | Inr addresses \<Rightarrow>
     seqp (case addresses of None \<Rightarrow> ret () | Some m \<Rightarrow> modifies (\<lambda>p. p\<lparr>service := (service p)\<lparr>addressMap := m\<rparr>\<rparr>))
     (seqp (on_service (handshake E)) (ret None)))))))"

text \<open>The service that \<open>newService\<close> allocates: \<open>fresh_service\<close>, without \<open>storage\<close>.\<close>

definition new_process :: "'k option \<Rightarrow> 'd \<Rightarrow> ('k, 'd) process" where
  "new_process bk d = \<lparr>service = fresh_service bk, storage_ptr = None, chain = None, buffers = [], disk = d\<rparr>"

text \<open>The rest of \<open>newService\<close>: \<open>None\<close> is the service without error.\<close>

definition newService :: "'d start_env \<Rightarrow> ('k, 'v) node_env \<Rightarrow> (('k, 'd) process, go_error option) prog" where
  "newService N E =
     bnd (on_buffers (chain_New (index N) (chain_store N))) (\<lambda>made.
     case made of Inl err \<Rightarrow> ret (Some err) | Inr c \<Rightarrow>
     seqp (modifies (\<lambda>p. p\<lparr>chain := Some c\<rparr>))
     (case netsync_New N of Some err \<Rightarrow> ret (Some err) | None \<Rightarrow>
     seqp (modifies (\<lambda>p. p\<lparr>service := (service p)\<lparr>the_miner := New\<rparr>\<rparr>))
     (bnd (on_service (on_db (BuildIndex (store E)))) (\<lambda>indexed.
     case indexed of Some err \<Rightarrow> ret (Some err) | None \<Rightarrow>
     (case registrations N of (r1, r2, r3) \<Rightarrow>
       if r1 \<noteq> None then ret (Some ''Couldn't register handlers'')
       else if r2 \<noteq> None then ret (Some ''couldn't register handlers'')
       else if r3 \<noteq> None then ret (Some ''Couldn't register handlers'')
       else bnd (tryLoad N E) (\<lambda>r.
         case r of Some err \<Rightarrow> ret (Some err)
         | None \<Rightarrow> seqp (on_service (spawn MainLoop)) (ret None)))))))"

section \<open>Evaluation\<close>

lemma load_entry_eval [prog_simps]:
  "load_entry N key cast wrong p = Returns
     (case Load N (disk p) key of
        Inl err \<Rightarrow> Inl err
      | Inr None \<Rightarrow> Inr None
      | Inr (Some msg) \<Rightarrow> (case cast msg of None \<Rightarrow> Inl wrong | Some x \<Rightarrow> Inr (Some x))) p"
  by (simp add: load_entry_def prog_simps split: sum.split option.split)

lemma on_service_eval [prog_simps]:
  "on_service m p = (case m (service p) of Returns a s \<Rightarrow> Returns a (p\<lparr>service := s\<rparr>)
     | Panics x s \<Rightarrow> Panics x (p\<lparr>service := s\<rparr>) | Blocks s \<Rightarrow> Blocks (p\<lparr>service := s\<rparr>))"
  by (simp add: on_service_def zoom_eval)

lemma on_buffers_eval [prog_simps]:
  "on_buffers m p = (case m (buffers p) of Returns a l \<Rightarrow> Returns a (p\<lparr>buffers := l\<rparr>)
     | Panics x l \<Rightarrow> Panics x (p\<lparr>buffers := l\<rparr>) | Blocks l \<Rightarrow> Blocks (p\<lparr>buffers := l\<rparr>))"
  by (simp add: on_buffers_def zoom_eval)

lemma save_entry_eval [prog_simps]:
  "save_entry N key f p = Returns () (p\<lparr>disk := snd (Save N (disk p) key (f p))\<rparr>)"
  by (simp add: save_entry_def prog_simps)

text \<open>A handshake of a node without a chain greets every peer and sends nothing else.\<close>

definition greetings :: "('k, 'v) node_env \<Rightarrow> (string \<rightharpoonup> ServerIdentity) \<Rightarrow> (ServerIdentity \<times> Msg) list" where
  "greetings E m = map (\<lambda>si. (si, HandshakeMessage None None True)) (peer_list E m)"

definition chainless :: "'k Service \<Rightarrow> bool" where
  "chainless s \<longleftrightarrow> \<not> latestMutex (db s) \<and> latestBlockID (db s) = None \<and> genesis_id s = None"

lemma chainless_outbox [simp]: "chainless (s\<lparr>outbox := x\<rparr>) = chainless s"
  by (simp add: chainless_def genesis_id_def)

lemma greet_chainless:
  assumes "chainless s"
  shows "greet E si s = Returns () (s\<lparr>outbox := outbox s @ [(si, HandshakeMessage None None True)]\<rparr>)"
  using assms GetLatest_empty [of s E] GetGenesisID_on_db [of s]
  by (simp add: greet_def prog_eval SendRaw_eval chainless_def)

lemma greet_all_chainless:
  "chainless s \<Longrightarrow> each (greet E) sis s =
     Returns () (s\<lparr>outbox := outbox s @ map (\<lambda>si. (si, HandshakeMessage None None True)) sis\<rparr>)"
proof (induction sis arbitrary: s)
  case (Cons si sis)
  then show ?case by (simp add: prog_simps greet_chainless)
qed (simp add: prog_simps)

lemma handshake_chainless:
  assumes "chainless s" "\<not> ps_locked (peerStorage s)"
  shows "handshake E s = Returns () (s\<lparr>spawned := spawned s @ [ProcessMessage (card (dom (peerNodeMap (peerStorage s))))],
    outbox := outbox s @ greetings E (peerNodeMap (peerStorage s))\<rparr>)"
proof -
  have "chainless ((put_ps_locked True s)\<lparr>spawned := x\<rparr>)" for x
    using assms(1) by (simp add: chainless_def genesis_id_def)
  with assms(2) show ?thesis
    by (simp add: handshake_def with_peers_def prog_simps greet_all_chainless greetings_def)
qed

lemma fresh_chainless: "chainless (fresh_service bk)"
  by (simp add: chainless_def fresh_service_def NewBlockDB_def genesis_id_def genesis_of_def)

section \<open>What is on the disk\<close>

text \<open>
  The framework's data: a value of a registered type is loaded as it was saved, one of another type is
  refused, and a refused \<open>Save\<close> leaves the data as it was.
\<close>

locale saved_data =
  fixes load :: "'d \<Rightarrow> string \<Rightarrow> saved option result" and save :: "'d \<Rightarrow> string \<Rightarrow> saved \<Rightarrow> go_error option \<times> 'd"
  assumes load_save: "save d key v = (None, d') \<Longrightarrow> load d' key' = (if key' = key then Inr (Some v) else load d key')"
    and unregistered: "\<not> registered_type v \<Longrightarrow> fst (save d key v) \<noteq> None"
    and refused: "save d key v = (Some err, d') \<Longrightarrow> d' = d"
begin

text \<open>Of three entries saved one after the other, as \<open>save\<close> does, the two of unregistered types are not written.\<close>

lemma load_three:
  "snd (save (snd (save (snd (save d key (SavedStorage n))) key' (SavedPeers m))) key'' (SavedAddresses a)) =
     snd (save d key (SavedStorage n))"
proof -
  have keep: "snd (save d key v) = d" if "\<not> registered_type v" for d key v
    using unregistered [OF that, of d key] refused by (cases "save d key v") auto
  show ?thesis by (simp add: keep)
qed

lemma load_other: "key' \<noteq> key \<Longrightarrow> load (snd (save d key v)) key' = load d key'"
  using load_save [of d key v] refused [of d key v] by (cases "save d key v"; cases "fst (save d key v)") auto

lemma load_same: "fst (save d key v) = None \<Longrightarrow> load (snd (save d key v)) key = Inr (Some v)"
  using load_save [of d key v] by (cases "save d key v") auto

end

text \<open>A database without a chain, which \<open>bc.New\<close> accepts when the missing \<open>createChainState\<close> succeeds.\<close>

definition empty_chain :: chain_db where
  "empty_chain = \<lparr>db_View = None, chainState = None, blockIndex = None, createChainState = None, migrateBlockIndex = Inr []\<rparr>"

text \<open>The framework's database, as a map from keys to values; unknown keys load nil.\<close>

definition map_start_env :: "(string \<rightharpoonup> saved) start_env" where
  "map_start_env = \<lparr>Load = (\<lambda>d key. Inr (d key)),
     Save = (\<lambda>d key v. if registered_type v then (None, d(key \<mapsto> v)) else (Some ''type not registered'', d)),
     index = sample_index, chain_store = Some empty_chain, netsync_New = None, registrations = (None, None, None)\<rparr>"

interpretation map_data: saved_data "Load map_start_env" "Save map_start_env"
  by unfold_locales (auto simp: map_start_env_def split: if_splits)

section \<open>Properties\<close>

text \<open>Everything that newService builds on can be built, and the bucket has no block.\<close>

definition starts_up :: "'d start_env \<Rightarrow> ('k, 'v) node_env \<Rightarrow> 'k \<Rightarrow> bool" where
  "starts_up N E k \<longleftrightarrow> (\<exists>c l. chain_New (index N) (chain_store N) [] = Returns (Inr c) l) \<and> netsync_New N = None \<and>
     registrations N = (None, None, None) \<and> bucket_each (store E) k = []"

lemma newService_starts:
  assumes "starts_up N E k"
  obtains l c where "\<And>d. newService N E (new_process (Some k) d) =
    bnd (tryLoad N E) (\<lambda>r. case r of Some err \<Rightarrow> ret (Some err) | None \<Rightarrow> seqp (on_service (spawn MainLoop)) (ret None))
      (new_process (Some k) d\<lparr>chain := Some c, buffers := l\<rparr>)"
proof -
  have "(fresh_service (Some k))\<lparr>the_miner := New\<rparr> = fresh_service (Some k)" by (simp add: fresh_service_def)
  moreover obtain c l where "chain_New (index N) (chain_store N) [] = Returns (Inr c) l"
    using assms by (auto simp: starts_up_def)
  ultimately show thesis
    using assms
    by (intro that [of l c])
      (simp add: newService_def starts_up_def prog_simps new_process_def BuildIndex_def fresh_service_def NewBlockDB_def)
qed

text \<open>A disk without saved peers and addresses: at most the counter is there.\<close>

definition counter_only :: "'d start_env \<Rightarrow> 'd \<Rightarrow> int option \<Rightarrow> bool" where
  "counter_only N d n \<longleftrightarrow> Load N d storageID = Inr (map_option SavedStorage n) \<and>
     Load N d peerStorageID = Inr None \<and> Load N d addressID = Inr None"

definition counter :: "int option \<Rightarrow> storage_data option" where
  "counter = map_option (\<lambda>n. \<lparr>Count = n, st_locked = False\<rparr>)"

text \<open>A start from such a disk makes a fresh service, which knows no peer, and greets nobody.\<close>

lemma start_counter_only:
  assumes "starts_up N E k" "counter_only N d n"
  shows "\<exists>p. newService N E (new_process (Some k) d) = Returns None p \<and>
    service p = (fresh_service (Some k))\<lparr>spawned := [ProcessMessage 0, MainLoop]\<rparr> \<and> disk p = d \<and> storage_ptr p = counter n"
proof -
  have greet: "handshake E (fresh_service (Some k)) = Returns () ((fresh_service (Some k))\<lparr>spawned := [ProcessMessage 0]\<rparr>)"
    using handshake_chainless [OF fresh_chainless, of "Some k" E]
    by (simp add: fresh_service_def greetings_def peer_list_def map_values_def List.map_filter_def)
  obtain l c where start: "\<And>d. newService N E (new_process (Some k) d) =
    bnd (tryLoad N E) (\<lambda>r. case r of Some err \<Rightarrow> ret (Some err) | None \<Rightarrow> seqp (on_service (spawn MainLoop)) (ret None))
      (new_process (Some k) d\<lparr>chain := Some c, buffers := l\<rparr>)"
    using assms(1) by (rule newService_starts) blast
  show ?thesis
    using assms(2) greet unfolding start
    by (cases n) (simp_all add: counter_only_def counter_def casts tryLoad_def prog_simps new_process_def fresh_service_def)
qed

text \<open>
  The first start. On an empty bucket and a disk without saved data, \<open>newService\<close> returns a fresh
  service that has sent nothing and runs \<open>mainLoop\<close> and a \<open>processMessage\<close> for no peers; \<open>storage\<close>
  is nil, so \<open>save\<close> of this service panics before it has saved anything.
\<close>

theorem first_start:
  assumes "starts_up N E k" "\<And>key. Load N d key = Inr None"
  shows "\<exists>p. newService N E (new_process (Some k) d) = Returns None p \<and>
    service p = (fresh_service (Some k))\<lparr>spawned := [ProcessMessage 0, MainLoop]\<rparr> \<and> disk p = d \<and>
    save N p = Panics NilDereference p"
proof -
  have "counter_only N d None" using assms(2) by (simp add: counter_only_def)
  from start_counter_only [OF assms(1) this] show ?thesis by (auto simp: save_def prog_simps counter_def)
qed

lemma sample_starts_up: "starts_up map_start_env sample_env []"
  by (simp add: starts_up_def map_start_env_def sample_env_def mem_env_def chain_New_def initChainState_def
      empty_chain_def bnd_def ret_def)

lemma first_start_witness:
  "\<exists>p. newService map_start_env sample_env (new_process (Some []) Map.empty) = Returns None p \<and>
    save map_start_env p = Panics NilDereference p"
  using first_start [OF sample_starts_up, of Map.empty] by (auto simp: map_start_env_def)

text \<open>
  C19: What a restart keeps. The peers and addresses of a node are never saved: whatever a running
  service knows, \<open>save\<close> writes at most its counter, and panics when it has none, so a disk without peers
  and addresses stays one. A service that is started on it and on an empty bucket is a fresh one, with the
  counter if it was saved: it knows no peer, no address and no gateway, greets nobody and waits for no
  answer. The framework keeps the promises of \<open>saved_data\<close>: it saves registered types only.
\<close>

theorem save_then_start:
  assumes "saved_data (Load N) (Save N)" "starts_up N E k" "counter_only N (disk p) n" "storage_ptr p = counter m"
    and "\<not> ps_locked (peerStorage (service p))" "\<not> ps_locked (proxyStorage (service p))"
  shows "\<exists>p' q n'.
    save N p = (if m = None then Panics NilDereference p' else Returns () p') \<and> service p' = service p \<and>
    counter_only N (disk p') n' \<and> n' \<in> {n, m} \<and>
    (\<forall>c. m = Some c \<longrightarrow> fst (Save N (disk p) storageID (SavedStorage c)) = None \<longrightarrow> n' = Some c) \<and>
    newService N E (new_process (Some k) (disk p')) = Returns None q \<and> storage_ptr q = counter n' \<and>
    service q = (fresh_service (Some k))\<lparr>spawned := [ProcessMessage 0, MainLoop]\<rparr>"
proof (cases m)
  case None
  then have "save N p = Panics NilDereference p" using assms(4) by (simp add: save_def prog_simps counter_def)
  with None start_counter_only [OF assms(2,3)] assms(3) show ?thesis by fastforce
next
  case (Some c)
  let ?d = "snd (Save N (disk p) storageID (SavedStorage c))"
  have "put_ps_locked False (service p) = service p" "put_proxy_locked False (service p) = service p"
    using assms(5,6) by simp_all
  then have save: "save N p = Returns () (p\<lparr>disk := ?d\<rparr>)"
    using assms(4-6) Some
    by (simp add: save_def prog_simps counter_def saved_data.load_three [OF assms(1)])
  have ids: "storageID \<noteq> peerStorageID" "storageID \<noteq> addressID" by (simp_all add: save_keys)
  define n' where "n' = (if fst (Save N (disk p) storageID (SavedStorage c)) = None then m else n)"
  have "?d = disk p" if "fst (Save N (disk p) storageID (SavedStorage c)) \<noteq> None"
    using that saved_data.refused [OF assms(1), of "disk p" storageID "SavedStorage c"] by (metis option.exhaust prod.collapse)
  then have disk: "counter_only N ?d n'"
    using assms(3) Some ids saved_data.load_other [OF assms(1)] saved_data.load_same [OF assms(1)]
    by (auto simp: counter_only_def n'_def)
  from start_counter_only [OF assms(2) this] obtain q where
    "newService N E (new_process (Some k) ?d) = Returns None q" "storage_ptr q = counter n'"
    "service q = (fresh_service (Some k))\<lparr>spawned := [ProcessMessage 0, MainLoop]\<rparr>" by blast
  with save disk Some show ?thesis
    by (intro exI [of _ "p\<lparr>disk := ?d\<rparr>"] exI [of _ q] exI [of _ n']) (simp add: n'_def)
qed

text \<open>
  C18: A node cannot be started on its own chain. When the first entry of the bucket is a block that
  \<open>StoreBlocks\<close> has written, \<open>newService\<close> never returns a service; when \<open>bc.New\<close> and \<open>netsync.New\<close>
  succeed it panics in \<open>BuildIndex\<close>, before a handler is registered and whatever was saved.
\<close>

theorem no_restart_on_own_chain:
  assumes "storage (store E)" "bucket_each (store E) k = (key, v) # kvs" "marshal (store E) b = Inr v"
  shows "newService N E (new_process (Some k) d) \<noteq> Returns None p \<and>
    (\<forall>c l. chain_New (index N) (chain_store N) [] = Returns (Inr c) l \<longrightarrow> netsync_New N = None \<longrightarrow>
      newService N E (new_process (Some k) d) =
        Panics TypeAssertion (new_process (Some k) d\<lparr>chain := Some c, buffers := l\<rparr>))"
proof -
  have build: "BuildIndex (store E) (db (fresh_service (Some k))) = Panics TypeAssertion (db (fresh_service (Some k)))"
    using storage.marshalled_assert [OF assms(1,3)] assms(2)
    by (simp add: BuildIndex_def prog_simps fresh_service_def NewBlockDB_def)
  have fresh: "(fresh_service (Some k))\<lparr>the_miner := New\<rparr> = fresh_service (Some k)" by (simp add: fresh_service_def)
  show ?thesis
    by (auto simp: newService_def prog_simps new_process_def build fresh split: outcome.splits sum.splits option.splits)
qed

lemma no_restart_on_own_chain_witness:
  "newService map_start_env sample_env (new_process (Some [([2], MsgHello (sample_hello []))]) Map.empty) =
    Panics TypeAssertion (new_process (Some [([2], MsgHello (sample_hello []))]) Map.empty\<lparr>chain := Some empty_chain\<rparr>)"
proof -
  let ?k = "[([2], MsgHello (sample_hello []))]"
  have "chain_New (index map_start_env) (chain_store map_start_env) [] = Returns (Inr empty_chain) []"
    by (simp add: map_start_env_def chain_New_def initChainState_def empty_chain_def bnd_def ret_def)
  moreover have "storage (store sample_env)" "bucket_each (store sample_env) ?k = ([2], MsgHello (sample_hello [])) # []"
    "marshal (store sample_env) (sample_hello []) = Inr (MsgHello (sample_hello []))" "netsync_New map_start_env = None"
    by (simp_all add: sample_env_store mem.storage_axioms, simp_all add: mem_env_def map_start_env_def)
  ultimately show ?thesis
    using no_restart_on_own_chain [of sample_env ?k "[2]" _ "[]" "sample_hello []" map_start_env Map.empty]
    by (simp add: new_process_def)
qed

text \<open>A process with one peer, one address and one gateway, saved and started again.\<close>

definition sample_process :: "((bytes \<times> Message) list, string \<rightharpoonup> saved) process" where
  "sample_process = \<lparr>service = new_node\<lparr>peerStorage := \<lparr>peerNodeMap = [''a'' \<mapsto> sample_peer ''a''], ps_locked = False\<rparr>,
     proxyStorage := \<lparr>peerNodeMap = [''g'' \<mapsto> sample_peer ''g''], ps_locked = False\<rparr>, addressMap := [''tls://g'' \<mapsto> True]\<rparr>,
     storage_ptr = Some \<lparr>Count = 7, st_locked = False\<rparr>, chain = None, buffers = [], disk = Map.empty\<rparr>"

lemma save_then_start_witness:
  "\<exists>p' q. save map_start_env sample_process = Returns () p' \<and>
    newService map_start_env sample_env (new_process (Some []) (disk p')) = Returns None q \<and>
    peerNodeMap (peerStorage (service q)) = Map.empty \<and> storage_ptr q = storage_ptr sample_process"
proof -
  have "counter_only map_start_env (disk sample_process) None" "storage_ptr sample_process = counter (Some 7)"
    "\<not> ps_locked (peerStorage (service sample_process))" "\<not> ps_locked (proxyStorage (service sample_process))"
    "fst (Save map_start_env (disk sample_process) storageID (SavedStorage 7)) = None"
    by (simp_all add: sample_process_def counter_only_def counter_def map_start_env_def)
  with save_then_start [OF map_data.saved_data_axioms sample_starts_up, of sample_process None "Some 7"] show ?thesis
    by (fastforce simp: fresh_service_def)
qed

end
