(* ===== verification/Client.thy ===== *)
theory Client
  imports Invariants Hex
begin

text \<open>
  api.go, struct.go, app/app.go, app/cmd.go: the client library and the command line. The transport
  (\<open>SendProtobuf\<close> of the framework, the random choice of a server, the decoding of replies), the
  files with the roster and the URL parser are environments. A command ends with an error or
  without, or the process exits in \<open>log.Fatal\<close>.
\<close>

section \<open>The client library\<close>

text \<open>
  \<open>as_PeerReply\<close> and \<open>as_Block\<close> decode what a server answered as the type that the method of the
  client expects: a list of identities, or a \<open>bc.Block\<close>.
\<close>

record 's client_env =
  RandomServerIdentity :: "ServerIdentity list \<Rightarrow> ServerIdentity"
  SendProtobuf :: "ServerIdentity \<Rightarrow> request \<Rightarrow> ('s, reply result) prog"
  as_PeerReply :: "reply \<Rightarrow> ServerIdentity list result"
  as_Block :: "reply \<Rightarrow> Block result"

text \<open>The body that all methods share: choose a server, send, decode the reply.\<close>

definition ask :: "'s client_env \<Rightarrow> (reply \<Rightarrow> 'a result) \<Rightarrow> ServerIdentity list \<Rightarrow> request \<Rightarrow> ('s, 'a result) prog" where
  "ask C decode roster msg =
     bnd (SendProtobuf C (RandomServerIdentity C roster) msg) (\<lambda>r.
     ret (case r of Inl err \<Rightarrow> Inl err | Inr reply \<Rightarrow> decode reply))"

definition Client_Peer :: "'s client_env \<Rightarrow> ServerIdentity list \<Rightarrow> request \<Rightarrow> ('s, ServerIdentity list result) prog" where
  "Client_Peer C roster p = ask C (as_PeerReply C) roster p"

definition Client_CreateGenesisBlock :: "'s client_env \<Rightarrow> ServerIdentity list \<Rightarrow> ('s, Block result) prog" where
  "Client_CreateGenesisBlock C roster = ask C (as_Block C) roster ReqGenesisBlock"

definition Client_GetBlockByID :: "'s client_env \<Rightarrow> ServerIdentity list \<Rightarrow> slice \<Rightarrow> ('s, Block result) prog" where
  "Client_GetBlockByID C roster blockID = ask C (as_Block C) roster (ReqBlockByID blockID)"

definition Client_GetBlockByIndex :: "'s client_env \<Rightarrow> ServerIdentity list \<Rightarrow> u64 \<Rightarrow> ('s, Block result) prog" where
  "Client_GetBlockByIndex C roster blockIndex = ask C (as_Block C) roster (ReqBlockByIndex blockIndex)"

definition Client_GetLatestBlock :: "'s client_env \<Rightarrow> ServerIdentity list \<Rightarrow> ('s, Block result) prog" where
  "Client_GetLatestBlock C roster = ask C (as_Block C) roster ReqLatestBlock"

section \<open>The commands\<close>

datatype exit = Exited | Ended "go_error option"

text \<open>What the process finds: the group file and its contents.\<close>

record 's app_env =
  net :: "'s client_env"
  parser :: url_env
  config_exists :: bool
  config_open :: "go_error option"
  read_group :: "ServerIdentity list result"

text \<open>\<open>log.ErrFatal\<close> and \<open>log.ErrFatalf\<close> exit only for an error that is not nil.\<close>

definition ErrFatal :: "go_error option \<Rightarrow> bool" where
  "ErrFatal err \<longleftrightarrow> err \<noteq> None"

text \<open>\<open>None\<close> when the process exits; an empty roster is checked with a nil error.\<close>

definition parseConfig :: "'s app_env \<Rightarrow> ServerIdentity list option" where
  "parseConfig A =
     (if \<not> config_exists A then None
      else if ErrFatal (config_open A) then None
      else case read_group A of
          Inl err \<Rightarrow> None
        | Inr roster \<Rightarrow> if length roster = 0 \<and> ErrFatal None then None else Some roster)"

text \<open>The loop over the arguments: URLs that do not parse are left out.\<close>

primrec parse_peers :: "url_env \<Rightarrow> string list \<Rightarrow> ServerIdentity list" where
  "parse_peers U [] = []"
| "parse_peers U (peerURL # us) =
     (case ConvertPeerURL U peerURL of Inl err \<Rightarrow> parse_peers U us | Inr si \<Rightarrow> si # parse_peers U us)"

definition arguments_error :: go_error where
  "arguments_error = ''please give the following arguments: host[:port] [host[:port]]...''"

text \<open>The call and the two ways to end that the commands share.\<close>

definition finish :: "'s app_env \<Rightarrow> (ServerIdentity list \<Rightarrow> ('s, 'a result) prog) \<Rightarrow> ('s, exit) prog" where
  "finish A call =
     (case parseConfig A of
        None \<Rightarrow> ret Exited
      | Some roster \<Rightarrow> bnd (call roster) (\<lambda>r.
          case r of Inl err \<Rightarrow> ret (Ended (Some (''Error: '' @ err))) | Inr resp \<Rightarrow> ret (Ended None)))"

definition addPeer :: "'s app_env \<Rightarrow> string list \<Rightarrow> ('s, exit) prog" where
  "addPeer A args =
     (if length args < 1 then ret (Ended (Some arguments_error))
      else finish A (\<lambda>roster. Client_Peer (net A) roster (ReqPeer ''add'' (parse_peers (parser A) args))))"

definition delPeer :: "'s app_env \<Rightarrow> string list \<Rightarrow> ('s, exit) prog" where
  "delPeer A args =
     (if length args < 1 then ret (Ended (Some arguments_error))
      else finish A (\<lambda>roster. Client_Peer (net A) roster (ReqPeer ''del'' (parse_peers (parser A) args))))"

definition showPeer :: "'s app_env \<Rightarrow> string list \<Rightarrow> ('s, exit) prog" where
  "showPeer A args =
     finish A (\<lambda>roster. Client_Peer (net A) roster (ReqPeer ''show'' (parse_peers (parser A) args)))"

text \<open>\<open>strings.Index(peerURL, "://") < 0\<close>.\<close>

fun has_scheme :: "string \<Rightarrow> bool" where
  "has_scheme (a # b # c # cs) = (a = CHR '':'' \<and> b = CHR ''/'' \<and> c = CHR ''/'' \<or> has_scheme (b # c # cs))"
| "has_scheme _ = False"

definition proxy_url :: "string \<Rightarrow> string" where
  "proxy_url peerURL = (if \<not> has_scheme peerURL then ''tls://'' @ peerURL else peerURL)"

text \<open>The source appends these strings to a \<open>[]*string\<close> in \<open>delProxy\<close>; meant is a \<open>[]string\<close>.\<close>

definition addProxy :: "'s app_env \<Rightarrow> string list \<Rightarrow> ('s, exit) prog" where
  "addProxy A args =
     (if length args < 1 then ret (Ended (Some arguments_error))
      else finish A (\<lambda>roster. Client_Peer (net A) roster (ReqProxy ''add'' (map proxy_url args))))"

definition delProxy :: "'s app_env \<Rightarrow> string list \<Rightarrow> ('s, exit) prog" where
  "delProxy A args =
     (if length args < 1 then ret (Ended (Some arguments_error))
      else finish A (\<lambda>roster. Client_Peer (net A) roster (ReqProxy ''del'' (map proxy_url args))))"

definition showProxy :: "'s app_env \<Rightarrow> ('s, exit) prog" where
  "showProxy A = finish A (\<lambda>roster. Client_Peer (net A) roster (ReqProxy ''show'' []))"

definition createGenesisBlock :: "'s app_env \<Rightarrow> ('s, exit) prog" where
  "createGenesisBlock A = finish A (Client_CreateGenesisBlock (net A))"

text \<open>\<open>strings.ToLower\<close> on the two characters that \<open>HasPrefix\<close> looks at.\<close>

definition has_0x :: "string \<Rightarrow> bool" where
  "has_0x s \<longleftrightarrow> take 2 s = ''0x'' \<or> take 2 s = ''0X''"

definition getIDPointer :: "string \<Rightarrow> bytes option result" where
  "getIDPointer s =
     (let s = (if has_0x s then drop 2 s else s) in
      if s = [] then Inr None
      else case hex_decode s of
          Inl err \<Rightarrow> Inl (''couldn't decode '' @ s @ '': '' @ err)
        | Inr bHash \<Rightarrow> Inr (Some bHash))"

definition block_error :: "go_error \<Rightarrow> go_error" where
  "block_error err = ''couldn't get block: '' @ err"

text \<open>The flags \<open>--hash\<close> (empty when missing) and \<open>--index\<close> (\<open>-1\<close> when missing).\<close>

definition showBlock :: "'s app_env \<Rightarrow> string \<Rightarrow> int \<Rightarrow> ('s, exit) prog" where
  "showBlock A hash blockIndex =
     (case getIDPointer hash of
        Inl err \<Rightarrow> ret (Ended (Some (''couldn't get hash: '' @ err)))
      | Inr blockID \<Rightarrow>
          if blockIndex \<ge> 0 \<and> blockID \<noteq> None then ret (Ended (Some ''--index or --hash don't same time''))
          else case parseConfig A of
              None \<Rightarrow> ret Exited
            | Some roster \<Rightarrow>
                bnd (case blockID of
                       Some i \<Rightarrow> Client_GetBlockByID (net A) roster (Some i)
                     | None \<Rightarrow> if blockIndex \<ge> 0 then Client_GetBlockByIndex (net A) roster (of_int blockIndex)
                               else Client_GetLatestBlock (net A) roster) (\<lambda>r.
                case r of
                  Inl resperr \<Rightarrow> ret (Ended (Some (block_error resperr)))
                | Inr resp \<Rightarrow> ret (Ended None)))"

section \<open>The table of commands\<close>

datatype action =
    CmdTime | CmdCounter
  | AddPeer | DelPeer | ShowPeer
  | AddProxy | DelProxy | ShowProxy
  | CreateGenesis | ShowBlock

text \<open>A command: its name, its aliases, and its action or its subcommands.\<close>

datatype command = Command string "string list" "action option" "command list"

definition peer_commands :: "command list" where
  "peer_commands = [Command ''add'' [] (Some AddPeer) [], Command ''del'' [] (Some DelPeer) [], Command ''show'' [] (Some ShowPeer) []]"

definition proxy_commands :: "command list" where
  "proxy_commands = [Command ''add'' [] (Some AddProxy) [], Command ''del'' [] (Some DelProxy) [], Command ''show'' [] (Some ShowProxy) []]"

definition cmds :: "command list" where
  "cmds = [Command ''peer'' [''p''] None peer_commands, Command ''proxy'' [''a''] None proxy_commands,
     Command ''genesisblock'' [''g''] (Some CreateGenesis) [], Command ''block'' [''b''] (Some ShowBlock) []]"

text \<open>The commands of \<open>main\<close>: its own two and those of cmd.go.\<close>

definition all_commands :: "command list" where
  "all_commands = [Command ''time'' [''t''] (Some CmdTime) [], Command ''counter'' [''c''] (Some CmdCounter) []] @ cmds"

fun command_names :: "command \<Rightarrow> string list" where
  "command_names (Command name aliases _ _) = name # aliases"

text \<open>The library looks a word up by name or alias, and takes the first match.\<close>

definition find_command :: "string \<Rightarrow> command list \<Rightarrow> command option" where
  "find_command w cs = List.find (\<lambda>c. w \<in> set (command_names c)) cs"

fun route :: "command list \<Rightarrow> string list \<Rightarrow> (action \<times> string list) option" where
  "route cs [] = None"
| "route cs (w # ws) =
     (case find_command w cs of
        None \<Rightarrow> None
      | Some (Command _ _ (Some a) _) \<Rightarrow> Some (a, ws)
      | Some (Command _ _ None subs) \<Rightarrow>
          (case ws of
             [] \<Rightarrow> None
           | v # vs \<Rightarrow>
               (case find_command v subs of Some (Command _ _ (Some a) _) \<Rightarrow> Some (a, vs) | _ \<Rightarrow> None)))"

section \<open>A client and a node\<close>

text \<open>A client whose messages reach the node with environment \<open>E\<close>, and whose replies are decoded as sent.\<close>

locale connected =
  fixes C :: "'k Service client_env" and E :: "('k, 'v) node_env"
  assumes served: "SendProtobuf C si req s = serve E req s"
    and decoded: "as_PeerReply C (PeerReply l) = Inr l"
begin

lemma ask_serve: "ask C decode roster req = bnd (serve E req) (\<lambda>r. ret (case r of Inl err \<Rightarrow> Inl err | Inr reply \<Rightarrow> decode reply))"
  by (rule ext) (simp add: ask_def prog_simps served)

text \<open>For peers the client is transparent.\<close>

lemma Client_Peer_serve: "Client_Peer C roster (ReqPeer command nodes) = Peer E command nodes"
proof (rule ext)
  fix s :: "'k Service"
  show "Client_Peer C roster (ReqPeer command nodes) s = Peer E command nodes s"
  proof (cases "Peer E command nodes s")
    case (Returns r t)
    then show ?thesis by (cases r) (simp_all add: Client_Peer_def ask_serve prog_simps reply_with_def decoded)
  qed (simp_all add: Client_Peer_def ask_serve prog_simps reply_with_def)
qed

end

definition node_client :: "('k, 'v) node_env \<Rightarrow> (reply \<Rightarrow> Block result) \<Rightarrow> 'k Service client_env" where
  "node_client E decode = \<lparr>RandomServerIdentity = (\<lambda>roster. self E), SendProtobuf = (\<lambda>si. serve E),
     as_PeerReply = (\<lambda>r. case r of PeerReply l \<Rightarrow> Inr l | _ \<Rightarrow> Inl ''wrong message type''), as_Block = decode\<rparr>"

interpretation local: connected "node_client E decode" E for E decode
  by unfold_locales (simp_all add: node_client_def)

section \<open>Properties\<close>

lemma set_parse_peers: "set (parse_peers U us) = {si. \<exists>u\<in>set us. ConvertPeerURL U u = Inr si}"
  by (induction us) (auto split: sum.split)

text \<open>
  C20: \<open>peer add\<close> from the command line to the peer map. With a readable group file and URLs that carry
  keys, the command ends without error, and the node it reaches starts to ping exactly the peers
  among the URLs that parse which it does not know yet, if there are any. Once that goroutine has
  run, the node's peers are those it had and the pinged ones that answered.
\<close>

theorem peer_add_end_to_end:
  assumes "connected (net A) E" "parseConfig A = Some roster" "args \<noteq> []"
    and "list_all has_key (parse_peers (parser A) args)" "\<not> ps_locked (peerStorage s)"
    and "fresh = filter (\<lambda>p. peerNodeMap (peerStorage s) (the (si_Public p)) = None) (parse_peers (parser A) args)"
  shows "\<exists>s1. addPeer A args s = Returns (Ended None) s1 \<and>
    spawned s1 = spawned s @ (if fresh = [] then [] else [AddPeers fresh True]) \<and>
    peerNodeMap (peerStorage s1) = peerNodeMap (peerStorage s) \<and> outbox s1 = outbox s \<and>
    (\<exists>s2. run_task E (AddPeers fresh True) s1 = Returns () s2 \<and>
       dom (peerNodeMap (peerStorage s2)) = dom (peerNodeMap (peerStorage s)) \<union>
         (the \<circ> si_Public) ` set (answering E (length (outbox s)) fresh))"
proof -
  define s1 where "s1 = (if fresh = [] then s else s\<lparr>spawned := spawned s @ [AddPeers fresh True]\<rparr>)"
  have frame: "peerStorage s1 = peerStorage s" "outbox s1 = outbox s"
    "spawned s1 = spawned s @ (if fresh = [] then [] else [AddPeers fresh True])"
    by (simp_all add: s1_def)
  have sel: "select_peers False (parse_peers (parser A) args) t = Returns fresh t"
    if "peerStorage t = (peerStorage s)\<lparr>ps_locked := True\<rparr>" for t :: "'a Service"
    using select_peers_eval [OF assms(4), of False t] that by (simp add: assms(6))
  have "Peer E ''add'' (parse_peers (parser A) args) s = Returns (Inr fresh) s1"
    using assms(5) sel [of "put_ps_locked True s"] by (auto simp: Peer_def with_peers_def prog_simps s1_def)
  then have add: "addPeer A args s = Returns (Ended None) s1"
    using assms(2,3) connected.Client_Peer_serve [OF assms(1), of roster "''add''"]
    by (cases args) (auto simp: addPeer_def finish_def prog_simps)
  have keys: "list_all has_key fresh" using assms(4) by (simp add: assms(6) list_all_iff)
  have free: "\<not> ps_locked (peerStorage s1)" using assms(5) by (simp add: frame)
  obtain s2 where s2: "run_task E (AddPeers fresh True) s1 = Returns () s2"
      "peerNodeMap (peerStorage s2) = bind_peers (answering E (length (outbox s)) fresh) (peerNodeMap (peerStorage s))"
    using AddPeer_connected [OF keys free, of E] by (simp add: frame)
  have "dom (peerNodeMap (peerStorage s2)) = dom (peerNodeMap (peerStorage s)) \<union>
      (the \<circ> si_Public) ` set (answering E (length (outbox s)) fresh)"
    unfolding s2(2) by (rule bind_peers_dom [OF answering_keys [OF keys]])
  with add s2(1) frame show ?thesis by auto
qed

definition sample_app :: "(bytes \<times> Message) list Service app_env" where
  "sample_app = \<lparr>net = node_client sample_env (\<lambda>r. Inr NewBlock),
     parser = \<lparr>url_Parse = (\<lambda>u. Inr \<lparr>url_Scheme = ''tls'', url_Username = u, url_Host = ''host:1''\<rparr>),
       find_suite = None, StringHexToPoint = (\<lambda>key. if key = [] then Inl ''empty'' else Inr key)\<rparr>,
     config_exists = True, config_open = None, read_group = Inr [sample_peer ''me'']\<rparr>"

lemma sample_app_simps [simp]:
  "net sample_app = node_client sample_env (\<lambda>r. Inr NewBlock)" "parseConfig sample_app = Some [sample_peer ''me'']"
  "parse_peers (parser sample_app) [''a''] = [sample_peer ''a'']"
  by (simp_all add: sample_app_def parseConfig_def ErrFatal_def ConvertPeerURL_def Let_def sample_peer_def)

lemma peer_add_end_to_end_witness:
  "\<exists>s1 s2. addPeer sample_app [''a''] new_node = Returns (Ended None) s1 \<and> spawned s1 = [AddPeers [sample_peer ''a''] True] \<and>
    run_task sample_env (AddPeers [sample_peer ''a''] True) s1 = Returns () s2 \<and>
    dom (peerNodeMap (peerStorage s2)) = {''a''}"
proof -
  have c: "connected (net sample_app) sample_env" by (simp add: local.connected_axioms)
  have peers: "peerStorage new_node = \<lparr>peerNodeMap = Map.empty, ps_locked = False\<rparr>" "outbox new_node = []"
    by (simp_all add: new_node_def fresh_service_def)
  have f: "[sample_peer ''a''] = filter (\<lambda>p. peerNodeMap (peerStorage new_node) (the (si_Public p)) = None)
      (parse_peers (parser sample_app) [''a''])" unfolding sample_app_simps(3) by (simp add: peers)
  have k: "list_all has_key (parse_peers (parser sample_app) [''a''])"
    unfolding sample_app_simps(3) by (simp add: has_key_def sample_peer_def)
  have 1: "[''a''] \<noteq> []" and 2: "\<not> ps_locked (peerStorage new_node)" by (simp_all add: peers)
  from peer_add_end_to_end [OF c sample_app_simps(2) 1 k 2 f] obtain s1 s2 where
    "addPeer sample_app [''a''] new_node = Returns (Ended None) s1"
    "spawned s1 = spawned new_node @ (if [sample_peer ''a''] = [] then [] else [AddPeers [sample_peer ''a''] True])"
    "run_task sample_env (AddPeers [sample_peer ''a''] True) s1 = Returns () s2"
    "dom (peerNodeMap (peerStorage s2)) = dom (peerNodeMap (peerStorage new_node)) \<union>
         (the \<circ> si_Public) ` set (answering sample_env (length (outbox new_node)) [sample_peer ''a''])" by blast
  moreover have "answering sample_env 0 [sample_peer ''a''] = [sample_peer ''a'']" "si_Public (sample_peer ''a'') = Some ''a''"
    by (simp_all add: sample_env_def sample_peer_def)
  ultimately show ?thesis
    by (intro exI [of _ s1] exI [of _ s2] conjI) (simp_all add: peers del: run_task.simps answering.simps)
qed

lemma has_0x_hex: "\<not> has_0x (hex_encode bs)"
proof (cases bs)
  case (Cons b bs')
  have "\<forall>n\<in>set [0..<16]. hex_digits ! n \<noteq> CHR ''x'' \<and> hex_digits ! n \<noteq> CHR ''X''"
    by (simp add: hex_digits_def upt_conv_Cons nth_Cons')
  then have "hex_digits ! (unat b mod 16) \<noteq> CHR ''x''" "hex_digits ! (unat b mod 16) \<noteq> CHR ''X''" by simp_all
  then show ?thesis by (simp add: Cons hex_encode_def hex_of_byte_def has_0x_def)
qed (simp add: hex_encode_def has_0x_def)

lemma getIDPointer_hex:
  assumes "h \<noteq> []" "prefix = [] \<or> prefix = ''0x'' \<or> prefix = ''0X''"
  shows "getIDPointer (prefix @ hex_encode h) = Inr (Some h)"
proof -
  have "hex_encode h \<noteq> []" using assms(1) by (cases h) (simp_all add: hex_encode_def hex_of_byte_def)
  moreover have "has_0x (''0x'' @ t)" "has_0x (''0X'' @ t)" for t by (simp_all add: has_0x_def)
  ultimately show ?thesis
    using assms(2) has_0x_hex [of h] by (auto simp: getIDPointer_def Let_def hex_decode_encode)
qed

definition answer_of :: "'a result \<Rightarrow> exit" where
  "answer_of r = Ended (case r of Inl err \<Rightarrow> Some (block_error err) | Inr resp \<Rightarrow> None)"

lemma answer_of_case:
  "(\<lambda>r. case r of Inl err \<Rightarrow> ret (Ended (Some (block_error err))) | Inr resp \<Rightarrow> ret (Ended None)) = (\<lambda>r. ret (answer_of r))"
  by (rule ext) (simp add: answer_of_def split: sum.split)

text \<open>
  C24: A block by its hash, from the command line to the request. The text that the node prints for a
  hash (hex digits, here after \<open>0x\<close>, \<open>0X\<close> or nothing) given as \<open>--hash\<close> makes the client ask for
  exactly that hash; together with \<open>--index\<close> it is refused before anything is sent; and without a
  hash a non-negative \<open>--index\<close> asks for that height, a negative one for the latest block.
\<close>

theorem block_command_asks:
  assumes "parseConfig A = Some roster" "h \<noteq> []" "prefix = [] \<or> prefix = ''0x'' \<or> prefix = ''0X''"
  shows "(i < 0 \<longrightarrow> showBlock A (prefix @ hex_encode h) i =
      bnd (ask (net A) (as_Block (net A)) roster (ReqBlockByID (Some h))) (\<lambda>r. ret (answer_of r))) \<and>
    (i \<ge> 0 \<longrightarrow> showBlock A (prefix @ hex_encode h) i = ret (Ended (Some ''--index or --hash don't same time''))) \<and>
    showBlock A [] i = bnd (ask (net A) (as_Block (net A)) roster (if i \<ge> 0 then ReqBlockByIndex (of_int i) else ReqLatestBlock))
      (\<lambda>r. ret (answer_of r))"
proof -
  have none: "getIDPointer [] = Inr None" by (simp add: getIDPointer_def has_0x_def)
  show ?thesis
    using assms(1) getIDPointer_hex [OF assms(2,3)]
    by (simp add: showBlock_def none answer_of_case Client_GetBlockByID_def Client_GetBlockByIndex_def Client_GetLatestBlock_def)
qed

lemma block_command_asks_witness:
  "showBlock sample_app (''0x'' @ hex_encode [2]) 3 new_node =
     Returns (Ended (Some ''--index or --hash don't same time'')) new_node \<and>
   (\<exists>s. showBlock sample_app [] (- 1) new_node = Returns (Ended (Some (block_error ''Blockchain not actived''))) s)"
proof -
  have "serve sample_env ReqLatestBlock new_node = Returns (Inl ''Blockchain not actived'') new_node"
    using GetLatest_empty [of "put_chain_locked True new_node" sample_env]
    by (simp add: client_defs prog_simps)
  then have "ask (net sample_app) (as_Block (net sample_app)) [sample_peer ''me''] ReqLatestBlock new_node =
      Returns (Inl ''Blockchain not actived'') new_node"
    by (simp add: local.ask_serve prog_simps)
  with block_command_asks [OF sample_app_simps(2), of "[2]" "''0x''" 3] block_command_asks [OF sample_app_simps(2), of "[2]" "[]" "- 1"]
  show ?thesis by (simp add: prog_simps answer_of_def)
qed

text \<open>
  The command words. No two commands of the same level share a name or an alias, and every command
  line of the help texts reaches its action with the arguments that follow.
\<close>

theorem commands_routed:
  "distinct (concat (map command_names all_commands)) \<and>
   distinct (concat (map command_names peer_commands)) \<and> distinct (concat (map command_names proxy_commands)) \<and>
   route all_commands (''peer'' # ''add'' # args) = Some (AddPeer, args) \<and>
   route all_commands (''peer'' # ''del'' # args) = Some (DelPeer, args) \<and>
   route all_commands (''p'' # ''show'' # args) = Some (ShowPeer, args) \<and>
   route all_commands (''proxy'' # ''add'' # args) = Some (AddProxy, args) \<and>
   route all_commands (''proxy'' # ''del'' # args) = Some (DelProxy, args) \<and>
   route all_commands (''a'' # ''show'' # args) = Some (ShowProxy, args) \<and>
   route all_commands (''genesisblock'' # args) = Some (CreateGenesis, args) \<and>
   route all_commands (''block'' # args) = Some (ShowBlock, args) \<and>
   route all_commands (''time'' # args) = Some (CmdTime, args) \<and>
   route all_commands (''counter'' # args) = Some (CmdCounter, args)"
  by (simp add: all_commands_def cmds_def peer_commands_def proxy_commands_def find_command_def)

text \<open>
  Gateways cannot be listed or deleted. In every run of a node started without gateways, while
  \<open>proxyStorage\<close> is free, \<open>proxy show\<close> answers with an empty list and \<open>proxy del\<close> deletes and
  reports nothing, whatever was added before: both look into the gateway map, which stays empty,
  and \<open>proxy add\<close> fills the address map.
\<close>

theorem proxies_out_of_reach:
  assumes "node_runs E ok (fresh_service bk) s" "\<not> ps_locked (proxyStorage s)" "key_order E {} = []"
  shows "Proxy E ''show'' [] s = Returns (Inr []) s \<and> Proxy E ''del'' addresses s = Returns (Inr []) s"
proof -
  from node_runs_any [OF assms(1)] have "no_gateways s"
    by (rule gateway_runs.runs_keep) (simp add: no_gateways_def fresh_service_def)
  then have none: "peerNodeMap (proxyStorage s) = Map.empty" by (simp add: no_gateways_def)
  then show ?thesis
    using assms(2,3) delete_none [of addresses "put_proxy_locked True s"]
    by (simp add: Proxy_def with_proxies_def prog_simps)
qed

lemma proxies_out_of_reach_witness:
  "\<exists>s. node_runs sample_env (\<lambda>_. True) (fresh_service (Some [])) s \<and> ''tls://g:1'' \<in> dom (addressMap s) \<and>
    Proxy sample_env ''show'' [] s = Returns (Inr []) s \<and> Proxy sample_env ''del'' [''tls://g:1''] s = Returns (Inr []) s"
proof -
  let ?s = "final_state (serve sample_env (ReqProxy ''add'' [''tls://g:1'']) new_node)"
  have "serve sample_env (ReqProxy ''add'' [''tls://g:1'']) new_node =
      Returns (Inr (ProxyReply [])) (new_node\<lparr>addressMap := [''tls://g:1'' \<mapsto> True], spawned := [BroadcastAddress [''tls://g:1'']]\<rparr>)"
    by (simp add: client_defs prog_simps new_node_def fresh_service_def)
  then have s: "?s = new_node\<lparr>addressMap := [''tls://g:1'' \<mapsto> True], spawned := [BroadcastAddress [''tls://g:1'']]\<rparr>"
    by simp
  have run: "node_runs sample_env (\<lambda>_. True) (fresh_service (Some [])) ?s"
    unfolding new_node_def by (rule node_runs.step [OF node_runs.start node_step.call])
  moreover have "\<not> ps_locked (proxyStorage ?s)" "key_order sample_env {} = []"
    by (simp_all only: s) (simp_all add: new_node_def fresh_service_def sample_env_def)
  ultimately show ?thesis
    using proxies_out_of_reach [of sample_env "\<lambda>_. True" "Some []" ?s "[''tls://g:1'']"]
    by (intro exI [of _ ?s]) (simp only: s, simp)
qed

end
