(* ===== verification/Timing.thy ===== *)
theory Timing
  imports Client
begin

text \<open>
  api.go and app/app.go: the two requests of the framework's template, \<open>Clock\<close> and \<open>Count\<close>, and the
  commands \<open>time\<close> and \<open>counter\<close> that send them. No method of \<open>Service\<close> answers them, so the transport
  is an argument for them alone.
\<close>

section \<open>The client library\<close>

text \<open>A \<open>float64\<close> is only printed, so its type is open.\<close>

record 'f ClockReply =
  cr_Time :: 'f
  cr_Children :: int

record ('s, 'f) timing_env =
  pick_server :: "ServerIdentity list \<Rightarrow> ServerIdentity option"
  send_Clock :: "ServerIdentity option \<Rightarrow> ServerIdentity list \<Rightarrow> ('s, 'f ClockReply result) prog"
  send_Count :: "ServerIdentity option \<Rightarrow> ('s, int result) prog"

definition Client_Clock :: "('s, 'f) timing_env \<Rightarrow> ServerIdentity list \<Rightarrow> ('s, 'f ClockReply result) prog" where
  "Client_Clock T r = send_Clock T (pick_server T r) r"

text \<open>The count comes with an error: -1 and the error, or the count and \<open>nil\<close>.\<close>

definition Client_Count :: "('s, 'f) timing_env \<Rightarrow> ServerIdentity option \<Rightarrow> ('s, int \<times> go_error option) prog" where
  "Client_Count T si =
     bnd (send_Count T si) (\<lambda>reply. ret (case reply of Inl err \<Rightarrow> (- 1, Some err) | Inr n \<Rightarrow> (n, None)))"

section \<open>The commands\<close>

text \<open>
  The group file, by its name: \<open>open_file\<close> tells whether it can be opened, \<open>read_file\<close> what is in it.
  \<open>None\<close> when the process exits; an empty roster is reported with the error of the reader, which is
  nil there.
\<close>

record group_files =
  open_file :: "string \<Rightarrow> go_error option"
  read_file :: "string \<Rightarrow> ServerIdentity list result"

definition readGroup :: "group_files \<Rightarrow> string list \<Rightarrow> ServerIdentity list option" where
  "readGroup F args =
     (case args of
        [name] \<Rightarrow>
          if ErrFatal (open_file F name) then None
          else (case read_file F name of
              Inl err \<Rightarrow> None
            | Inr roster \<Rightarrow> if length roster = 0 \<and> ErrFatal None then None else Some roster)
      | _ \<Rightarrow> None)"

definition cmdTime :: "group_files \<Rightarrow> ('s, 'f) timing_env \<Rightarrow> string list \<Rightarrow> ('s, exit) prog" where
  "cmdTime F T args =
     (case readGroup F args of
        None \<Rightarrow> ret Exited
      | Some roster \<Rightarrow> bnd (Client_Clock T roster) (\<lambda>r.
          case r of
            Inl err \<Rightarrow> ret (Ended (Some (''When asking the time: '' @ err)))
          | Inr resp \<Rightarrow> ret (Ended None)))"

definition cmdCounter :: "group_files \<Rightarrow> ('s, 'f) timing_env \<Rightarrow> string list \<Rightarrow> ('s, exit) prog" where
  "cmdCounter F T args =
     (case readGroup F args of
        None \<Rightarrow> ret Exited
      | Some roster \<Rightarrow> bnd (Client_Count T (pick_server T roster)) (\<lambda>(counter, err).
          case err of
            Some err \<Rightarrow> ret (Ended (Some (''When asking for counter: '' @ err)))
          | None \<Rightarrow> ret (Ended None)))"

text \<open>
  Where the two readers of a roster differ: \<open>readGroup\<close> takes the file from the arguments,
  \<open>parseConfig\<close> from the flags, and both go on with an empty roster.
\<close>

lemma readGroup_parseConfig:
  assumes "config_exists A" "config_open A = open_file F name" "read_group A = read_file F name"
  shows "readGroup F [name] = parseConfig A"
  using assms by (simp add: readGroup_def parseConfig_def ErrFatal_def)

text \<open>
  Both commands exit, without sending anything, unless exactly one file is named and can be read; else
  they end with the answer of the server chosen from the roster, an error of which they report.
\<close>

theorem timing_commands:
  "cmdTime F T args = (case readGroup F args of
     None \<Rightarrow> ret Exited
   | Some roster \<Rightarrow> bnd (send_Clock T (pick_server T roster) roster)
       (\<lambda>r. ret (Ended (case r of Inl err \<Rightarrow> Some (''When asking the time: '' @ err) | Inr _ \<Rightarrow> None)))) \<and>
   cmdCounter F T args = (case readGroup F args of
     None \<Rightarrow> ret Exited
   | Some roster \<Rightarrow> bnd (send_Count T (pick_server T roster))
       (\<lambda>r. ret (Ended (case r of Inl err \<Rightarrow> Some (''When asking for counter: '' @ err) | Inr _ \<Rightarrow> None)))) \<and>
   (readGroup F args = None \<longleftrightarrow>
      (\<forall>name. args = [name] \<longrightarrow> open_file F name \<noteq> None \<or> (\<exists>err. read_file F name = Inl err)))"
proof (intro conjI)
  show "readGroup F args = None \<longleftrightarrow>
      (\<forall>name. args = [name] \<longrightarrow> open_file F name \<noteq> None \<or> (\<exists>err. read_file F name = Inl err))"
    by (auto simp: readGroup_def ErrFatal_def split: list.splits sum.splits)
qed (auto simp: cmdTime_def cmdCounter_def Client_Clock_def Client_Count_def bnd_def ret_def fun_eq_iff
    split: option.splits outcome.splits sum.splits)

end
