(* ===== verification/EndToEnd.thy ===== *)
theory EndToEnd
  imports Client
begin

text \<open>
  From the command line to the database and back: the commands \<open>genesisblock\<close> and \<open>block\<close> of the
  client, the service calls they make, and the store behind them.
\<close>

lemma GetLatestBlock_tip:
  assumes "tip E s b" "\<not> createBlockChainMutex s"
  obtains c where "GetLatestBlock E s = Returns (Inr (Some c)) (ticked s)" "same_block c b"
proof -
  have "tip E (put_chain_locked True s) b" using assms(1) by (simp add: tip_def)
  then obtain c where "on_db (GetLatest (store E)) (put_chain_locked True s) = Returns (Some c) (ticked (put_chain_locked True s))"
    "same_block c b" by (rule GetLatest_tip)
  with assms(2) show thesis
    by (intro that [of c]) (simp_all add: GetLatestBlock_def with_chain_def lock_eval prog_eval ticked_def)
qed

lemma GetBlockByID_tip:
  assumes "tip E s b" "\<not> createBlockChainMutex s" "hb_Hash b = Some h"
  obtains c where "GetBlockByID E (Some h) s = Returns (Inr (Some c)) (ticked (ticked s))" "same_block c b"
proof -
  let ?s = "put_chain_locked True s"
  have tip: "tip E ?s b" using assms(1) by (simp add: tip_def)
  then obtain c where c: "on_db (GetLatest (store E)) ?s = Returns (Some c) (ticked ?s)" by (rule GetLatest_tip)
  have "stored (store E) (db (ticked ?s)) h b" using tip assms(3) by (simp add: tip_def ticked_def)
  then obtain d where "on_db (GetByID (store E) (Some h)) (ticked ?s) = Returns (Some d) (ticked (ticked ?s))" "same_block d b"
    by (rule GetByID_on_db)
  with c assms(2) show thesis
    by (intro that [of d]) (simp_all add: GetBlockByID_def with_chain_def lock_eval prog_eval ticked_def)
qed

context connected
begin

lemma ask_block:
  assumes "serve E req s = Returns (Inr reply) s'"
  shows "ask C (as_Block C) roster req s = Returns (as_Block C reply) s'"
  using assms by (simp add: ask_serve prog_simps)

lemma ask_refused:
  assumes "serve E req s = Returns (Inl err) s'"
  shows "ask C (as_Block C) roster req s = Returns (Inl err) s'"
  using assms by (simp add: ask_serve prog_simps)

end

text \<open>
  C10: A chain from the command line. With a readable group file and a client connected to a node that
  has no chain yet, whose database works: \<open>genesisblock\<close> makes the node store its genesis block as the latest
  one, send it to every peer and start a timer, and decodes it; afterwards \<open>block\<close>, and
  \<open>block --hash\<close> with its printed hash, make the client decode a block with the same contents, and a second
  \<open>genesisblock\<close> is refused.
\<close>

theorem genesis_then_block:
  assumes "connected (net A) E" "parseConfig A = Some roster"
    and "storage (store E)" "writable (store E)" "bucket (db s) \<noteq> None" "\<not> latestMutex (db s)"
      "latestBlockID (db s) = None" "\<not> createBlockChainMutex s"
      "hello_ok (genesis_block E)" "hb_Hash (genesis_block E) = Some h" "fits h"
  shows "\<exists>s1 c d t u. let reply = (\<lambda>b. as_Block (net A) (BlockReply (Some b))) in
    createGenesisBlock A s =
      Returns (Ended (case reply (genesis_block E) of Inl err \<Rightarrow> Some (''Error: '' @ err) | Inr _ \<Rightarrow> None)) s1 \<and>
    outbox s1 = outbox s @ map (\<lambda>p. (p, BlockMessage NewLeaderHello (Some (PHello (genesis_block E)))))
      (peer_list E (peerNodeMap (peerStorage s))) \<and>
    spawned s1 = spawned s @ [StartTimer (genesis_block E)] \<and>
    showBlock A [] (- 1) s1 = Returns (answer_of (reply c)) t \<and> same_block c (genesis_block E) \<and>
    showBlock A (''0x'' @ hex_encode h) (- 1) s1 = Returns (answer_of (reply d)) u \<and> same_block d (genesis_block E) \<and>
    (\<exists>v. createGenesisBlock A s1 = Returns (Ended (Some ''Error: you have already joined blockchain'')) v)"
proof -
  let ?g = "genesis_block E"
  obtain s1 where s1: "CreateGenesisBlock E s = Returns (Inr ?g) s1" "tip E s1 ?g"
    "outbox s1 = outbox s @ map (\<lambda>p. (p, BlockMessage NewLeaderHello (Some (PHello ?g))))
      (peer_list E (peerNodeMap (peerStorage s)))"
    "spawned s1 = spawned s @ [StartTimer ?g]" "\<not> createBlockChainMutex s1"
    using assms(3-) by (rule CreateGenesis_accepted) blast
  note asked = connected.ask_block [OF assms(1)] connected.ask_refused [OF assms(1)]
  obtain c where c: "GetLatestBlock E s1 = Returns (Inr (Some c)) (ticked s1)" "same_block c ?g"
    using s1(2,5) by (rule GetLatestBlock_tip)
  obtain d where d: "GetBlockByID E (Some h) s1 = Returns (Inr (Some d)) (ticked (ticked s1))" "same_block d ?g"
    using s1(2,5) assms(10) by (rule GetBlockByID_tip)
  have genesis: "ask (net A) (as_Block (net A)) roster ReqGenesisBlock s = Returns (as_Block (net A) (BlockReply (Some ?g))) s1"
    by (rule asked(1)) (simp add: s1(1) reply_with_def prog_simps)
  have latest: "ask (net A) (as_Block (net A)) roster ReqLatestBlock s1 = Returns (as_Block (net A) (BlockReply (Some c))) (ticked s1)"
    by (rule asked(1)) (simp add: c(1) reply_with_def prog_simps)
  have by_id: "ask (net A) (as_Block (net A)) roster (ReqBlockByID (Some h)) s1 =
      Returns (as_Block (net A) (BlockReply (Some d))) (ticked (ticked s1))"
    by (rule asked(1)) (simp add: d(1) reply_with_def prog_simps)
  have again: "ask (net A) (as_Block (net A)) roster ReqGenesisBlock s1 = Returns (Inl ''you have already joined blockchain'') (ticked s1)"
    by (rule asked(2)) (simp add: GenesisBlock_again [OF s1(2,5)] reply_with_def prog_simps)
  have "getIDPointer (''0x'' @ hex_encode h) = Inr (Some h)" "getIDPointer [] = Inr None"
    using getIDPointer_hex [of h "''0x''"] assms(11) by (simp_all add: fits_def getIDPointer_def has_0x_def)
  then have show_latest: "showBlock A [] (- 1) s1 = Returns (answer_of (as_Block (net A) (BlockReply (Some c)))) (ticked s1)"
    and show_id: "showBlock A (''0x'' @ hex_encode h) (- 1) s1 =
      Returns (answer_of (as_Block (net A) (BlockReply (Some d)))) (ticked (ticked s1))"
    using assms(2) latest by_id
    by (simp_all add: showBlock_def answer_of_case Client_GetBlockByID_def Client_GetLatestBlock_def prog_simps)
  have "createGenesisBlock A s = Returns (Ended (case as_Block (net A) (BlockReply (Some ?g)) of
      Inl err \<Rightarrow> Some (''Error: '' @ err) | Inr _ \<Rightarrow> None)) s1"
    "createGenesisBlock A s1 = Returns (Ended (Some ''Error: you have already joined blockchain'')) (ticked s1)"
    using assms(2) genesis again
    by (simp_all add: createGenesisBlock_def finish_def Client_CreateGenesisBlock_def prog_simps split: sum.split)
  with show_latest show_id s1(3,4) c(2) d(2) show ?thesis by (auto simp: Let_def)
qed

lemma genesis_then_block_witness:
  "\<exists>s1 t. createGenesisBlock sample_app new_node = Returns (Ended None) s1 \<and>
    showBlock sample_app [] (- 1) s1 = Returns (Ended None) t \<and>
    spawned s1 = spawned new_node @ [StartTimer (sample_hello [])]"
proof -
  have g: "genesis_block sample_env = sample_hello []" by (simp add: sample_env_def)
  have 1: "connected (net sample_app) sample_env" by (simp add: local.connected_axioms)
  have 2: "storage (store sample_env)" "writable (store sample_env)"
    by (simp_all add: sample_env_store mem.storage_axioms mem_writable)
  have 3: "bucket (db new_node) \<noteq> None" "\<not> latestMutex (db new_node)" "latestBlockID (db new_node) = None"
    "\<not> createBlockChainMutex new_node"
    by (simp_all add: new_node_def fresh_service_def NewBlockDB_def)
  have 4: "hello_ok (genesis_block sample_env)" "hb_Hash (genesis_block sample_env) = Some [2]" "fits [2]"
    by (simp_all add: g sample_hello_def hello_ok_def NewDeForkBlock_def fits_def)
  from genesis_then_block [OF 1 sample_app_simps(2) 2 3 4] show ?thesis
    by (auto simp: Let_def g answer_of_def node_client_def)
qed

end
