(* ===== verification/Setup.thy ===== *)
theory Setup
  imports Format
begin

text \<open>
  conode/conode.go and conode/fd_unix.go, how a server is set up and started: the commands and their
  flags, the configuration file that \<open>setup\<close> writes, the limit of open files, and \<open>runServer\<close>. Keys, the
  suite, the files and the server of the framework are arguments.
\<close>

section \<open>The commands\<close>

datatype conode_action = SetupAction | ServerAction | CheckAction

text \<open>A command: its name, its aliases and its action.\<close>

definition conode_commands :: "(string \<times> string list \<times> conode_action) list" where
  "conode_commands =
     [(''setup'', [''s''], SetupAction), (''server'', [], ServerAction), (''check'', [''c''], CheckAction)]"

definition conode_route :: "string list \<Rightarrow> (conode_action \<times> string list) option" where
  "conode_route ws =
     (case ws of
        [] \<Rightarrow> None
      | w # args \<Rightarrow> map_option (\<lambda>c. (snd (snd c), args)) (List.find (\<lambda>c. w = fst c \<or> w \<in> set (fst (snd c))) conode_commands))"

text \<open>The flags of \<open>setup\<close>, and what they are when they are not given.\<close>

record setup_flags =
  non_interactive :: bool
  host :: string
  port :: int
  description :: string

definition default_flags :: setup_flags where
  "default_flags = \<lparr>non_interactive = False, host = [], port = 6879,
     description = ''configured in non-interactive mode''\<rparr>"

text \<open>\<open>main\<close> refuses to run where an \<open>int\<close> has less than 8 bytes.\<close>

definition word_size_ok :: "nat \<Rightarrow> bool" where
  "word_size_ok bytes \<longleftrightarrow> \<not> bytes < 8"

section \<open>The configuration file\<close>

text \<open>The library's \<open>net.JoinHostPort\<close> and \<open>network.NewAddress\<close> of a TLS address.\<close>

definition JoinHostPort :: "string \<Rightarrow> string \<Rightarrow> string" where
  "JoinHostPort h p = (if CHR '':'' \<in> set h then ''['' @ h @ '']:'' @ p else h @ '':'' @ p)"

definition tls_address :: "string \<Rightarrow> string" where
  "tls_address hostport = ''tls://'' @ hostport"

record 'v cothority_config =
  cc_Suite :: string
  cc_Public :: string
  cc_Private :: string
  cc_Address :: string
  cc_Description :: string
  cc_Services :: 'v

text \<open>
  \<open>PointToStringHex\<close> and \<open>ScalarToStringHex\<close> return a text and an error, which \<open>setup\<close> ignores;
  \<open>conf_Save\<close> writes a file, \<open>InteractiveConfig\<close> asks the user.
\<close>

record ('d, 'v) setup_env =
  suite_name :: string
  public_hex :: "string \<times> go_error option"
  private_hex :: "string \<times> go_error option"
  GenerateServiceKeyPairs :: 'v
  conf_Save :: "string \<Rightarrow> 'v cothority_config \<Rightarrow> ('d, go_error option) prog"
  InteractiveConfig :: "('d, unit) prog"

definition setup_config :: "('d, 'v) setup_env \<Rightarrow> setup_flags \<Rightarrow> 'v cothority_config" where
  "setup_config S flags =
     (let portStr = show_int (port flags);
          serverBinding = tls_address (JoinHostPort (host flags) portStr)
      in \<lparr>cc_Suite = suite_name S, cc_Public = fst (public_hex S), cc_Private = fst (private_hex S),
          cc_Address = serverBinding, cc_Description = description flags, cc_Services = GenerateServiceKeyPairs S\<rparr>)"

definition conode_setup :: "('d, 'v) setup_env \<Rightarrow> string \<Rightarrow> setup_flags \<Rightarrow> ('d, go_error option) prog" where
  "conode_setup S config flags =
     (if non_interactive flags then conf_Save S config (setup_config S flags)
      else seqp (InteractiveConfig S) (ret None))"

text \<open>
  How the address is read: \<open>net.SplitHostPort\<close>, at the last colon, with the brackets of an IPv6
  address removed.
\<close>

definition SplitHostPort :: "string \<Rightarrow> (string \<times> string) result" where
  "SplitHostPort s =
     (if CHR '':'' \<notin> set s then Inl ''missing port in address''
      else
        let p = rev (takeWhile (\<lambda>c. c \<noteq> CHR '':'') (rev s)); h = take (length s - length p - 1) s in
        if take 1 s = ''['' then
          (if h = [] \<or> last h \<noteq> CHR '']'' \<or> CHR '']'' \<in> set (butlast h) \<or> CHR ''['' \<in> set (tl h)
           then Inl ''missing port in address'' else Inr (tl (butlast h), p))
        else if CHR '':'' \<in> set h then Inl ''too many colons in address''
        else if CHR ''['' \<in> set s \<or> CHR '']'' \<in> set s then Inl ''unexpected bracket in address''
        else Inr (h, p))"

lemma last_colon: "CHR '':'' \<notin> set p \<Longrightarrow> rev (takeWhile (\<lambda>c. c \<noteq> CHR '':'') (rev (h @ CHR '':'' # p))) = p"
  by (subst rev_append, subst rev.simps, subst append_assoc, subst takeWhile_append2) auto

lemma SplitHostPort_Join:
  assumes "CHR '':'' \<notin> set p" "CHR ''['' \<notin> set h" "CHR '']'' \<notin> set h" "CHR ''['' \<notin> set p" "CHR '']'' \<notin> set p"
  shows "SplitHostPort (JoinHostPort h p) = Inr (h, p)"
proof (cases "CHR '':'' \<in> set h")
  case True
  then have "JoinHostPort h p = (''['' @ h @ '']'') @ CHR '':'' # p" by (simp add: JoinHostPort_def)
  with last_colon [OF assms(1), of "''['' @ h @ '']''"] assms show ?thesis
    by (simp add: SplitHostPort_def Let_def butlast_append)
next
  case False
  then have "JoinHostPort h p = h @ CHR '':'' # p" by (simp add: JoinHostPort_def)
  moreover have "take 1 (h @ CHR '':'' # p) \<noteq> ''[''" using assms(2) by (cases h) auto
  ultimately show ?thesis
    using last_colon [OF assms(1), of h] False assms by (simp add: SplitHostPort_def Let_def)
qed

lemma show_int_chars: "set (show_int i) \<subseteq> insert CHR ''-'' (set ''0123456789'')"
proof (cases "i < 0")
  case True
  then have "set (show_int i) = insert CHR ''-'' (set (digits (nat (- i))))" by (simp add: show_int_def)
  also have "\<dots> \<subseteq> insert CHR ''-'' (set ''0123456789'')" by (rule insert_mono [OF digit_chars])
  finally show ?thesis .
next
  case False
  then have "set (show_int i) = set (digits (nat i))" by (simp add: show_int_def)
  also have "\<dots> \<subseteq> insert CHR ''-'' (set ''0123456789'')" by (rule subset_insertI2 [OF digit_chars])
  finally show ?thesis .
qed

section \<open>The limit of open files\<close>

record rlimit =
  Cur :: u64
  Max :: u64

text \<open>
  \<open>raiseFdLimit\<close>: the two system calls may fail. \<open>None\<close>: \<open>log.Fatal\<close> has ended the process. The second
  \<open>Getrlimit\<close> is for the log.
\<close>

definition raiseFdLimit :: "go_error option \<Rightarrow> go_error option \<Rightarrow> rlimit \<Rightarrow> rlimit option" where
  "raiseFdLimit Getrlimit Setrlimit limits =
     (if Getrlimit \<noteq> None then None
      else
        let rLimit = limits in
        if Cur rLimit < Max rLimit then
          let rLimit = rLimit\<lparr>Cur := Max rLimit\<rparr> in
          Some (if Setrlimit \<noteq> None then limits else rLimit)
        else Some limits)"

text \<open>
  The limit is raised to its maximum when that is allowed, and never lowered; the maximum stays. Doing
  it again changes nothing.
\<close>

lemma raiseFdLimit_effect:
  assumes "raiseFdLimit None err k = Some k'"
  shows "Max k' = Max k" "Cur k \<le> Cur k'" "err = None \<Longrightarrow> Cur k \<le> Max k \<Longrightarrow> Cur k' = Max k"
    "raiseFdLimit None err k' = Some k'"
  using assms by (auto simp: raiseFdLimit_def Let_def split: if_splits)

section \<open>Starting the server\<close>

text \<open>
  The files: \<open>conf_Save\<close> writes one, and \<open>stored\<close> tells what is in one. \<open>ParseCothority\<close> makes a server of a
  configuration or fails. A server that starts runs until it is closed.
\<close>

datatype 'v server_end = ServerExited | ServerStarted "'v cothority_config"

definition runServer ::
  "('d \<Rightarrow> string \<Rightarrow> 'v cothority_config option) \<Rightarrow> ('v cothority_config \<Rightarrow> go_error option) \<Rightarrow> rlimit option option \<Rightarrow>
   string \<Rightarrow> 'd \<Rightarrow> 'v server_end" where
  "runServer stored ParseCothority raised config d =
     (if raised = Some None then ServerExited
      else case stored d config of
          None \<Rightarrow> ServerExited
        | Some conf \<Rightarrow> (case ParseCothority conf of Some err \<Rightarrow> ServerExited | None \<Rightarrow> ServerStarted conf))"

locale config_files =
  fixes save :: "string \<Rightarrow> 'v cothority_config \<Rightarrow> ('d, go_error option) prog"
    and stored :: "'d \<Rightarrow> string \<Rightarrow> 'v cothority_config option"
  assumes written: "save path conf d = Returns None d' \<Longrightarrow> stored d' = (stored d)(path \<mapsto> conf)"
    and not_written: "save path conf d = Returns (Some err) d' \<Longrightarrow> path' \<noteq> path \<Longrightarrow> stored d' path' = stored d path'"
begin

lemma setup_writes:
  assumes "conf_Save S = save" "non_interactive flags" "conode_setup S config flags d = Returns None d'"
  shows "stored d' = (stored d)(config \<mapsto> setup_config S flags)"
  using assms by (simp add: conode_setup_def written)

lemma setup_elsewhere:
  assumes "conf_Save S = save" "non_interactive flags" "conode_setup S config flags d = Returns err d'" "path \<noteq> config"
  shows "stored d' path = stored d path"
  using assms written not_written by (cases err) (auto simp: conode_setup_def)

end

definition disk_save :: "string \<Rightarrow> 'v cothority_config \<Rightarrow> (string \<rightharpoonup> 'v cothority_config, go_error option) prog" where
  "disk_save path conf = (\<lambda>d. if path = [] then Returns (Some ''no such file or directory'') d else Returns None (d(path \<mapsto> conf)))"

interpretation disk_files: config_files disk_save "\<lambda>d. d"
  by unfold_locales (auto simp: disk_save_def split: if_splits)

lemma address_back:
  assumes "CHR ''['' \<notin> set h" "CHR '']'' \<notin> set h"
  shows "SplitHostPort (drop 6 (tls_address (JoinHostPort h (show_int i)))) = Inr (h, show_int i)"
proof -
  have "c \<notin> set (show_int i)" if "c \<notin> insert CHR ''-'' (set ''0123456789'')" for c
    using show_int_chars [of i] that by blast
  then show ?thesis using assms by (simp add: tls_address_def SplitHostPort_Join)
qed

text \<open>
  The words of the command line. Names and aliases are distinct, and each word reaches its action with
  the arguments that follow.
\<close>

lemma conode_routed:
  "distinct (concat (map (\<lambda>c. fst c # fst (snd c)) conode_commands))"
  "w \<in> {''setup'', ''s''} \<Longrightarrow> conode_route (w # args) = Some (SetupAction, args)"
  "conode_route (''server'' # args) = Some (ServerAction, args)"
  "w \<in> {''check'', ''c''} \<Longrightarrow> conode_route (w # args) = Some (CheckAction, args)"
  by (auto simp: conode_route_def conode_commands_def)

end
