(* ===== verification/Conode.thy ===== *)
theory Conode
  imports Prelude
begin

text \<open>
  conode/conode.go, \<open>checkConfig\<close>: ask every server of a group for its status and wait for the
  answers; and service/ntp.go. The files, the status client and the NTP client are arguments; what
  the select of the waiting loop takes from its three channels is a list of events, in that order.
\<close>

section \<open>Waiting for the servers\<close>

datatype status_event = Reply | Failed go_error | Timeout

definition timeout_error :: go_error where
  "timeout_error = ''didn't get all the responses in time''"

text \<open>
  The loop \<open>for counter < len(ro.List)\<close>, with \<open>n\<close> answers to go. \<open>None\<close>: it still waits for an
  event. The timer is one of the channels, so there is always another event.
\<close>

fun await :: "nat \<Rightarrow> status_event list \<Rightarrow> go_error option option" where
  "await 0 events = Some None"
| "await (Suc n) [] = None"
| "await (Suc n) (Reply # events) = await n events"
| "await (Suc n) (Failed err # events) = Some (Some err)"
| "await (Suc n) (Timeout # events) = Some (Some timeout_error)"

text \<open>
  What the command is given: the flag \<open>-g\<close>, the arguments, and the files. \<open>None\<close> inside a result is
  a process that \<open>log.Fatal\<close> has ended.
\<close>

record check_env =
  flag_g :: string
  check_args :: "string list"
  open_file :: "string \<Rightarrow> go_error option"
  group_size :: "string \<Rightarrow> nat result"

datatype check_end = CheckExited | CheckEnded "go_error option" | CheckWaits

definition checkConfig :: "check_env \<Rightarrow> status_event list \<Rightarrow> check_end" where
  "checkConfig C events =
     (let tomlFileName = (case check_args C of [] \<Rightarrow> flag_g C | a # _ \<Rightarrow> a) in
      if tomlFileName = [] then CheckExited
      else case open_file C tomlFileName of
          Some err \<Rightarrow> CheckEnded (Some err)
        | None \<Rightarrow>
            (case group_size C tomlFileName of
               Inl err \<Rightarrow> CheckEnded (Some err)
             | Inr n \<Rightarrow> (case await n events of None \<Rightarrow> CheckWaits | Some r \<Rightarrow> CheckEnded r)))"

lemma await_ok: "await n events = Some None \<longleftrightarrow> n \<le> length events \<and> set (take n events) \<subseteq> {Reply}"
  by (induction n events rule: await.induct) auto

lemma await_first_bad:
  "await n (replicate k Reply @ e # events) =
     (if n \<le> k then Some None
      else case e of Reply \<Rightarrow> await (n - Suc k) events | Failed err \<Rightarrow> Some (Some err) | Timeout \<Rightarrow> Some (Some timeout_error))"
proof (induction k arbitrary: n)
  case 0
  then show ?case by (cases n) (auto split: status_event.split)
next
  case (Suc k)
  then show ?case by (cases n) (auto split: status_event.split)
qed

lemma await_total:
  assumes "Timeout \<in> set events"
  shows "await n events \<noteq> None"
  using assms by (induction n events rule: await.induct) auto

text \<open>
  C40: The check passes exactly when as many servers have answered as the group has members, before an
  error or the timeout. It always ends, since the timer fires; the first error or the timeout
  ends it, however many have answered; and a group without members passes without an answer. The comment
  on \<open>checkConfig\<close> promises more, a valid signature from each server: what a server replies is not looked at.
\<close>

theorem checkConfig_exact:
  assumes "check_args C = file # rest" "file \<noteq> []" "open_file C file = None" "group_size C file = Inr n"
  shows "(checkConfig C events = CheckEnded None \<longleftrightarrow> n \<le> length events \<and> set (take n events) \<subseteq> {Reply}) \<and>
    (Timeout \<in> set events \<longrightarrow> checkConfig C events \<noteq> CheckWaits) \<and>
    (k < n \<longrightarrow> checkConfig C (replicate k Reply @ Failed err # events) = CheckEnded (Some err) \<and>
       checkConfig C (replicate k Reply @ Timeout # events) = CheckEnded (Some timeout_error)) \<and>
    (n = 0 \<longrightarrow> checkConfig C [] = CheckEnded None)"
proof -
  have run: "checkConfig C es = (case await n es of None \<Rightarrow> CheckWaits | Some r \<Rightarrow> CheckEnded r)" for es
    using assms by (simp add: checkConfig_def Let_def)
  have "checkConfig C events = CheckEnded None \<longleftrightarrow> await n events = Some None"
    unfolding run by (auto split: option.split)
  moreover have "Timeout \<in> set events \<longrightarrow> checkConfig C events \<noteq> CheckWaits"
    unfolding run using await_total [of events n] by (auto split: option.split)
  ultimately show ?thesis unfolding await_ok by (simp add: run await_first_bad)
qed

lemma checkConfig_exact_witness:
  "checkConfig \<lparr>flag_g = [], check_args = [''g''], open_file = (\<lambda>_. None), group_size = (\<lambda>_. Inr 2)\<rparr>
     [Reply, Failed ''x'', Reply] = CheckEnded (Some ''x'')"
  using checkConfig_exact [of "\<lparr>flag_g = [], check_args = [''g''], open_file = (\<lambda>_. None), group_size = (\<lambda>_. Inr 2)\<rparr>"
      "''g''" "[]" 2 "[Reply]" 1 "''x''"]
  by (simp add: checkConfig_def)

section \<open>Network time\<close>

text \<open>\<open>getRemoteTime\<close>: the time of the first server that answers, or the empty string.\<close>

definition NTP_SERVERS :: "string list" where
  "NTP_SERVERS = [''ntp1.aliyun.com'']"

primrec first_time :: "(string \<Rightarrow> string result) \<Rightarrow> string list \<Rightarrow> string" where
  "first_time query [] = []"
| "first_time query (server # servers) =
     (case query server of Inl err \<Rightarrow> first_time query servers | Inr time \<Rightarrow> time)"

definition getRemoteTime :: "(string \<Rightarrow> string result) \<Rightarrow> string" where
  "getRemoteTime query = first_time query NTP_SERVERS"

end
