(* ===== verification/Programs.thy ===== *)
theory Programs
  imports Timing EndToEnd Setup Conode
begin

text \<open>
  The \<open>main\<close> functions of app/app.go and conode/conode.go: the words of a command line, the command they
  reach, and how the process ends. The command line library, which separates words from flags and
  prints the help text, is an argument: the flags are given as they were parsed, and \<open>help\<close> is what it does
  when no command is found.
\<close>

datatype 'x process_end = Exit nat | Serves 'x | Hangs

text \<open>\<open>log.ErrFatal\<close> of what \<open>cliApp.Run\<close> returns.\<close>

definition exit_code :: "go_error option \<Rightarrow> nat" where
  "exit_code err = (if ErrFatal err then 1 else 0)"

section \<open>The client\<close>

text \<open>The flags of \<open>block\<close>, \<open>--hash\<close> and \<open>--index\<close>, and their values when they are not given.\<close>

record block_flags =
  flag_hash :: string
  flag_index :: int

definition no_block_flags :: block_flags where
  "no_block_flags = \<lparr>flag_hash = [], flag_index = - 1\<rparr>"

primrec perform :: "'s app_env \<Rightarrow> group_files \<Rightarrow> ('s, 'f) timing_env \<Rightarrow> block_flags \<Rightarrow> string list \<Rightarrow> action \<Rightarrow> ('s, exit) prog" where
  "perform A F T flags args CmdTime = cmdTime F T args"
| "perform A F T flags args CmdCounter = cmdCounter F T args"
| "perform A F T flags args AddPeer = addPeer A args"
| "perform A F T flags args DelPeer = delPeer A args"
| "perform A F T flags args ShowPeer = showPeer A args"
| "perform A F T flags args AddProxy = addProxy A args"
| "perform A F T flags args DelProxy = delProxy A args"
| "perform A F T flags args ShowProxy = showProxy A"
| "perform A F T flags args CreateGenesis = createGenesisBlock A"
| "perform A F T flags args ShowBlock = showBlock A (flag_hash flags) (flag_index flags)"

definition ends_with :: "exit \<Rightarrow> nat" where
  "ends_with e = (case e of Exited \<Rightarrow> 1 | Ended err \<Rightarrow> exit_code err)"

definition app_main ::
  "go_error option \<Rightarrow> 's app_env \<Rightarrow> group_files \<Rightarrow> ('s, 'f) timing_env \<Rightarrow> block_flags \<Rightarrow> string list \<Rightarrow> ('s, unit process_end) prog" where
  "app_main help A F T flags words =
     (case route all_commands words of
        None \<Rightarrow> ret (Exit (exit_code help))
      | Some (action, args) \<Rightarrow> bnd (perform A F T flags args action) (\<lambda>e. ret (Exit (ends_with e))))"

section \<open>The server\<close>

record ('d, 'v) conode_env =
  int_size :: nat
  no_command :: "go_error option"
  setup_with :: "('d, 'v) setup_env"
  on_disk :: "'d \<Rightarrow> string \<Rightarrow> 'v cothority_config option"
  parse_config :: "'v cothority_config \<Rightarrow> go_error option"
  raised_limit :: "rlimit option option"
  check_group :: "string list \<Rightarrow> check_env"
  check_answers :: "status_event list"

text \<open>A check that has no answer yet goes on waiting; a server serves until it is closed.\<close>

definition conode_main :: "('d, 'v) conode_env \<Rightarrow> string \<Rightarrow> setup_flags \<Rightarrow> string list \<Rightarrow> ('d, 'v cothority_config process_end) prog" where
  "conode_main N config flags words =
     (if \<not> word_size_ok (int_size N) then ret (Exit 1)
      else case conode_route words of
          None \<Rightarrow> ret (Exit (exit_code (no_command N)))
        | Some (SetupAction, args) \<Rightarrow> bnd (conode_setup (setup_with N) config flags) (\<lambda>err. ret (Exit (exit_code err)))
        | Some (ServerAction, args) \<Rightarrow>
            bnd (gets (runServer (on_disk N) (parse_config N) (raised_limit N) config)) (\<lambda>e.
            ret (case e of ServerExited \<Rightarrow> Exit 1 | ServerStarted conf \<Rightarrow> Serves conf))
        | Some (CheckAction, args) \<Rightarrow>
            ret (case checkConfig (check_group N args) (check_answers N) of
                CheckExited \<Rightarrow> Exit 1 | CheckEnded err \<Rightarrow> Exit (exit_code err) | CheckWaits \<Rightarrow> Hangs))"

section \<open>Sessions\<close>

text \<open>
  Without a readable group file no command sends anything: each ends with code 1 and leaves the world as
  it was.
\<close>

theorem no_group_no_message:
  assumes "parseConfig A = None" "readGroup F args = None" "route all_commands words = Some (action, args)"
  shows "app_main help A F T flags words s = Returns (Exit 1) s"
proof -
  have "\<exists>e. perform A F T flags args action s = Returns e s \<and> ends_with e = 1"
    using assms(1,2)
    by (cases action)
      (auto simp: cmdTime_def cmdCounter_def addPeer_def delPeer_def showPeer_def addProxy_def delProxy_def showProxy_def
        createGenesisBlock_def showBlock_def finish_def prog_simps ends_with_def exit_code_def ErrFatal_def split: sum.split option.split)
  then show ?thesis using assms(3) by (auto simp: app_main_def prog_simps)
qed

text \<open>
  A first session. On a machine with 64-bit integers, whose files keep what is written and whose
  configurations parse: if \<open>conode setup\<close> (or \<open>conode s\<close>), without questions and for a host without
  brackets, ends with code 0, then \<open>conode server\<close> serves with the configuration that holds the given
  description, suite and keys and an address that reads back as host and port, if the limit of open files
  can be read; and before the file is there, \<open>conode server\<close> ends with code 1.
\<close>

theorem setup_and_serve:
  assumes "word_size_ok (int_size N)" "config_files (conf_Save (setup_with N)) (on_disk N)" "non_interactive flags"
    and "CHR ''['' \<notin> set (host flags)" "CHR '']'' \<notin> set (host flags)"
    and "w \<in> {''setup'', ''s''}" "conode_main N config flags [w] d = Returns (Exit 0) d'"
    and "\<And>conf. parse_config N conf = None" "raised_limit N \<noteq> Some None"
  shows "\<exists>conf. conode_main N config flags [''server''] d' = Returns (Serves conf) d' \<and>
      on_disk N d' = (on_disk N d)(config \<mapsto> conf) \<and> cc_Description conf = description flags \<and>
      cc_Suite conf = suite_name (setup_with N) \<and> cc_Public conf = fst (public_hex (setup_with N)) \<and>
      SplitHostPort (drop 6 (cc_Address conf)) = Inr (host flags, show_int (port flags))"
    and "on_disk N d config = None \<Longrightarrow> conode_main N config flags [''server''] d = Returns (Exit 1) d"
proof -
  let ?conf = "setup_config (setup_with N) flags"
  have "conode_setup (setup_with N) config flags d = Returns None d'"
    using assms(1,6,7) conode_routed(2) [of w "[]"]
    by (auto simp: conode_main_def prog_simps exit_code_def ErrFatal_def split: outcome.splits if_splits)
  then have files: "on_disk N d' = (on_disk N d)(config \<mapsto> ?conf)"
    by (rule config_files.setup_writes [OF assms(2) refl assms(3)])
  moreover have "SplitHostPort (drop 6 (cc_Address ?conf)) = Inr (host flags, show_int (port flags))"
    using address_back [OF assms(4,5)] by (simp add: setup_config_def Let_def)
  ultimately show "\<exists>conf. conode_main N config flags [''server''] d' = Returns (Serves conf) d' \<and>
      on_disk N d' = (on_disk N d)(config \<mapsto> conf) \<and> cc_Description conf = description flags \<and>
      cc_Suite conf = suite_name (setup_with N) \<and> cc_Public conf = fst (public_hex (setup_with N)) \<and>
      SplitHostPort (drop 6 (cc_Address conf)) = Inr (host flags, show_int (port flags))"
    using assms(1,8,9) conode_routed(3) [of "[]"]
    by (intro exI [of _ ?conf]) (auto simp: conode_main_def prog_simps runServer_def setup_config_def Let_def)
  show "conode_main N config flags [''server''] d = Returns (Exit 1) d" if "on_disk N d config = None"
    using assms(1) that conode_routed(3) [of "[]"] by (simp add: conode_main_def prog_simps runServer_def)
qed

end
