(* ===== verification/Spec2Isabelle.thy ===== *)
theory Spec2Isabelle
  imports Difficulty Solver Network Candidates Timers Typing Ledger Directory Election Printing ChainIndex Startup Programs
begin

text \<open>
  A model of daolicloud, the node of the LotMint blockchain, with proofs of what it does.

  \<^bold>\<open>The program.\<close> A node keeps a chain of leader's blocks (\<open>NewLeaderHelloBlock\<close>) in a bucket of a
  database. Nodes mine candidate blocks, buffer and sign each other's candidates while a timer
  runs, and a leader then elects some of them in a de-fork block and makes the next leader's
  block, which is broadcast and becomes the latest block of every node that takes it. Around this
  are the peers a node sends to, the gateways of the consensus group, the copying of chains
  from other nodes, a client library with a command line, and the start of the service.

  \<^bold>\<open>Theories and sources\<close> (each theory imports the ones before it that it uses).
  \<^item> Prelude: machine integers, slices, maps visited in a given order, errors as sums, and programs:
    functions from a state to an outcome, which returns, panics or blocks for ever, with mutexes as
    flags. \<open>prog_simps\<close> evaluates programs, \<open>keeps_intros\<close> proves that they keep an invariant.
  \<^item> Words, Encoding: blockchain/common.go, the free list of 8-byte buffers, the fixed-width readers
    and writers and \<open>writeElement(s)\<close>; refinement to a pure encoder and round trips.
  \<^item> Sha256, Hex, Format: the standard library functions that hashes are made of and values printed
    with: the digest, hexadecimal and decimal numbers, and the calendar of \<open>time.Format\<close>.
  \<^item> Difficulty: blockchain/difficulty.go. What \<open>CompactToBig\<close> and \<open>BigToCompact\<close> compute, their
    round trip, precision and monotonicity, at 32 and unbounded bits as the code has them.
  \<^item> Blocks: blockchain/block.go, struct.go, transaction.go: blocks, copies, signatures, hashes.
    Printing: their \<open>String\<close> methods, and what a printed block tells.
  \<^item> ChainState, ChainIndex: blockchain/chain.go, blockheader.go, blockindex.go, genesis.go: header bytes,
    rows, genesis constants, and the loading of the block index by \<open>New\<close>.
  \<^item> Solver, Miner: mining/miner.go: the nonce search of \<open>solveBlock\<close> (a \<open>partial_function\<close>; it is shown when
    and with what it returns, and exactly when it never does), and the goroutines and channels of \<open>Start\<close>,
    \<open>Stop\<close>, workers and generators as steps.
  \<^item> Pool, BlockStore, Clock: service/struct.go and clock.go: transaction pool, block buffer, the
    database of blocks, the window of time stamps.
  \<^item> Urls: utils/utils.go. Node, Peers, Sync, Consensus, Acceptance: service/service.go, one group of
    definitions per part of the service: its state, messages and tasks; peers and gateways; queries,
    handshake and download; membership, timers, elections and block messages; and what a node takes in.
  \<^item> Runs: the table of handlers, the client requests, and the runs of a node as an inductive relation
    on its state. Frames: the operations that do not touch what an invariant is about (the locale
    \<open>node_frame\<close>, and \<open>loose_frame\<close>, which gives it, for invariants that say nothing of candidates, peers,
    buffer and miner). Invariants and Typing: what holds in every run of a node. Timers: the race for
    \<open>timerRunning\<close>. Network: the runs of a network of nodes on this code, how far chains grow in them and
    what their blocks extend. Candidates: the blocks mined, sent and buffered there. Election: the run of a
    round, from the timer to the next block, and the run from the genesis block to height 1.
  \<^item> Simulation, Ledger, Directory: abstract specifications. The database of blocks is simulated by a
    ledger and the peer storage by a directory of identities, for every sequence of calls (the locale
    \<open>simulation\<close>).
  \<^item> Startup: \<open>newService\<close>, \<open>tryLoad\<close>, \<open>save\<close>. Client: api.go, struct.go, app/app.go, app/cmd.go; Timing: their
    \<open>Clock\<close> and \<open>Count\<close> calls; EndToEnd: commands from the command line to the database and back. Conode:
    \<open>checkConfig\<close> of conode/conode.go, and service/ntp.go. Setup: \<open>setup\<close> and \<open>runServer\<close> of
    conode/conode.go, and conode/fd_unix.go. Programs: the two \<open>main\<close> functions.

  \<^bold>\<open>How state and operations correspond.\<close> A Go struct is a record with its field names, a method a
  program over that record with the method's name, a function with an error result yields a sum.
  A nil pointer is \<open>None\<close>; every dereference of a pointer that may be nil is a \<open>deref\<close>, which panics.
  A slice that is compared with nil is an optional list. A Go map is a partial function, and a
  loop over one takes the order of the visit from the environment. Unsigned integers are words, and
  \<open>int\<close> is an unbounded integer where no overflow is within reach. Pointers are values: copies that
  share a block in the source are equal values here, so a change through one pointer is written to the
  place the code reads it from, and no other aliasing is modelled; in particular two generators that
  were given the same candidate block each work on a copy of it here. An operation that may walk for ever is
  a \<open>partial_function\<close>, with \<open>None\<close> for a walk without end.

  \<^bold>\<open>Concurrency.\<close> A handler, a client call or a goroutine runs alone until it ends, blocks or sleeps; what a
  goroutine does after a sleep is a task of its own, and so is what \<open>startTimer\<close> does after its test of
  \<open>timerRunning\<close> (\<open>armTimer\<close>), which no lock protects, and what \<open>processMessage\<close> does after each entry it
  receives (\<open>collect\<close>). Tasks, messages and calls interleave in every order (\<open>node_step\<close>), and the miner's
  goroutines step by step. Other data races within two such pieces are not modelled. Time is not: a
  task after a sleep, or the end of a wait, may come at any moment. A piece that blocks holds its mutexes for ever; a node
  whose goroutine has panicked may go on, which covers a framework that recovers and one that does not.

  \<^bold>\<open>Environments.\<close> Code outside the tree is an argument: bbolt and the codec (\<open>db_env\<close>, with the laws
  of the locale \<open>storage\<close>, which \<open>mem_env\<close> satisfies; it may drop nil entries of slices of
  pointers), the network, the random choice, the clock and the genesis block (\<open>node_env\<close>), the URL parser and the suites (\<open>url_env\<close>), the framework's \<open>Save\<close> and \<open>Load\<close>
  (\<open>start_env\<close>, locale \<open>saved_data\<close>: it saves values of registered types only), the transport
  of the client (\<open>client_env\<close>, locale \<open>connected\<close>), the
  reader of headers (locale \<open>header_reader\<close>), the configuration files (locale \<open>config_files\<close>), the
  signature constructor (\<open>signer\<close>) and a digest (\<open>digest\<close>). In Network, messages arrive as they were sent, and
  may be lost, repeated, reordered and misdelivered.

  \<^bold>\<open>What is shown.\<close> The arithmetic of targets is correct, on the whole range and with its limits; the
  serializer refines its specification; the store is a transactional ledger, and the peer storage a directory; the
  miner finds the first nonce, its goroutines never touch a closed channel and all end; a fresh block becomes
  the latest one once; a command that adds peers ends with those that answer in the peer map; states stay
  well-formed, every candidate that is sent or buffered has its proof of work, and every leader's block is the
  genesis block or one of height 1 under its maker's key. And, proved of the code as it is: a handshake
  freezes a node that has a chain; a node cannot be restarted on a chain of its own, nor find its
  peers again; two timers can be pending at once; no node ever asks for a signature; a buffered block
  gains one signature at most; and no chain of a network of such nodes grows beyond height 1, which is
  reached.

  \<^bold>\<open>Bounds.\<close> Loops over a fixed number of rounds recurse on that number (\<open>COSI_MEMBERS\<close> for the member
  walks, the number of remotes for \<open>try_remotes\<close>, each round of which removes one, the length of the range
  for \<open>collect_blocks\<close>; \<open>collect\<close> carries the number of entries it waits for), so no fuel can run out.
  \<open>solveBlock\<close> and the walk of \<open>GetBlockByIndex\<close> have neither fuel nor bound.

  \<^bold>\<open>Not modelled.\<close> \<open>init\<close> functions beyond the registered message types; \<open>GenNonce\<close> and \<open>GenNonce64\<close> (random
  numbers that nothing uses); \<open>NewProtocol\<close> (it returns nil); \<open>KeyBlockTree\<close> and \<open>writeBlock\<close>, which nothing
  uses; the parsing of flags by the command line library; the interactive dialogue of \<open>setup\<close>. The
  functions that are commented out in service.go and struct.go (\<open>runProposal\<close>, the UDP server, \<open>Choice\<close>) are not
  part of the program. Logging is left out everywhere.
\<close>

end
